(* ===== verification/Prelude.thy ===== *)
theory Prelude
  imports Complex_Main "HOL-Library.Word" "HOL-Library.Sublist"
begin

text \<open>
  What every component of the development shares.

  \<^item> \<open>fault\<close> and \<open>'a res\<close>: the ways a C++ function of this repository can fail to return
    normally, and the result type of a modelled function.
  \<^item> \<open>run\<close>: an event handler run over a list of events, collecting what it publishes.
  \<^item> the locales \<open>traced_component\<close>, \<open>component\<close> and \<open>total_component\<close>: the contract of an
    event handler (a history invariant, a state invariant, no fault on admissible events), each
    lifted from one event to runs once, here, and interpreted by the theories that model a
    component.
  \<^item> generic lemmas on lists, options and maps.
\<close>

named_theorems res_simps \<open>unfolding of the result type\<close>

section \<open>Faults and results\<close>

text \<open>
  \<open>Undefined_Behaviour\<close>: the C++ standard gives the execution no meaning (a null pointer is
  dereferenced, a vector is read out of range, a conversion is out of range).
  \<open>Out_Of_Range\<close> and \<open>Runtime_Error\<close>: the exception of that name is thrown out of the modelled function.
  \<open>Die\<close>: the process ends (\<open>glog.is(DIE)\<close>, \<open>exit\<close>).
  \<open>Hang\<close>: the function never returns.
\<close>

datatype fault = Undefined_Behaviour | Out_Of_Range | Runtime_Error string | Die | Hang

type_synonym 'a res = "fault + 'a"

definition res_bind :: "'a res \<Rightarrow> ('a \<Rightarrow> 'b res) \<Rightarrow> 'b res" where
  "res_bind r f = (case r of Inl e \<Rightarrow> Inl e | Inr x \<Rightarrow> f x)"

lemma res_bind_Inl [simp, res_simps]: "res_bind (Inl e) f = Inl e"
  by (simp add: res_bind_def)

lemma res_bind_Inr [simp, res_simps]: "res_bind (Inr x) f = f x"
  by (simp add: res_bind_def)

lemma res_bind_eq_Inr: "res_bind r f = Inr y \<longleftrightarrow> (\<exists>x. r = Inr x \<and> f x = Inr y)"
  by (cases r) auto

lemma res_bind_split:
  "P (res_bind r f) \<longleftrightarrow> (\<forall>e. r = Inl e \<longrightarrow> P (Inl e)) \<and> (\<forall>x. r = Inr x \<longrightarrow> P (f x))"
  by (cases r) auto

section \<open>Running an event handler\<close>

type_synonym ('e, 's, 'o) handler = "'e \<Rightarrow> 's \<Rightarrow> ('s \<times> 'o list) res"

fun run :: "('e, 's, 'o) handler \<Rightarrow> 'e list \<Rightarrow> 's \<Rightarrow> ('s \<times> 'o list) res" where
  "run h [] s = Inr (s, [])"
| "run h (e # es) s =
     (case h e s of
        Inl f \<Rightarrow> Inl f
      | Inr (s', out) \<Rightarrow>
          (case run h es s' of Inl f \<Rightarrow> Inl f | Inr (s'', out') \<Rightarrow> Inr (s'', out @ out')))"

lemma run_Cons_Inr:
  "run h (e # es) s = Inr (s'', out) \<longleftrightarrow>
     (\<exists>s' out1 out2. h e s = Inr (s', out1) \<and> run h es s' = Inr (s'', out2) \<and> out = out1 @ out2)"
  by (auto split: sum.splits prod.splits)

lemma run_append:
  "run h (es @ fs) s =
     (case run h es s of
        Inl f \<Rightarrow> Inl f
      | Inr (s', out) \<Rightarrow>
          (case run h fs s' of Inl f \<Rightarrow> Inl f | Inr (s'', out') \<Rightarrow> Inr (s'', out @ out')))"
  by (induction es arbitrary: s) (auto split: sum.splits prod.splits)

text \<open>
  The contract of a component whose meaning depends on its past: \<open>hist es os s\<close> relates the
  events handled so far, everything published so far and the present state.
\<close>

locale traced_component =
  fixes handle :: "('e, 's, 'o) handler"
    and ok :: "'e \<Rightarrow> bool"
    and hist :: "'e list \<Rightarrow> 'o list \<Rightarrow> 's \<Rightarrow> bool"
  assumes hist_step:
    "ok e \<Longrightarrow> hist es os s \<Longrightarrow> handle e s = Inr (s', out) \<Longrightarrow> hist (es @ [e]) (os @ out) s'"
begin

lemma run_hist:
  "list_all ok es \<Longrightarrow> hist es0 os0 s \<Longrightarrow> run handle es s = Inr (s', out)
    \<Longrightarrow> hist (es0 @ es) (os0 @ out) s'"
proof (induction es arbitrary: es0 os0 s out)
  case Nil
  then show ?case by simp
next
  case (Cons e es)
  from Cons.prems(3) obtain s1 out1 out2
    where step: "handle e s = Inr (s1, out1)" and rest: "run handle es s1 = Inr (s', out2)"
      and out: "out = out1 @ out2"
    unfolding run_Cons_Inr by blast
  have "hist (es0 @ [e]) (os0 @ out1) s1"
    using hist_step [OF _ Cons.prems(2) step] Cons.prems(1) by simp
  from Cons.IH [OF _ this rest] Cons.prems(1) out show ?case by simp
qed

end

text \<open>The contract with a state invariant only is the special case that forgets the past.\<close>

locale component =
  fixes handle :: "('e, 's, 'o) handler"
    and ok :: "'e \<Rightarrow> bool"
    and inv :: "'s \<Rightarrow> bool"
  assumes inv_step: "ok e \<Longrightarrow> inv s \<Longrightarrow> handle e s = Inr (s', out) \<Longrightarrow> inv s'"

sublocale component \<subseteq> past: traced_component handle ok "\<lambda>_ _ s. inv s"
  by unfold_locales (rule inv_step)

context component
begin

lemma run_inv: "list_all ok es \<Longrightarrow> inv s \<Longrightarrow> run handle es s = Inr (s', out) \<Longrightarrow> inv s'"
  using past.run_hist by blast

end

text \<open>A component that in addition never faults on admissible events.\<close>

locale total_component = component +
  assumes progress: "ok e \<Longrightarrow> inv s \<Longrightarrow> \<exists>s' out. handle e s = Inr (s', out)"
begin

lemma run_total: "list_all ok es \<Longrightarrow> inv s \<Longrightarrow> \<exists>s' out. run handle es s = Inr (s', out) \<and> inv s'"
proof (induction es arbitrary: s)
  case Nil
  then show ?case by simp
next
  case (Cons e es)
  then obtain s1 out1 where step: "handle e s = Inr (s1, out1)"
    using progress [of e s] by auto
  from Cons.prems have "inv s1" by (auto intro: inv_step [OF _ _ step])
  with Cons.IH [of s1] Cons.prems obtain s' out2
    where "run handle es s1 = Inr (s', out2)" and "inv s'" by auto
  with step show ?case by (auto simp: run_Cons_Inr)
qed

end

lemma filter_eq_distinct: "distinct xs \<Longrightarrow> filter (\<lambda>x. x = a) xs = (if a \<in> set xs then [a] else [])"
  by (induction xs) auto

lemma upd_map_add_left:
  assumes "k \<notin> fst ` set xs" shows "f(k \<mapsto> v) ++ map_of xs = f ++ (map_of xs)(k \<mapsto> v)"
proof -
  from assms have "map_of xs k = None" by (simp add: map_of_eq_None_iff)
  then show ?thesis by (intro ext) (auto simp: map_add_def split: option.splits)
qed

end
