(* ===== verification/Ieee.thy ===== *)
theory Ieee
  imports Prelude
begin

text \<open>
  The floating-point numbers of C++ (\<open>float\<close> and \<open>double\<close>), as the IEEE 754 formats binary32
  and binary64: a value is not-a-number, an infinity or a rational number, and every arithmetic
  operation rounds its exact result to the nearest representable number, ties to even, with
  gradual underflow and with overflow to infinity.

  The two signed zeros are one value: the sign of a zero is read only by a division by it, and
  every divisor of the modelled code is either a conversion from an integer or a difference
  \<open>x - x\<close>, both of which give the positive zero in the rounding mode of the program.

  The locale \<open>ieee_format\<close> holds the laws of rounding (monotone, exact on representable
  numbers); it is interpreted on both formats.
\<close>

section \<open>Binary logarithm of a positive rational\<close>

fun ilog2_nat :: "nat \<Rightarrow> nat" where
  "ilog2_nat n = (if n \<le> 1 then 0 else Suc (ilog2_nat (n div 2)))"

declare ilog2_nat.simps [simp del]

lemma ilog2_nat_bounds: "0 < n \<Longrightarrow> 2 ^ ilog2_nat n \<le> n \<and> n < 2 ^ Suc (ilog2_nat n)"
proof (induction n rule: ilog2_nat.induct)
  case (1 n)
  show ?case
  proof (cases "n \<le> 1")
    case True
    with 1 show ?thesis by (simp add: ilog2_nat.simps [of n])
  next
    case False
    with 1 have "2 ^ ilog2_nat (n div 2) \<le> n div 2" and "n div 2 < 2 ^ Suc (ilog2_nat (n div 2))"
      by auto
    then have "2 * 2 ^ ilog2_nat (n div 2) \<le> n" and "n < 2 * 2 ^ Suc (ilog2_nat (n div 2))"
      by linarith+
    with False show ?thesis by (simp add: ilog2_nat.simps [of n])
  qed
qed

definition ilog2 :: "rat \<Rightarrow> int" where
  "ilog2 x =
     (case quotient_of x of (a, b) \<Rightarrow>
        let k = int (ilog2_nat (nat a)) - int (ilog2_nat (nat b))
        in if 2 powi k \<le> x then k else k - 1)"

lemma ilog2_nat_rat:
  assumes "0 < (z::int)"
  shows "(2::rat) ^ ilog2_nat (nat z) \<le> of_int z" and "of_int z < (2::rat) ^ Suc (ilog2_nat (nat z))"
proof -
  from assms obtain n where z: "z = int n" and n: "0 < n"
    by (metis nat_0_le less_imp_le zero_less_nat_eq)
  from ilog2_nat_bounds [OF n] have "of_nat (2 ^ ilog2_nat n) \<le> (of_nat n :: rat)"
    and "of_nat n < (of_nat (2 ^ Suc (ilog2_nat n)) :: rat)"
    by (simp_all only: of_nat_le_iff of_nat_less_iff)
  then show "(2::rat) ^ ilog2_nat (nat z) \<le> of_int z"
    and "of_int z < (2::rat) ^ Suc (ilog2_nat (nat z))"
    by (simp_all add: z)
qed

lemma powi_add2: "(2::rat) powi (m + n) = 2 powi m * 2 powi n"
  by (simp add: power_int_add)

lemma powi_of_nat2: "(2::rat) powi int n = 2 ^ n"
  by simp

lemma powi_pos2 [simp]: "0 < (2::rat) powi n"
  by simp

lemma powi_mono2: "m \<le> n \<Longrightarrow> (2::rat) powi m \<le> 2 powi n"
  by (rule power_int_increasing) auto

lemma ilog2_bounds:
  assumes "0 < x"
  shows "2 powi ilog2 x \<le> x" and "x < 2 powi (ilog2 x + 1)"
proof -
  obtain a b where q: "quotient_of x = (a, b)" by (cases "quotient_of x")
  then have b: "0 < b" and x: "x = of_int a / of_int b"
    using quotient_of_denom_pos [OF q] quotient_of_div [OF q] by auto
  with assms have a: "0 < a" by (simp add: zero_less_divide_iff)
  define la lb where "la = ilog2_nat (nat a)" and "lb = ilog2_nat (nat b)"
  have A: "(2::rat) ^ la \<le> of_int a" "of_int a < (2::rat) ^ Suc la"
    using ilog2_nat_rat [OF a] by (simp_all add: la_def)
  have B: "(2::rat) ^ lb \<le> of_int b" "of_int b < (2::rat) ^ Suc lb"
    using ilog2_nat_rat [OF b] by (simp_all add: lb_def)
  define k where "k = int la - int lb"
  have pk: "(2::rat) powi k = 2 ^ la / 2 ^ lb"
    unfolding k_def by (simp add: power_int_diff)
  have bpos: "(0::rat) < of_int b" using b by simp
  have lower: "2 powi (k - 1) \<le> x"
  proof -
    have "(2::rat) powi (k - 1) = 2 ^ la / 2 ^ Suc lb"
      by (simp add: power_int_diff pk)
    also have "\<dots> \<le> of_int a / of_int b"
      using A(1) B(2) bpos a by (intro frac_le) auto
    finally show ?thesis by (simp add: x)
  qed
  have upper: "x < 2 powi (k + 1)"
  proof -
    have "of_int a / of_int b < (2::rat) ^ Suc la / 2 ^ lb"
      using A(2) B(1) bpos a by (intro frac_less) auto
    also have "\<dots> = 2 powi (k + 1)"
      by (simp add: power_int_add pk)
    finally show ?thesis by (simp add: x)
  qed
  have eq: "ilog2 x = (if 2 powi k \<le> x then k else k - 1)"
    by (simp add: ilog2_def q k_def la_def lb_def)
  show "2 powi ilog2 x \<le> x" using lower by (simp add: eq)
  show "x < 2 powi (ilog2 x + 1)" using upper by (simp add: eq)
qed

lemma powi_less_cancel2: "(2::rat) powi m < 2 powi n \<Longrightarrow> m < n"
  using powi_mono2 [of n m] by (meson leD not_less)

lemma ilog2_mono: "0 < x \<Longrightarrow> x \<le> y \<Longrightarrow> ilog2 x \<le> ilog2 y"
proof -
  assume "0 < x" and "x \<le> y"
  then have "2 powi ilog2 x < (2::rat) powi (ilog2 y + 1)"
    using ilog2_bounds [of x] ilog2_bounds [of y] by linarith
  then show ?thesis using powi_less_cancel2 by fastforce
qed

lemma ilog2_less: "0 < x \<Longrightarrow> x < 2 powi k \<Longrightarrow> ilog2 x < k"
  using ilog2_bounds(1) [of x] powi_less_cancel2 [of "ilog2 x" k] by linarith

section \<open>Rounding to nearest, ties to even\<close>

definition rne :: "rat \<Rightarrow> int" where
  "rne x =
     (let f = \<lfloor>x\<rfloor>; d = x - of_int f
      in if d < 1 / 2 then f else if 1 / 2 < d then f + 1 else if even f then f else f + 1)"

lemma rne_of_int [simp]: "rne (of_int n) = n"
  by (simp add: rne_def)

lemma rne_bounds: "\<lfloor>x\<rfloor> \<le> rne x" "rne x \<le> \<lfloor>x\<rfloor> + 1"
  by (auto simp: rne_def Let_def)

lemma rne_mono: "x \<le> y \<Longrightarrow> rne x \<le> rne y"
proof -
  assume le: "x \<le> y"
  show ?thesis
  proof (cases "\<lfloor>x\<rfloor> = \<lfloor>y\<rfloor>")
    case True
    with le show ?thesis by (auto simp: rne_def Let_def)
  next
    case False
    then have "\<lfloor>x\<rfloor> + 1 \<le> \<lfloor>y\<rfloor>" using floor_mono [OF le] by linarith
    with rne_bounds(2) [of x] rne_bounds(1) [of y] show ?thesis by linarith
  qed
qed

lemma rne_minus: "rne (- x) = - rne x"
proof (cases "x = of_int \<lfloor>x\<rfloor>")
  case True
  then show ?thesis by (metis of_int_minus rne_of_int)
next
  case False
  then have lt: "of_int \<lfloor>x\<rfloor> < x" using of_int_floor_le [of x] by linarith
  have "\<lfloor>- x\<rfloor> = - \<lfloor>x\<rfloor> - 1"
    using lt by (intro floor_unique) (simp_all, linarith)
  then show ?thesis by (auto simp: rne_def Let_def)
qed

text \<open>The exponent of the unit in the last place, and the rounding function of a format.\<close>

definition ulp_exp :: "nat \<Rightarrow> int \<Rightarrow> rat \<Rightarrow> int" where
  "ulp_exp p emax x = max (ilog2 \<bar>x\<bar> - (int p - 1)) (2 - emax - int p)"

definition rnd :: "nat \<Rightarrow> int \<Rightarrow> rat \<Rightarrow> rat" where
  "rnd p emax x =
     (if x = 0 then 0
      else of_int (rne (x / 2 powi ulp_exp p emax x)) * 2 powi ulp_exp p emax x)"

lemma rnd_0 [simp]: "rnd p emax 0 = 0"
  by (simp add: rnd_def)

lemma rnd_minus: "rnd p emax (- x) = - rnd p emax x"
  by (simp add: rnd_def ulp_exp_def rne_minus)

lemma scaled_rne_le:
  "x \<le> of_int n * 2 powi e \<Longrightarrow> of_int (rne (x / 2 powi e)) * (2::rat) powi e \<le> of_int n * 2 powi e"
  using rne_mono [of "x / 2 powi e" "of_int n"] by (simp add: pos_divide_le_eq)

lemma scaled_rne_ge:
  "of_int n * 2 powi e \<le> x \<Longrightarrow> of_int n * 2 powi e \<le> of_int (rne (x / 2 powi e)) * (2::rat) powi e"
  using rne_mono [of "of_int n" "x / 2 powi e"] by (simp add: pos_le_divide_eq)

lemma powi_as_int: "0 \<le> k \<Longrightarrow> (2::rat) powi k = of_int (2 ^ nat k)"
  by (simp add: power_int_def)

lemma powi_scale: "e \<le> k \<Longrightarrow> (2::rat) powi k = of_int (2 ^ nat (k - e)) * 2 powi e"
proof -
  assume "e \<le> k"
  then have "of_int (2 ^ nat (k - e)) * (2::rat) powi e = 2 powi (k - e) * 2 powi e"
    by (simp only: powi_as_int diff_ge_0_iff_ge)
  also have "\<dots> = 2 powi k" by (simp flip: powi_add2)
  finally show ?thesis by simp
qed

text \<open>A number of the format: at most \<open>p\<close> significant bits, no exponent below the least one.\<close>

definition representable :: "nat \<Rightarrow> int \<Rightarrow> rat \<Rightarrow> bool" where
  "representable p emax x \<longleftrightarrow>
     (\<exists>m k. x = of_int m * 2 powi k \<and> \<bar>m\<bar> < 2 ^ p \<and> 2 - emax - int p \<le> k)"

locale ieee_format =
  fixes p :: nat and emax :: int
  assumes precision: "1 \<le> p"
begin

lemma rnd_exact:
  assumes "representable p emax x"
  shows "rnd p emax x = x"
proof (cases "x = 0")
  case True
  then show ?thesis by simp
next
  case False
  from assms obtain m k where x: "x = of_int m * 2 powi k" and m: "\<bar>m\<bar> < 2 ^ p"
    and k: "2 - emax - int p \<le> k"
    unfolding representable_def by blast
  have "\<bar>x\<bar> = of_int \<bar>m\<bar> * 2 powi k" by (simp add: x abs_mult)
  also have "\<dots> < 2 ^ p * 2 powi k"
    using m by (metis mult_strict_right_mono of_int_less_iff of_int_numeral of_int_power powi_pos2)
  also have "\<dots> = 2 powi (int p + k)" by (simp add: powi_add2)
  finally have "ilog2 \<bar>x\<bar> < int p + k"
    using False by (intro ilog2_less) auto
  with k have e: "ulp_exp p emax x \<le> k" by (simp add: ulp_exp_def)
  have "x = of_int (m * 2 ^ nat (k - ulp_exp p emax x)) * 2 powi ulp_exp p emax x"
    using powi_scale [OF e] by (simp add: x)
  then show ?thesis using False
    by (metis (no_types, lifting) nonzero_mult_div_cancel_right powi_pos2 less_irrefl rnd_def rne_of_int)
qed

lemma rnd_pos_mono:
  assumes "0 < x" and "x \<le> y"
  shows "rnd p emax x \<le> rnd p emax y"
proof -
  let ?e = "ulp_exp p emax x" and ?f = "ulp_exp p emax y"
  have "?e \<le> ?f" using ilog2_mono [OF assms] assms by (simp add: ulp_exp_def)
  then consider "?e = ?f" | "?e < ?f" by linarith
  then show ?thesis
  proof cases
    case 1
    then have "rne (x / 2 powi ?e) \<le> rne (y / 2 powi ?f)"
      using assms by (intro rne_mono) (simp add: divide_right_mono)
    with 1 assms show ?thesis by (simp add: rnd_def)
  next
    case 2
    then have f: "?f = ilog2 y - (int p - 1)" and less: "ilog2 x < ilog2 y"
      using assms by (auto simp: ulp_exp_def)
    let ?m = "(2::rat) powi ilog2 y"
    have "x < 2 powi (ilog2 x + 1)" using assms by (intro ilog2_bounds)
    also have "\<dots> \<le> ?m" using less by (intro powi_mono2) simp
    finally have xm: "x \<le> ?m" by simp
    have my: "?m \<le> y" using assms by (intro ilog2_bounds) simp
    have "?e \<le> ilog2 y" and "?f \<le> ilog2 y" using 2 f precision by auto
    then obtain i j where i: "?m = of_int i * 2 powi ?e" and j: "?m = of_int j * 2 powi ?f"
      using powi_scale by blast
    have "rnd p emax x \<le> ?m"
      using scaled_rne_le [OF xm [unfolded i]] assms by (simp add: rnd_def i)
    moreover have "?m \<le> rnd p emax y"
      using scaled_rne_ge [OF my [unfolded j]] assms by (simp add: rnd_def j)
    ultimately have "rnd p emax x \<le> rnd p emax y" by linarith
    then show ?thesis by simp
  qed
qed

lemma rnd_nonneg: "0 \<le> x \<Longrightarrow> 0 \<le> rnd p emax x"
  using scaled_rne_ge [of 0 _ x] by (simp add: rnd_def)

lemma rnd_nonpos: "x \<le> 0 \<Longrightarrow> rnd p emax x \<le> 0"
  using rnd_nonneg [of "- x"] by (simp add: rnd_minus)

lemma rnd_mono:
  assumes "x \<le> y"
  shows "rnd p emax x \<le> rnd p emax y"
proof -
  consider "0 < x" | "x \<le> 0" "0 \<le> y" | "y < 0" by linarith
  then show ?thesis
  proof cases
    case 1
    then show ?thesis using assms by (rule rnd_pos_mono)
  next
    case 2
    then show ?thesis using rnd_nonpos [of x] rnd_nonneg [of y] by linarith
  next
    case 3
    then have "rnd p emax (- y) \<le> rnd p emax (- x)" using assms by (intro rnd_pos_mono) auto
    then show ?thesis by (simp add: rnd_minus)
  qed
qed

lemma rnd_ge_representable: "representable p emax a \<Longrightarrow> a \<le> x \<Longrightarrow> a \<le> rnd p emax x"
  using rnd_mono [of a x] rnd_exact [of a] by simp

lemma rnd_le_representable: "representable p emax a \<Longrightarrow> x \<le> a \<Longrightarrow> rnd p emax x \<le> a"
  using rnd_mono [of x a] rnd_exact [of a] by simp

end

lemma representable_int:
  "\<bar>n\<bar> < 2 ^ p \<Longrightarrow> 2 - emax - int p \<le> 0 \<Longrightarrow> representable p emax (of_int n)"
  unfolding representable_def by (intro exI [of _ n] exI [of _ 0]) simp

interpretation binary32: ieee_format 24 127
  by unfold_locales simp

interpretation binary64: ieee_format 53 1023
  by unfold_locales simp

section \<open>Floating-point values and their operations\<close>

datatype fp = NaN | PInf | NInf | Fin rat

text \<open>
  The comparison operators of C++: every comparison with a not-a-number is false, so \<open>a < b\<close>
  and \<open>b \<le> a\<close> are not complementary. \<open>fp_eq\<close> is the operator \<open>==\<close>.
\<close>

instantiation fp :: ord
begin

fun less_eq_fp :: "fp \<Rightarrow> fp \<Rightarrow> bool" where
  "less_eq_fp (Fin a) (Fin b) = (a \<le> b)"
| "less_eq_fp NaN _ = False"
| "less_eq_fp _ NaN = False"
| "less_eq_fp NInf _ = True"
| "less_eq_fp _ PInf = True"
| "less_eq_fp _ _ = False"

fun less_fp :: "fp \<Rightarrow> fp \<Rightarrow> bool" where
  "less_fp (Fin a) (Fin b) = (a < b)"
| "less_fp NInf (Fin b) = True"
| "less_fp NInf PInf = True"
| "less_fp (Fin a) PInf = True"
| "less_fp _ _ = False"

instance ..

end

fun fp_eq :: "fp \<Rightarrow> fp \<Rightarrow> bool" where
  "fp_eq NaN _ = False"
| "fp_eq a b = (a = b)"

lemma fp_less_iff: "(a::fp) < b \<longleftrightarrow> a \<le> b \<and> \<not> fp_eq a b"
  by (cases a; cases b) auto

lemma fp_not_less: "a \<noteq> NaN \<Longrightarrow> b \<noteq> NaN \<Longrightarrow> \<not> a < b \<longleftrightarrow> b \<le> (a::fp)"
  by (cases a; cases b) auto

lemma fp_le_not_less: "(a::fp) \<le> b \<Longrightarrow> \<not> b < a"
  by (cases a; cases b; simp)

lemma fp_less_trans: "(a::fp) < b \<Longrightarrow> b < c \<Longrightarrow> a < c"
  by (cases a; cases b; cases c) auto

lemma fp_less_irrefl: "\<not> (a::fp) < a"
  by (cases a) auto

lemma fp_less_not_le: "(a::fp) < b \<Longrightarrow> \<not> b \<le> a"
  by (cases a; cases b) auto

lemma fp_less_not_sym: "(a::fp) < b \<Longrightarrow> \<not> b < a"
  by (cases a; cases b) auto

lemma fp_less_le_trans: "(a::fp) < b \<Longrightarrow> b \<le> c \<Longrightarrow> a < c"
  by (cases a; cases b; cases c) auto

lemma fp_le_trans: "(a::fp) \<le> b \<Longrightarrow> b \<le> c \<Longrightarrow> a \<le> c"
  by (cases a; cases b; cases c) auto

fun fp_abs :: "fp \<Rightarrow> fp" where
  "fp_abs (Fin a) = Fin \<bar>a\<bar>"
| "fp_abs NaN = NaN"
| "fp_abs _ = PInf"

fun fp_neg :: "fp \<Rightarrow> fp" where
  "fp_neg (Fin a) = Fin (- a)"
| "fp_neg NaN = NaN"
| "fp_neg PInf = NInf"
| "fp_neg NInf = PInf"

text \<open>The value of an exact finite result in a format: rounded, infinite where it overflows.\<close>

definition fin_round :: "nat \<Rightarrow> int \<Rightarrow> rat \<Rightarrow> fp" where
  "fin_round p emax x =
     (let r = rnd p emax x
      in if 2 powi (emax + 1) \<le> r then PInf
         else if r \<le> - (2 powi (emax + 1)) then NInf else Fin r)"

fun fp_add :: "nat \<Rightarrow> int \<Rightarrow> fp \<Rightarrow> fp \<Rightarrow> fp" where
  "fp_add p emax (Fin a) (Fin b) = fin_round p emax (a + b)"
| "fp_add p emax NaN _ = NaN"
| "fp_add p emax _ NaN = NaN"
| "fp_add p emax PInf NInf = NaN"
| "fp_add p emax NInf PInf = NaN"
| "fp_add p emax PInf _ = PInf"
| "fp_add p emax NInf _ = NInf"
| "fp_add p emax _ b = b"

definition fp_sub :: "nat \<Rightarrow> int \<Rightarrow> fp \<Rightarrow> fp \<Rightarrow> fp" where
  "fp_sub p emax a b = fp_add p emax a (fp_neg b)"

fun fp_sgn :: "fp \<Rightarrow> rat" where
  "fp_sgn (Fin a) = sgn a"
| "fp_sgn PInf = 1"
| "fp_sgn NInf = - 1"
| "fp_sgn NaN = 0"

definition signed_inf :: "rat \<Rightarrow> fp" where
  "signed_inf s = (if s = 0 then NaN else if 0 < s then PInf else NInf)"

fun fp_mul :: "nat \<Rightarrow> int \<Rightarrow> fp \<Rightarrow> fp \<Rightarrow> fp" where
  "fp_mul p emax (Fin a) (Fin b) = fin_round p emax (a * b)"
| "fp_mul p emax a b = signed_inf (fp_sgn a * fp_sgn b)"

fun fp_div :: "nat \<Rightarrow> int \<Rightarrow> fp \<Rightarrow> fp \<Rightarrow> fp" where
  "fp_div p emax (Fin a) (Fin b) =
     (if b = 0 then signed_inf (sgn a) else fin_round p emax (a / b))"
| "fp_div p emax NaN _ = NaN"
| "fp_div p emax _ NaN = NaN"
| "fp_div p emax (Fin _) _ = Fin 0"
| "fp_div p emax a (Fin b) = signed_inf (fp_sgn a * (if b < 0 then - 1 else 1))"
| "fp_div p emax _ _ = NaN"

definition fp_of_int :: "nat \<Rightarrow> int \<Rightarrow> int \<Rightarrow> fp" where
  "fp_of_int p emax n = fin_round p emax (of_int n)"

fun fp_floor :: "fp \<Rightarrow> fp" where
  "fp_floor (Fin a) = Fin (of_int \<lfloor>a\<rfloor>)"
| "fp_floor x = x"

fun fp_ceil :: "fp \<Rightarrow> fp" where
  "fp_ceil (Fin a) = Fin (of_int \<lceil>a\<rceil>)"
| "fp_ceil x = x"

text \<open>
  The conversion of a floating-point value to an integer type with the values \<open>lo .. hi\<close>
  truncates towards zero; a result the type cannot hold is undefined behaviour.
\<close>

definition rat_trunc :: "rat \<Rightarrow> int" where
  "rat_trunc x = (if 0 \<le> x then \<lfloor>x\<rfloor> else \<lceil>x\<rceil>)"

fun fp_to_int :: "int \<Rightarrow> int \<Rightarrow> fp \<Rightarrow> int res" where
  "fp_to_int lo hi (Fin a) =
     (if lo \<le> rat_trunc a \<and> rat_trunc a \<le> hi then Inr (rat_trunc a) else Inl Undefined_Behaviour)"
| "fp_to_int lo hi _ = Inl Undefined_Behaviour"

abbreviation to_int32 :: "fp \<Rightarrow> int res" where
  "to_int32 \<equiv> fp_to_int (- (2 ^ 31)) (2 ^ 31 - 1)"

abbreviation to_uint32 :: "fp \<Rightarrow> int res" where
  "to_uint32 \<equiv> fp_to_int 0 (2 ^ 32 - 1)"

abbreviation to_uint64 :: "fp \<Rightarrow> int res" where
  "to_uint64 \<equiv> fp_to_int 0 (2 ^ 64 - 1)"

text \<open>\<open>std::min\<close> and \<open>std::max\<close> on floating-point values: they return the first argument when
  the comparison is false, in particular when an argument is not a number.\<close>

definition std_min :: "fp \<Rightarrow> fp \<Rightarrow> fp" where
  "std_min a b = (if b < a then b else a)"

definition std_max :: "fp \<Rightarrow> fp \<Rightarrow> fp" where
  "std_max a b = (if a < b then b else a)"

text \<open>The two formats of the program: \<open>d_\<close> for \<open>double\<close>, \<open>f_\<close> for \<open>float\<close>.\<close>

abbreviation "d_round \<equiv> fin_round 53 1023"
abbreviation "d_add \<equiv> fp_add 53 1023"
abbreviation "d_sub \<equiv> fp_sub 53 1023"
abbreviation "d_mul \<equiv> fp_mul 53 1023"
abbreviation "d_div \<equiv> fp_div 53 1023"
abbreviation "d_of_int \<equiv> fp_of_int 53 1023"

abbreviation "f_round \<equiv> fin_round 24 127"
abbreviation "f_mul \<equiv> fp_mul 24 127"
abbreviation "f_div \<equiv> fp_div 24 127"
abbreviation "f_of_int \<equiv> fp_of_int 24 127"

lemma fin_round_exact:
  assumes "1 \<le> p" and "representable p emax x" and "\<bar>x\<bar> < 2 powi (emax + 1)"
  shows "fin_round p emax x = Fin x"
proof -
  have "rnd p emax x = x"
    using ieee_format.rnd_exact [OF ieee_format.intro [OF assms(1)] assms(2)] .
  with assms(3) show ?thesis by (auto simp: fin_round_def)
qed

text \<open>
  Evaluation of conversions on concrete integers and dyadic fractions, without computing a
  logarithm: such numbers are representable, so rounding leaves them alone.
\<close>

lemma fin_round_dyadic:
  assumes "1 \<le> p" and "\<bar>m\<bar> < 2 ^ p" and "int k + 2 \<le> emax + int p" and "int p \<le> emax + 1"
  shows "fin_round p emax (of_int m / 2 ^ k) = Fin (of_int m / 2 ^ k)"
proof (rule fin_round_exact [OF assms(1)])
  have "(of_int m / 2 ^ k :: rat) = of_int m * 2 powi (- int k)"
    by (simp add: power_int_minus divide_inverse)
  with assms show "representable p emax (of_int m / 2 ^ k)"
    unfolding representable_def by (intro exI [of _ m] exI [of _ "- int k"]) simp
  have "\<bar>of_int m / 2 ^ k :: rat\<bar> \<le> of_int \<bar>m\<bar>"
    by (simp add: abs_divide divide_le_eq mult_le_cancel_left1)
  also have "\<dots> < 2 ^ p" using assms(2) by (metis of_int_less_iff of_int_numeral of_int_power)
  also have "\<dots> \<le> 2 powi (emax + 1)"
    using powi_mono2 [OF assms(4)] by simp
  finally show "\<bar>of_int m / 2 ^ k :: rat\<bar> < 2 powi (emax + 1)" .
qed

lemma d_round_int [simp]: "\<bar>n\<bar> < 2 ^ 53 \<Longrightarrow> d_round (of_int n) = Fin (of_int n)"
  using fin_round_dyadic [of 53 n 0 1023] by simp

lemma f_round_int [simp]: "\<bar>n\<bar> < 2 ^ 24 \<Longrightarrow> f_round (of_int n) = Fin (of_int n)"
  using fin_round_dyadic [of 24 n 0 127] by simp

lemma round_const [simp]:
  "d_round 0 = Fin 0" "d_round 1 = Fin 1" "f_round 0 = Fin 0" "f_round 1 = Fin 1"
  using d_round_int [of 0] d_round_int [of 1] f_round_int [of 0] f_round_int [of 1] by simp_all

lemma round_numeral [simp]:
  "(numeral w :: int) < 2 ^ 53 \<Longrightarrow> d_round (numeral w) = Fin (numeral w)"
  "(numeral w :: int) < 2 ^ 24 \<Longrightarrow> f_round (numeral w) = Fin (numeral w)"
  "(numeral w :: int) < 2 ^ 53 \<Longrightarrow> d_round (- numeral w) = Fin (- numeral w)"
  using d_round_int [of "numeral w"] f_round_int [of "numeral w"] d_round_int [of "- numeral w"]
  by (simp_all only: of_int_numeral of_int_minus abs_numeral abs_minus)

lemma of_int_const [simp]:
  "d_of_int 0 = Fin 0" "d_of_int 1 = Fin 1" "f_of_int 0 = Fin 0" "f_of_int 1 = Fin 1"
  "(numeral w :: int) < 2 ^ 53 \<Longrightarrow> d_of_int (numeral w) = Fin (numeral w)"
  "(numeral w :: int) < 2 ^ 24 \<Longrightarrow> f_of_int (numeral w) = Fin (numeral w)"
  "(numeral w :: int) < 2 ^ 53 \<Longrightarrow> d_of_int (- numeral w) = Fin (- numeral w)"
  by (simp_all add: fp_of_int_def)

text \<open>A rounded result stays between two integers that the format represents.\<close>

lemma d_round_between:
  assumes "of_int a \<le> x" and "x \<le> of_int b" and "\<bar>a\<bar> < 2 ^ 53" and "\<bar>b\<bar> < 2 ^ 53"
  shows "\<exists>y. d_round x = Fin y \<and> of_int a \<le> y \<and> y \<le> of_int b"
proof -
  have "of_int a \<le> rnd 53 1023 x" and "rnd 53 1023 x \<le> of_int b"
    using binary64.rnd_ge_representable [OF representable_int assms(1)]
      binary64.rnd_le_representable [OF representable_int assms(2)] assms(3,4) by simp_all
  moreover have "\<bar>of_int n :: rat\<bar> < 2 powi (1023 + 1)" if "\<bar>n\<bar> < 2 ^ 53" for n :: int
  proof -
    have "\<bar>of_int n :: rat\<bar> < 2 ^ 53"
      using that by (metis of_int_abs of_int_less_iff of_int_numeral of_int_power)
    also have "\<dots> \<le> 2 powi (1023 + 1)" using powi_mono2 [of "int 53" "1023 + 1"] by simp
    finally show ?thesis .
  qed
  from this [OF assms(3)] this [OF assms(4)]
  have "- (2 powi (1023 + 1)) < (of_int a :: rat)" and "(of_int b :: rat) < 2 powi (1023 + 1)"
    by linarith+
  ultimately show ?thesis
    unfolding fin_round_def Let_def by (intro exI [of _ "rnd 53 1023 x"]) auto
qed

section \<open>Exactness and error of rounding\<close>

lemma rne_error: "\<bar>of_int (rne x) - x\<bar> \<le> 1 / 2"
proof -
  have "of_int \<lfloor>x\<rfloor> \<le> x" and "x < of_int \<lfloor>x\<rfloor> + 1" by linarith+
  then show ?thesis by (auto simp: rne_def Let_def abs_le_iff)
qed

lemma rne_below: "x < of_int K - 1 / 2 \<Longrightarrow> rne x \<le> K - 1"
proof -
  assume x: "x < of_int K - 1 / 2"
  have "of_int (rne x) \<le> x + 1 / 2" using rne_error [of x] by linarith
  with x have "of_int (rne x) < (of_int K :: rat)" by linarith
  then show ?thesis by simp
qed

lemma rnd_error:
  assumes "x \<noteq> 0"
  shows "\<bar>rnd p emax x - x\<bar> \<le> 2 powi ulp_exp p emax x / 2"
proof -
  let ?u = "2 powi ulp_exp p emax x :: rat"
  have "rnd p emax x - x = (of_int (rne (x / ?u)) - x / ?u) * ?u"
    using assms powi_pos2 [of "ulp_exp p emax x"] by (simp add: rnd_def field_simps)
  then have "\<bar>rnd p emax x - x\<bar> = \<bar>of_int (rne (x / ?u)) - x / ?u\<bar> * ?u"
    by (simp add: abs_mult)
  also have "\<dots> \<le> 1 / 2 * ?u" using rne_error by (intro mult_right_mono) simp_all
  finally show ?thesis by simp
qed

lemma rnd_representable:
  assumes "1 \<le> p"
  shows "representable p emax (rnd p emax x)"
proof (cases "x = 0")
  case True
  then show ?thesis unfolding representable_def
    by (intro exI [of _ 0] exI [of _ "2 - emax - int p"]) simp
next
  case False
  define e where "e = ulp_exp p emax x"
  define n where "n = rne (x / 2 powi e)"
  have r: "rnd p emax x = of_int n * 2 powi e" using False by (simp add: rnd_def n_def e_def)
  have e: "2 - emax - int p \<le> e" "ilog2 \<bar>x\<bar> - (int p - 1) \<le> e" by (simp_all add: e_def ulp_exp_def)
  have "\<bar>x\<bar> < 2 powi (ilog2 \<bar>x\<bar> + 1)" using False ilog2_bounds(2) [of "\<bar>x\<bar>"] by simp
  also have "\<dots> \<le> 2 powi (int p + e)" using e(2) by (intro powi_mono2) simp
  finally have "\<bar>x\<bar> < 2 ^ p * 2 powi e" by (simp add: powi_add2)
  then have "\<bar>x / 2 powi e\<bar> < 2 ^ p" by (simp add: abs_divide divide_less_eq)
  then have "x / 2 powi e < 2 ^ p" and "- (2 ^ p) < x / 2 powi e" by (simp_all only: abs_less_iff) linarith
  then have b: "x / 2 powi e < of_int (2 ^ p)" "of_int (- (2 ^ p)) < x / 2 powi e" by simp_all
  have "n \<le> 2 ^ p" using rne_mono [OF less_imp_le [OF b(1)]] by (simp only: n_def rne_of_int)
  moreover have "- (2 ^ p) \<le> n" using rne_mono [OF less_imp_le [OF b(2)]] by (simp only: n_def rne_of_int)
  ultimately consider "\<bar>n\<bar> < 2 ^ p" | "n = 2 ^ p" | "n = - (2 ^ p)" by linarith
  then show ?thesis
  proof cases
    case 1
    with r e(1) show ?thesis unfolding representable_def by blast
  next
    case 2
    have "rnd p emax x = of_int (2 ^ (p - 1)) * 2 powi (e + 1)"
      unfolding r 2 using assms by (cases p) (simp_all add: powi_add2)
    with e(1) assms show ?thesis unfolding representable_def
      by (intro exI [of _ "2 ^ (p - 1)"] exI [of _ "e + 1"]) simp
  next
    case 3
    have "rnd p emax x = of_int (- (2 ^ (p - 1))) * 2 powi (e + 1)"
      unfolding r 3 using assms by (cases p) (simp_all add: powi_add2)
    with e(1) assms show ?thesis unfolding representable_def
      by (intro exI [of _ "- (2 ^ (p - 1))"] exI [of _ "e + 1"]) simp
  qed
qed

text \<open>Rounding what has been rounded changes nothing.\<close>

lemma fin_round_idem:
  assumes "1 \<le> p" and "fin_round p emax x = Fin y"
  shows "fin_round p emax y = Fin y"
proof (rule fin_round_exact [OF assms(1)])
  have y: "y = rnd p emax x" "\<bar>y\<bar> < 2 powi (emax + 1)"
    using assms(2) by (auto simp: fin_round_def Let_def abs_less_iff split: if_splits)
  show "representable p emax y" unfolding y(1) by (rule rnd_representable [OF assms(1)])
  show "\<bar>y\<bar> < 2 powi (emax + 1)" by (rule y(2))
qed

text \<open>The fractional part of a number of the format is a number of the format.\<close>

lemma representable_frac:
  assumes "representable p emax a" and "0 \<le> a"
  shows "representable p emax (a - of_int \<lfloor>a\<rfloor>)"
proof -
  from assms(1) obtain m k where a: "a = of_int m * 2 powi k" and m: "\<bar>m\<bar> < 2 ^ p"
    and k: "2 - emax - int p \<le> k" unfolding representable_def by blast
  show ?thesis
  proof (cases "0 \<le> k")
    case True
    then have "a = of_int (m * 2 ^ nat k)" by (simp add: a powi_as_int)
    then have "a - of_int \<lfloor>a\<rfloor> = 0" by simp
    with k show ?thesis unfolding representable_def by (intro exI [of _ 0] exI [of _ k]) simp
  next
    case False
    define q where "q = (2::int) ^ nat (- k)"
    have q: "0 < q" "(2::rat) powi k = 1 / of_int q"
      using False by (simp_all add: q_def power_int_def inverse_eq_divide power_divide)
    have m0: "0 \<le> m" using assms(2) q by (simp add: a zero_le_divide_iff)
    have fl: "\<lfloor>a\<rfloor> = m div q" using q by (simp add: a floor_divide_of_int_eq)
    have "(of_int (m div q) :: rat) = of_int (m div q) * of_int q * 2 powi k" using q by simp
    then have "a - of_int \<lfloor>a\<rfloor> = (of_int m - of_int (m div q) * of_int q) * 2 powi k"
      unfolding fl by (simp add: a left_diff_distrib)
    also have "\<dots> = of_int (m mod q) * 2 powi k"
      by (simp add: minus_div_mult_eq_mod flip: of_int_mult of_int_diff)
    finally have f: "a - of_int \<lfloor>a\<rfloor> = of_int (m mod q) * 2 powi k" .
    have "\<bar>m mod q\<bar> < 2 ^ p" using m m0 q(1) zmod_le_nonneg_dividend [of m q] by simp
    with f k show ?thesis unfolding representable_def by blast
  qed
qed

lemma representable_below_one:
  assumes "representable 53 1023 f" and "f < 1"
  shows "f \<le> 1 - 1 / 2 ^ 53"
proof -
  from assms(1) obtain m k where f: "f = of_int m * 2 powi k" and m: "\<bar>m\<bar> < 2 ^ 53"
    unfolding representable_def by blast
  show ?thesis
  proof (cases "- 53 \<le> k")
    case True
    have "f = of_int (m * 2 ^ nat (k + 53)) * 2 powi (- 53)"
      using powi_scale [OF True] by (simp add: f)
    moreover have "(2::rat) powi (- 53) * 2 ^ 53 = 1" by (simp add: power_int_minus)
    ultimately have f': "f * 2 ^ 53 = of_int (m * 2 ^ nat (k + 53))" by (simp only: mult.assoc mult_1_right)
    moreover have "f * 2 ^ 53 < 2 ^ 53" using assms(2) by simp
    ultimately have "of_int (m * 2 ^ nat (k + 53)) < (of_int (2 ^ 53) :: rat)" by simp
    then have "m * 2 ^ nat (k + 53) \<le> 2 ^ 53 - 1" by (simp only: of_int_less_iff)
    then have "(of_int (m * 2 ^ nat (k + 53)) :: rat) \<le> of_int (2 ^ 53 - 1)" by (simp only: of_int_le_iff)
    then have "f * 2 ^ 53 \<le> 2 ^ 53 - 1" unfolding f' by simp
    then show ?thesis by (simp add: field_simps)
  next
    case False
    have "f \<le> of_int \<bar>m\<bar> * 2 powi k" unfolding f by (intro mult_right_mono) simp_all
    also have "\<dots> \<le> 2 ^ 53 * 2 powi (- 54)"
    proof (intro mult_mono)
      show "of_int \<bar>m\<bar> \<le> (2 ^ 53 :: rat)"
        using m by (metis less_imp_le of_int_le_iff of_int_numeral of_int_power)
      show "2 powi k \<le> (2 powi (- 54) :: rat)" using False by (intro powi_mono2) simp
    qed simp_all
    also have "\<dots> = 2 powi (int 53 + - 54)" by (simp only: powi_add2 powi_of_nat2)
    also have "\<dots> = 1 / 2" by (simp add: power_int_minus)
    also have "\<dots> \<le> 1 - 1 / 2 ^ 53" by simp
    finally show ?thesis .
  qed
qed

text \<open>Scaling a fraction by an integer never rounds up to that integer.\<close>

lemma scaled_fraction_below:
  assumes "representable 53 1023 f" and "0 \<le> f" and "f < 1" and N: "1 \<le> N" "N < 2 ^ 20"
  shows "rnd 53 1023 (f * of_int N) < of_int N"
proof -
  define x :: rat where "x = (1 - 1 / 2 ^ 53) * of_int N"
  have xN: "x = of_int N - of_int N / 2 ^ 53" by (simp add: x_def algebra_simps)
  have N1: "(1::rat) \<le> of_int N" using N(1) by simp
  have N2: "of_int N < (2::rat) ^ 20" using N(2) by (metis of_int_less_iff of_int_numeral of_int_power)
  have x0: "1 / 2 \<le> x" "0 < x" "x < of_int N" using N1 by (simp_all add: xN field_simps)
  define e where "e = ilog2 x"
  have e: "2 powi e \<le> x" "x < 2 powi (e + 1)" using ilog2_bounds [OF x0(2)] by (simp_all add: e_def)
  have "(2::rat) powi (- 1) = 1 / 2" by (simp add: power_int_minus)
  then have "(2::rat) powi (- 1) < 2 powi (e + 1)" using e(2) x0(1) by linarith
  then have e1: "- 2 < e" using powi_less_cancel2 by fastforce
  have "(2::rat) powi 20 = 2 ^ 20" by simp
  then have "(2::rat) powi e < 2 powi 20" using e(1) x0(3) N2 by linarith
  then have e2: "e < 20" by (rule powi_less_cancel2)
  have ulp: "ulp_exp 53 1023 x = e - 52" using x0(2) e1 by (simp add: ulp_exp_def e_def)
  let ?u = "2 powi (e - 52) :: rat"
  define K where "K = N * 2 ^ nat (52 - e)"
  have K: "of_int N / ?u = of_int K"
  proof -
    have "of_int N / ?u = of_int N * 2 powi (52 - e)" by (simp add: power_int_diff)
    also have "2 powi (52 - e) = (of_int (2 ^ nat (52 - e)) :: rat)" using e2 by (intro powi_as_int) simp
    finally show ?thesis by (simp add: K_def)
  qed
  have "2 powi e < (of_int N :: rat)" using e(1) x0(3) by simp
  then have "?u / 2 < of_int N / 2 ^ 53" by (simp add: power_int_diff field_simps)
  then have "x < of_int N - ?u / 2" by (simp add: xN)
  then have "x / ?u < (of_int N - ?u / 2) / ?u" by (intro divide_strict_right_mono) simp_all
  also have "\<dots> = of_int K - 1 / 2" unfolding diff_divide_distrib K by simp
  finally have "rne (x / ?u) \<le> K - 1" by (rule rne_below)
  then have "of_int (rne (x / ?u)) < (of_int K :: rat)" by simp
  then have "rnd 53 1023 x < of_int K * ?u"
    using x0(2) by (simp add: rnd_def ulp mult_strict_right_mono)
  also have "\<dots> = of_int N" unfolding K [symmetric] by simp
  finally have "rnd 53 1023 x < of_int N" .
  moreover have "f * of_int N \<le> x"
    using representable_below_one [OF assms(1,3)] N1 unfolding x_def by (intro mult_right_mono) simp_all
  then have "rnd 53 1023 (f * of_int N) \<le> rnd 53 1023 x" by (rule binary64.rnd_mono)
  ultimately show ?thesis by linarith
qed

section \<open>Monotonicity of rounded arithmetic\<close>

lemma d_round_mono:
  assumes "x \<le> y" shows "d_round x \<le> d_round y"
proof -
  have "rnd 53 1023 x \<le> rnd 53 1023 y" using assms by (rule binary64.rnd_mono)
  then show ?thesis by (auto simp: fin_round_def Let_def)
qed

lemma fp_le_inf [simp]: "NInf \<le> x \<longleftrightarrow> x \<noteq> NaN" "x \<le> PInf \<longleftrightarrow> x \<noteq> NaN"
  by (cases x; simp)+

lemma d_round_is_number [simp]: "d_round x \<noteq> NaN"
  by (auto simp: fin_round_def Let_def)

lemma d_add_mono: "a \<le> b \<Longrightarrow> d_add a (Fin c) \<le> d_add b (Fin c)"
  by (cases a; cases b) (auto simp: d_round_mono)

lemma d_sub_mono: "a \<le> b \<Longrightarrow> d_sub a (Fin c) \<le> d_sub b (Fin c)"
  by (simp add: fp_sub_def d_add_mono)

lemma d_mul_mono: "a \<le> b \<Longrightarrow> 0 < c \<Longrightarrow> d_mul a (Fin c) \<le> d_mul b (Fin c)"
  by (cases a; cases b) (auto simp: signed_inf_def intro!: d_round_mono)

lemma d_div_mono: "a \<le> b \<Longrightarrow> 0 < c \<Longrightarrow> d_div a (Fin c) \<le> d_div b (Fin c)"
  by (cases a; cases b) (auto simp: signed_inf_def intro!: d_round_mono divide_right_mono)

lemma std_min_mono: "a \<le> b \<Longrightarrow> std_min (Fin c) a \<le> std_min (Fin c) b"
  by (cases a; cases b) (auto simp: std_min_def)

lemma std_max_mono: "a \<le> b \<Longrightarrow> std_max (Fin c) a \<le> std_max (Fin c) b"
  by (cases a; cases b) (auto simp: std_max_def)

lemma fp_antisym: "(a::fp) \<le> b \<Longrightarrow> b \<le> a \<Longrightarrow> a = b"
  by (cases a; cases b) auto

end
