(* ===== verification/Audio.thy ===== *)
theory Audio
  imports Ieee
begin

text \<open>
  The data that the threads of \<open>netsim_core\<close> exchange (\<open>src/lib/core/common.h\<close>), their
  configuration messages (\<open>src/lib/messages/core_config.proto\<close>) and the publish/subscribe
  groups (\<open>src/lib/messages/groups.h\<close>).

  A \<open>std::shared_ptr\<close> to a constant buffer is the buffer itself, wrapped in an option where the
  code may hold a null pointer. \<open>jack_nframes_t\<close> is \<open>32 word\<close>. The packet id is the \<open>int\<close> of the
  code at its width, \<open>32 word\<close>, because the detector increments it as an atomic counter, which wraps.
\<close>

section \<open>Audio buffers\<close>

record audio_buffer =
  buffer_start_time :: fp
  jack_frame_time :: "32 word"
  samples :: "fp list"

datatype marker = NONE | START | END | MIDDLE

record tagged_audio_buffer =
  tbuffer :: "audio_buffer option"
  tmarker :: marker
  packet_id :: "32 word"

text \<open>\<open>AudioBuffer(size_t size)\<close>: that many zero samples.\<close>

definition audio_buffer_of_size :: "nat \<Rightarrow> audio_buffer" where
  "audio_buffer_of_size n =
     \<lparr>buffer_start_time = Fin 0, jack_frame_time = 0, samples = replicate n (Fin 0)\<rparr>"

definition tagged_default :: tagged_audio_buffer where
  "tagged_default = \<lparr>tbuffer = None, tmarker = NONE, packet_id = -1\<rparr>"

section \<open>Configuration\<close>

record jack_config =
  capture_port_prefix :: string
  playback_port_prefix :: string
  port_name_starting_index :: int
  max_buffer_size :: int
  min_playback_buffer_size :: int
  calibration_seconds :: fp

record detector_config =
  detection_threshold :: fp
  packet_end_silent_seconds :: fp
  packet_begin_prebuffer_seconds :: fp

record logger_config =
  run_logger :: bool
  log_directory :: string

record bridge_config =
  bridge_first_modem_index :: int
  bridge_local_number_of_modems :: int

record core_config =
  number_of_modems :: int
  sampling_freq :: int
  jack_cfg :: jack_config
  detector_cfg :: detector_config
  logger_cfg :: logger_config
  bridge_cfg :: "bridge_config option"
  continuous :: bool

text \<open>The configuration with the default of every optional field.\<close>

definition default_core_config :: "int \<Rightarrow> core_config" where
  "default_core_config n =
     \<lparr>number_of_modems = n, sampling_freq = 96000,
      jack_cfg =
        \<lparr>capture_port_prefix = ''system:capture_'', playback_port_prefix = ''system:playback_'',
         port_name_starting_index = 1, max_buffer_size = 100, min_playback_buffer_size = 10,
         calibration_seconds = Fin 0\<rparr>,
      detector_cfg =
        \<lparr>detection_threshold = f_round (1 / 10), packet_end_silent_seconds = f_round (2 / 10),
         packet_begin_prebuffer_seconds = f_round (2 / 10)\<rparr>,
      logger_cfg = \<lparr>run_logger = True, log_directory = ''.''\<rparr>,
      bridge_cfg = None, continuous = False\<rparr>"

text \<open>Which modems this instance of \<open>netsim_core\<close> owns: all of them unless it is bridged.\<close>

definition first_modem_index :: "core_config \<Rightarrow> int" where
  "first_modem_index cfg =
     (case bridge_cfg cfg of None \<Rightarrow> 0 | Some b \<Rightarrow> bridge_first_modem_index b)"

definition local_number_of_modems :: "core_config \<Rightarrow> int" where
  "local_number_of_modems cfg =
     (case bridge_cfg cfg of None \<Rightarrow> number_of_modems cfg
      | Some b \<Rightarrow> bridge_local_number_of_modems b)"

definition is_local :: "core_config \<Rightarrow> int \<Rightarrow> bool" where
  "is_local cfg i \<longleftrightarrow>
     first_modem_index cfg \<le> i \<and> i < first_modem_index cfg + local_number_of_modems cfg"

text \<open>An \<open>int\<close> compared with a \<open>size_t\<close> is converted to the unsigned type first.\<close>

definition as_size_t :: "int \<Rightarrow> nat" where
  "as_size_t n = nat (n mod 2 ^ 64)"

lemma as_size_t_nonneg: "0 \<le> n \<Longrightarrow> n < 2 ^ 64 \<Longrightarrow> as_size_t n = nat n"
  by (simp add: as_size_t_def)

section \<open>Publish/subscribe groups\<close>

definition NETSIM_MAX_MODEMS :: int where
  "NETSIM_MAX_MODEMS = 16"

datatype group =
    Impulse_Request | Buffer_Size_Change | Logger_Event
  | AudioIn int | AudioOut int int | DetectorAudio int | BridgeAudio int
  | Post_Process_Event
  | Env_Nav_Update | Env_Impulse_Req | Env_Bellhop_Req | Env_Performance_Req
  | Configuration | Receive_Stats | Gps_Line_Out | Gps_Line_In
  | Config_Request | Bellhop_Request | Performance_Request
  | Impulse_Response | Bellhop_Response | Performance_Response
  | Tool_Receive_Data | Tool_Ready | Tool_Transmit | Tool_Rx_Stats | Tool_Raw_In | Tool_Raw_Out

text \<open>The name of a group and, for the families of groups, its number.\<close>

fun group_key :: "group \<Rightarrow> string \<times> int option" where
  "group_key Impulse_Request = (''impulse_request'', None)"
| "group_key Buffer_Size_Change = (''buffer_size_change'', None)"
| "group_key Logger_Event = (''logger_event'', None)"
| "group_key (AudioIn i) = (''ain'', Some i)"
| "group_key (AudioOut i j) = (''aout'', Some (i * NETSIM_MAX_MODEMS + j))"
| "group_key (DetectorAudio i) = (''detector_audio_from'', Some i)"
| "group_key (BridgeAudio i) = (''bridge_audio_from'', Some i)"
| "group_key Post_Process_Event = (''post_process_event'', None)"
| "group_key Env_Nav_Update = (''environment_nav_update'', None)"
| "group_key Env_Impulse_Req = (''environment_impulse_request'', None)"
| "group_key Env_Bellhop_Req = (''environment_bellhop_request'', None)"
| "group_key Env_Performance_Req = (''environment_performance_request'', None)"
| "group_key Configuration = (''configuration'', None)"
| "group_key Receive_Stats = (''receive_stats'', None)"
| "group_key Gps_Line_Out = (''gps_line_out'', None)"
| "group_key Gps_Line_In = (''gps_line_in'', None)"
| "group_key Config_Request = (''config_request'', None)"
| "group_key Bellhop_Request = (''bellhop_request'', None)"
| "group_key Performance_Request = (''performance_request'', None)"
| "group_key Impulse_Response = (''impulse_response'', None)"
| "group_key Bellhop_Response = (''bellhop_response'', None)"
| "group_key Performance_Response = (''performance_response'', None)"
| "group_key Tool_Receive_Data = (''tool::receive_data'', None)"
| "group_key Tool_Ready = (''tool::ready'', None)"
| "group_key Tool_Transmit = (''tool::transmit'', None)"
| "group_key Tool_Rx_Stats = (''tool::rx_stats'', None)"
| "group_key Tool_Raw_In = (''tool::raw_in'', None)"
| "group_key Tool_Raw_Out = (''tool::raw_out'', None)"

text \<open>
  The instances of the group templates that compile: the \<open>static_assert\<close>s bound every index
  from above; the code instantiates them from a repetition macro that starts at zero.
\<close>

fun valid_group :: "group \<Rightarrow> bool" where
  "valid_group (AudioIn i) = (0 \<le> i \<and> i < NETSIM_MAX_MODEMS)"
| "valid_group (AudioOut i j) =
     (0 \<le> i \<and> 0 \<le> j \<and> i < NETSIM_MAX_MODEMS \<and> j < NETSIM_MAX_MODEMS)"
| "valid_group (DetectorAudio i) = (0 \<le> i \<and> i < NETSIM_MAX_MODEMS)"
| "valid_group (BridgeAudio i) = (0 \<le> i \<and> i < NETSIM_MAX_MODEMS)"
| "valid_group _ = True"

lemma mult_add_digits_unique:
  fixes i j k l m :: int
  assumes "i * m + j = k * m + l" and "0 \<le> j" "j < m" "0 \<le> l" "l < m"
  shows "i = k \<and> j = l"
proof -
  from assms have "m \<noteq> 0" and "j div m = 0" and "l div m = 0"
    by (auto simp: div_pos_pos_trivial)
  then have "(i * m + j) div m = i" and "(k * m + l) div m = k" by simp_all
  with assms(1) have "i = k" by simp
  with assms(1) show ?thesis by simp
qed

end
