(* ===== verification/Circular_Buffer.thy ===== *)
theory Circular_Buffer
  imports Prelude
begin

text \<open>
  The interface of \<open>boost::circular_buffer\<close> as far as the detector uses it. The container is not
  part of the repository, so its operations are a record that the detector's definitions take as
  an argument, and its documented behaviour is the locale \<open>circular_buffer\<close>: \<open>contents\<close> is the
  sequence of elements from front to back and \<open>capacity\<close> the number of elements the buffer holds
  before \<open>push_back\<close> overwrites the front.

  \<open>resize\<close> grows the buffer with copies of a value at the \<^emph>\<open>back\<close>, raises the capacity if needed
  and never lowers it, and shrinks by dropping elements from the back.
\<close>

record ('a, 'q) cbuf =
  cb_new :: "nat \<Rightarrow> 'q"
  cb_push_back :: "'a \<Rightarrow> 'q \<Rightarrow> 'q"
  cb_front :: "'q \<Rightarrow> 'a"
  cb_pop_front :: "'q \<Rightarrow> 'q"
  cb_empty :: "'q \<Rightarrow> bool"
  cb_resize :: "nat \<Rightarrow> 'a \<Rightarrow> 'q \<Rightarrow> 'q"

text \<open>The content of a buffer with the given capacity after \<open>push_back\<close> and \<open>resize\<close>.\<close>

definition pushed :: "nat \<Rightarrow> 'a \<Rightarrow> 'a list \<Rightarrow> 'a list" where
  "pushed c x xs = (if c = 0 then xs else if length xs < c then xs @ [x] else tl xs @ [x])"

definition resized :: "nat \<Rightarrow> 'a \<Rightarrow> 'a list \<Rightarrow> 'a list" where
  "resized n x xs = (if length xs < n then xs @ replicate (n - length xs) x else take n xs)"

locale circular_buffer =
  fixes ops :: "('a, 'q) cbuf"
    and contents :: "'q \<Rightarrow> 'a list"
    and capacity :: "'q \<Rightarrow> nat"
  assumes contents_new [simp]: "contents (cb_new ops n) = []"
    and capacity_new [simp]: "capacity (cb_new ops n) = n"
    and contents_push_back [simp]:
      "contents (cb_push_back ops x q) = pushed (capacity q) x (contents q)"
    and capacity_push_back [simp]: "capacity (cb_push_back ops x q) = capacity q"
    and contents_pop_front [simp]:
      "contents q \<noteq> [] \<Longrightarrow> contents (cb_pop_front ops q) = tl (contents q)"
    and capacity_pop_front [simp]: "contents q \<noteq> [] \<Longrightarrow> capacity (cb_pop_front ops q) = capacity q"
    and front_contents [simp]: "contents q \<noteq> [] \<Longrightarrow> cb_front ops q = hd (contents q)"
    and empty_contents [simp]: "cb_empty ops q \<longleftrightarrow> contents q = []"
    and contents_resize [simp]: "contents (cb_resize ops n x q) = resized n x (contents q)"
    and capacity_resize [simp]: "capacity (cb_resize ops n x q) = max (capacity q) n"

lemma pushed_not_Nil: "0 < c \<Longrightarrow> pushed c x xs \<noteq> []"
  by (simp add: pushed_def)

lemma length_pushed: "length xs \<le> c \<Longrightarrow> length (pushed c x xs) \<le> c"
  by (auto simp: pushed_def)

lemma length_resized: "length (resized n x xs) = n"
  by (simp add: resized_def)

lemma set_pushed: "set (pushed c x xs) \<subseteq> insert x (set xs)"
  by (auto simp: pushed_def dest: list.set_sel(2) [rotated])

lemma pushed_suffix: "\<exists>zs. xs @ [x] = zs @ pushed c x xs" if "0 < c"
proof (cases "length xs < c")
  case True
  with that show ?thesis by (simp add: pushed_def)
next
  case False
  with that have "xs \<noteq> []" by auto
  with False that show ?thesis
    by (intro exI [of _ "[hd xs]"]) (simp add: pushed_def)
qed

text \<open>
  The same behaviour as a program: a capacity and the list of elements. It shows that the laws
  can hold, and it is the buffer on which the closed theorems about the detector evaluate.
\<close>

definition list_cbuf :: "('a, nat \<times> 'a list) cbuf" where
  "list_cbuf =
     \<lparr>cb_new = (\<lambda>n. (n, [])),
      cb_push_back = (\<lambda>x (c, xs). (c, pushed c x xs)),
      cb_front = (\<lambda>(c, xs). hd xs),
      cb_pop_front = (\<lambda>(c, xs). (c, tl xs)),
      cb_empty = (\<lambda>(c, xs). xs = []),
      cb_resize = (\<lambda>n x (c, xs). (max c n, resized n x xs))\<rparr>"

interpretation list_cbuf: circular_buffer list_cbuf snd fst
  by unfold_locales (auto simp: list_cbuf_def split: prod.splits)

end
