(* ===== verification/Packet_Stream.thy ===== *)
theory Packet_Stream
  imports Audio Circular_Buffer
begin

text \<open>
  What the packet detector promises to the threads that consume \<open>DetectorAudio\<close>: an abstract
  specification of one detector, and what follows for the stream of tagged buffers it publishes.

  \<open>packet_step\<close> is the specification: either the detector is idle and keeps the most recent
  buffers, or it is inside a packet. Which buffer starts or ends a packet is left open. The
  lemmas about \<open>spec_run\<close> hold for every choice: the markers form packets (\<open>accepts\<close>), the
  buffers are published at most once and in order, and a packet has no gap.
\<close>

definition tagged :: "audio_buffer option \<Rightarrow> marker \<Rightarrow> 32 word \<Rightarrow> tagged_audio_buffer" where
  "tagged b m i = \<lparr>tbuffer = b, tmarker = m, packet_id = i\<rparr>"

lemma tagged_sel [simp]:
  "tbuffer (tagged b m i) = b" "tmarker (tagged b m i) = m" "packet_id (tagged b m i) = i"
  by (simp_all add: tagged_def)

text \<open>The messages that open a packet: the first buffer is marked START, the others not at all.\<close>

fun opening_msgs :: "32 word \<Rightarrow> audio_buffer option list \<Rightarrow> tagged_audio_buffer list" where
  "opening_msgs i [] = []"
| "opening_msgs i (b # bs) = tagged b START i # map (\<lambda>b. tagged b NONE i) bs"

lemma map_tbuffer_opening_msgs [simp]: "map tbuffer (opening_msgs i bs) = bs"
  by (cases bs) (simp_all add: comp_def)

datatype phase = Idle "audio_buffer list" | Active "32 word"

type_synonym packet_spec = "phase \<times> 32 word"

inductive packet_step ::
    "nat \<Rightarrow> audio_buffer \<Rightarrow> packet_spec \<Rightarrow> packet_spec \<Rightarrow> tagged_audio_buffer list \<Rightarrow> bool"
  for c :: nat and b :: audio_buffer where
  quiet: "packet_step c b (Idle recent, n) (Idle (pushed c b recent), n) []"
| start: "packet_step c b (Idle recent, n) (Active n, n + 1)
            (opening_msgs n (map Some (pushed c b recent)))"
| middle: "packet_step c b (Active i, n) (Active i, n) [tagged (Some b) MIDDLE i]"
| finish: "packet_step c b (Active i, n) (Idle [], n) [tagged (Some b) END i]"

inductive spec_run ::
    "nat \<Rightarrow> audio_buffer list \<Rightarrow> packet_spec \<Rightarrow> packet_spec \<Rightarrow> tagged_audio_buffer list \<Rightarrow> bool"
  for c :: nat where
  nil: "spec_run c [] a a []"
| cons: "packet_step c b a a1 out1 \<Longrightarrow> spec_run c bs a1 a2 out2
           \<Longrightarrow> spec_run c (b # bs) a a2 (out1 @ out2)"

inductive_cases packet_stepE: "packet_step c b a a' out"
inductive_cases packet_step_IdleE: "packet_step c b (Idle recent, n) a' out"
inductive_cases packet_step_ActiveE: "packet_step c b (Active i, n) a' out"
inductive_simps spec_run_Nil [simp]: "spec_run c [] a a' out"
inductive_simps spec_run_Cons: "spec_run c (b # bs) a a' out"

fun recent_of :: "packet_spec \<Rightarrow> audio_buffer list" where
  "recent_of (Idle recent, _) = recent"
| "recent_of (Active _, _) = []"

section \<open>The grammar of the stream\<close>

text \<open>
  Between packets (\<open>Closed\<close>, with the id the next packet will have), in the part of a packet that
  comes from the prebuffer (\<open>Opening\<close>) and after it (\<open>Open\<close>).
\<close>

datatype gstate = Closed "32 word" | Opening "32 word" | Open "32 word"

fun stream_step :: "gstate \<Rightarrow> tagged_audio_buffer \<Rightarrow> gstate option" where
  "stream_step (Closed n) t =
     (if tmarker t = START \<and> packet_id t = n \<and> tbuffer t \<noteq> None then Some (Opening n) else None)"
| "stream_step (Opening i) t =
     (if packet_id t = i \<and> tbuffer t \<noteq> None then
        (case tmarker t of NONE \<Rightarrow> Some (Opening i) | MIDDLE \<Rightarrow> Some (Open i)
         | END \<Rightarrow> Some (Closed (i + 1)) | START \<Rightarrow> None)
      else None)"
| "stream_step (Open i) t =
     (if packet_id t = i \<and> tbuffer t \<noteq> None then
        (case tmarker t of MIDDLE \<Rightarrow> Some (Open i) | END \<Rightarrow> Some (Closed (i + 1)) | _ \<Rightarrow> None)
      else None)"

fun accepts :: "gstate \<Rightarrow> tagged_audio_buffer list \<Rightarrow> gstate option" where
  "accepts g [] = Some g"
| "accepts g (t # ts) = (case stream_step g t of None \<Rightarrow> None | Some g' \<Rightarrow> accepts g' ts)"

lemma accepts_append:
  "accepts g (xs @ ys) = (case accepts g xs of None \<Rightarrow> None | Some g' \<Rightarrow> accepts g' ys)"
  by (induction xs arbitrary: g) (auto split: option.splits)

text \<open>The grammar state agrees with the specification state.\<close>

fun agrees :: "gstate \<Rightarrow> packet_spec \<Rightarrow> bool" where
  "agrees (Closed m) (Idle _, n) = (m = n)"
| "agrees (Opening j) (Active i, n) = (j = i \<and> n = i + 1)"
| "agrees (Open j) (Active i, n) = (j = i \<and> n = i + 1)"
| "agrees _ _ = False"

lemma accepts_prebuffer:
  "accepts (Opening i) (map (\<lambda>b. tagged b NONE i) (map Some bs)) = Some (Opening i)"
  by (induction bs) auto

lemma accepts_opening_msgs:
  "bs \<noteq> [] \<Longrightarrow> accepts (Closed i) (opening_msgs i (map Some bs)) = Some (Opening i)"
  by (cases bs) (use accepts_prebuffer in \<open>auto simp: comp_def\<close>)

lemma packet_step_accepts:
  assumes "packet_step c b a a' out" and "0 < c" and "agrees g a"
  shows "\<exists>g'. accepts g out = Some g' \<and> agrees g' a'"
  using assms
proof (cases rule: packet_step.cases)
  case (start recent n)
  with assms show ?thesis
    by (cases g) (auto simp: accepts_opening_msgs pushed_not_Nil)
qed (use assms in \<open>cases g; auto\<close>)+

lemma spec_run_accepts:
  "spec_run c bs a a' outs \<Longrightarrow> 0 < c \<Longrightarrow> agrees g a
    \<Longrightarrow> \<exists>g'. accepts g outs = Some g' \<and> agrees g' a'"
proof (induction arbitrary: g rule: spec_run.induct)
  case (nil a)
  then show ?case by simp
next
  case (cons b a a1 out1 bs a2 out2)
  from packet_step_accepts [OF cons.hyps(1) cons.prems] obtain g1
    where "accepts g out1 = Some g1" and "agrees g1 a1" by blast
  with cons.IH [of g1] cons.prems show ?case by (auto simp: accepts_append)
qed

section \<open>Order and contiguity\<close>

lemma subseq_pushed: "subseq (pushed c b xs) (xs @ [b])" if "0 < c"
  using pushed_suffix [OF that, of xs b] by (metis subseq_order.order_refl subseq_drop_many)

lemma suffix_pushed: "suffix (map f (pushed c b xs)) (map f xs @ [f b])" if "0 < c"
  using pushed_suffix [OF that, of xs b]
  by (metis list.simps(8,9) map_append suffixI)

text \<open>No buffer is published twice or out of order.\<close>

lemma spec_run_subseq:
  "spec_run c bs a a' outs \<Longrightarrow> 0 < c
    \<Longrightarrow> subseq (map tbuffer outs @ map Some (recent_of a')) (map Some (recent_of a @ bs))"
proof (induction rule: spec_run.induct)
  case (nil a)
  then show ?case by simp
next
  case (cons b a a1 out1 bs a2 out2)
  have "subseq (map tbuffer out1 @ map Some (recent_of a1)) (map Some (recent_of a @ [b]))"
    using cons.hyps(1) cons.prems
    by (cases rule: packet_step.cases) (auto simp: subseq_map [OF subseq_pushed, simplified] comp_def)
  then have "subseq ((map tbuffer out1 @ map Some (recent_of a1)) @ map Some bs)
      (map Some (recent_of a @ [b]) @ map Some bs)"
    by (simp only: subseq_append)
  moreover have "subseq (map tbuffer out1 @ (map tbuffer out2 @ map Some (recent_of a2)))
      (map tbuffer out1 @ (map Some (recent_of a1) @ map Some bs))"
    using list_emb_append_mono [OF subseq_order.order_refl cons.IH [OF cons.prems]] by simp
  ultimately show ?case by (auto intro: subseq_order.order_trans)
qed

abbreviation not_start :: "tagged_audio_buffer \<Rightarrow> bool" where
  "not_start t \<equiv> tmarker t \<noteq> START"

lemma prefix_takeWhile: "prefix xs ys \<Longrightarrow> \<forall>x \<in> set xs. P x \<Longrightarrow> prefix xs (takeWhile P ys)"
  by (auto simp: prefix_def)

text \<open>
  The messages up to the next START carry exactly the buffers that arrive, from the first one on;
  outside a packet there are none.
\<close>

lemma spec_run_lead:
  "spec_run c bs a a' outs \<Longrightarrow> 0 < c
    \<Longrightarrow> prefix (map tbuffer (takeWhile not_start outs)) (map Some bs)
        \<and> ((\<exists>recent n. a = (Idle recent, n)) \<longrightarrow> takeWhile not_start outs = [])"
proof (induction rule: spec_run.induct)
  case (nil a)
  then show ?case by simp
next
  case (cons b a a1 out1 bs a2 out2)
  note IH = cons.IH [OF cons.prems]
  from cons.hyps(1) show ?case
  proof (cases rule: packet_step.cases)
    case (start recent n)
    then obtain x xs where "pushed c b recent = x # xs"
      using pushed_not_Nil [OF cons.prems, of b recent] by (cases "pushed c b recent") auto
    with start show ?thesis by simp
  qed (use IH in auto)
qed

text \<open>A stretch of the output without a START inside is a stretch of the input without a gap.\<close>

lemma spec_run_sublist:
  assumes "spec_run c bs a a' outs" and "0 < c"
    and "sublist ys outs" and "\<forall>t \<in> set (tl ys). not_start t"
  shows "sublist (map tbuffer ys) (map Some (recent_of a @ bs))"
  using assms
proof (induction rule: spec_run.induct)
  case (nil a)
  then show ?case by simp
next
  case (cons b a a1 out1 bs a2 out2)
  let ?in = "map Some (recent_of a @ [b]) :: audio_buffer option list"
  have step: "suffix (map tbuffer out1 @ map Some (recent_of a1)) ?in"
    using cons.hyps(1)
    by (cases rule: packet_step.cases)
       (use suffix_pushed [OF cons.prems(1), of Some b] in \<open>simp_all del: suffix_snoc\<close>)
  have split: "(recent_of a1 = [] \<or> out1 = [])"
    using cons.hyps(1) by (cases rule: packet_step.cases) auto
  from cons.prems(2) consider "sublist ys out1" | "sublist ys out2"
    | xs1 xs2 where "ys = xs1 @ xs2" "suffix xs1 out1" "prefix xs2 out2" "xs1 \<noteq> []"
    unfolding sublist_append by (metis append_Nil prefix_imp_sublist)
  then show ?case
  proof cases
    case 1
    then have "sublist (map tbuffer ys) (map tbuffer out1)" by (rule map_mono_sublist)
    also have "sublist \<dots> ?in"
      using step by (meson sublist_appendI prefix_imp_sublist prefixI sublist_order.order_trans suffix_imp_sublist)
    finally show ?thesis by (auto intro: sublist_order.order_trans)
  next
    case 2
    then have "sublist (map tbuffer ys) (map Some (recent_of a1 @ bs))"
      using cons.IH cons.prems by blast
    moreover have "suffix (map Some (recent_of a1)) ?in" using step by (auto simp: suffix_def)
    then have "suffix (map Some (recent_of a1) @ map Some bs) (?in @ map Some bs)"
      by (simp only: same_suffix_suffix suffix_def) (metis append_assoc)
    then have "sublist (map Some (recent_of a1 @ bs)) (?in @ map Some bs)"
      by (simp only: map_append suffix_imp_sublist)
    ultimately show ?thesis by (auto intro: sublist_order.order_trans)
  next
    case 3
    then have "\<forall>t \<in> set xs2. not_start t" using cons.prems(3) by (cases xs1) auto
    with 3 have "prefix xs2 (takeWhile not_start out2)" by (intro prefix_takeWhile) auto
    then have "prefix (map tbuffer xs2) (map Some bs)"
      using spec_run_lead [OF cons.hyps(2) cons.prems(1)]
      by (meson map_mono_prefix prefix_order.order_trans)
    moreover have "suffix (map tbuffer xs1) ?in"
    proof -
      have "out1 \<noteq> []" using 3 by auto
      with split step have "suffix (map tbuffer out1) ?in" by auto
      with 3(2) show ?thesis by (meson map_mono_suffix suffix_order.order_trans)
    qed
    ultimately have "sublist (map tbuffer xs1 @ map tbuffer xs2) (?in @ map Some bs)"
      unfolding sublist_append [of _ ?in] by blast
    then show ?thesis by (simp add: 3(1))
  qed
qed

end
