(* ===== verification/Detector.thy ===== *)
theory Detector
  imports Packet_Stream
begin

text \<open>
  The packet detector of \<open>netsim_core\<close> (\<open>DetectorThread\<close>, \<open>src/apps/netsim_core/detector.h\<close>): one
  thread per transmitting modem. It watches the captured audio for a sample at or above the
  detection threshold, publishes the buffers of a packet with the markers START, MIDDLE and END,
  precedes them by the buffers of a short history (the prebuffer), and ends the packet after a
  configured run of samples below the threshold.

  \<open>detector\<close> is the state of one thread. The packet counter is a \<open>static\<close> variable of a member
  function of a class template, so there is one counter per instantiation of the template, that
  is per modem: it is part of the state of the thread.
\<close>

section \<open>State and operations\<close>

record 'q detector =
  in_packet :: bool
  in_packet_id :: "32 word"
  in_packet_start_time :: fp
  frames_since_silence :: "32 word"
  prebuffer :: 'q
  global_packet_id :: "32 word"

datatype detector_event = Audio_In audio_buffer | Buffer_Size "32 word"

type_synonym 'q prebuffer_ops = "(audio_buffer option, 'q) cbuf"

definition detector_init :: "'q prebuffer_ops \<Rightarrow> 'q detector" where
  "detector_init ops =
     \<lparr>in_packet = False, in_packet_id = -1, in_packet_start_time = Fin 0,
      frames_since_silence = 0, prebuffer = cb_new ops 1, global_packet_id = 0\<rparr>"

text \<open>
  The subscription to \<open>buffer_size_change\<close>: the number of buffers that span the configured
  prebuffer time, computed in single precision and converted to \<open>size_t\<close>. New places of the
  prebuffer are null pointers.
\<close>

definition new_prebuffer_size :: "core_config \<Rightarrow> 32 word \<Rightarrow> int res" where
  "new_prebuffer_size cfg buffer_size =
     to_uint64
       (f_div (f_mul (f_of_int (sampling_freq cfg))
                     (packet_begin_prebuffer_seconds (detector_cfg cfg)))
              (f_of_int (uint buffer_size)))"

definition resize_prebuffer ::
    "core_config \<Rightarrow> 'q prebuffer_ops \<Rightarrow> 32 word \<Rightarrow> 'q detector
      \<Rightarrow> ('q detector \<times> tagged_audio_buffer list) res" where
  "resize_prebuffer cfg ops buffer_size d =
     res_bind (new_prebuffer_size cfg buffer_size) (\<lambda>n.
       Inr (d\<lparr>prebuffer := cb_resize ops (nat (if 0 < n then n else 1)) None (prebuffer d)\<rparr>, []))"

definition above_threshold :: "core_config \<Rightarrow> fp \<Rightarrow> bool" where
  "above_threshold cfg s \<longleftrightarrow> detection_threshold (detector_cfg cfg) \<le> fp_abs s"

text \<open>\<open>while (!prebuffer_.empty())\<close>: the elements taken from the front, in order; \<open>None\<close> if the
  loop never ends.\<close>

partial_function (option) drain ::
    "'q prebuffer_ops \<Rightarrow> 'q \<Rightarrow> audio_buffer option list \<Rightarrow> (audio_buffer option list \<times> 'q) option" where
  "drain ops q taken =
     (if cb_empty ops q then Some (taken, q)
      else drain ops (cb_pop_front ops q) (taken @ [cb_front ops q]))"

text \<open>
  The body of the threshold test in \<open>audio_in\<close> outside a packet: the packet starts, and what has
  been kept in the prebuffer is published, the first buffer marked START. A null pointer at the
  front of the prebuffer leaves the loop before anything is published. \<open>front()\<close> of an empty
  buffer is undefined.
\<close>

definition start_packet ::
    "core_config \<Rightarrow> 'q prebuffer_ops \<Rightarrow> audio_buffer \<Rightarrow> 'q detector
      \<Rightarrow> ('q detector \<times> tagged_audio_buffer list) res" where
  "start_packet cfg ops buffer d =
     (let i = global_packet_id d;
          d1 = d\<lparr>in_packet := True, in_packet_id := i, global_packet_id := i + 1,
                 in_packet_start_time := buffer_start_time buffer\<rparr>
      in if continuous cfg then Inr (d1, [tagged (Some buffer) START i])
         else if cb_empty ops (prebuffer d1) then Inl Undefined_Behaviour
         else
           (case cb_front ops (prebuffer d1) of
              None \<Rightarrow> Inr (d1, [])
            | Some first_buffer \<Rightarrow>
                (case drain ops (cb_pop_front ops (prebuffer d1)) [] of
                   None \<Rightarrow> Inl Hang
                 | Some (bs, q) \<Rightarrow>
                     Inr (d1\<lparr>prebuffer := q\<rparr>,
                          tagged (Some first_buffer) START i # map (\<lambda>b. tagged b NONE i) bs))))"

text \<open>
  The loop over the samples inside a packet: the counter of samples since the last one at or
  above the threshold, and whether the packet ended. \<open>frames_since_silence\<close> is unsigned and is
  converted to single precision for the comparison with \<open>packet_end_silent_seconds * sampling_freq\<close>.
\<close>

definition silent_limit :: "core_config \<Rightarrow> fp" where
  "silent_limit cfg =
     f_mul (packet_end_silent_seconds (detector_cfg cfg)) (f_of_int (sampling_freq cfg))"

fun scan_silence :: "core_config \<Rightarrow> fp list \<Rightarrow> 32 word \<Rightarrow> 32 word \<times> bool" where
  "scan_silence cfg [] n = (n, False)"
| "scan_silence cfg (s # ss) n =
     (let n' = (if above_threshold cfg s then 0 else n + 1)
      in if silent_limit cfg \<le> f_of_int (uint n') then (0, True) else scan_silence cfg ss n')"

definition audio_in ::
    "core_config \<Rightarrow> 'q prebuffer_ops \<Rightarrow> audio_buffer \<Rightarrow> 'q detector
      \<Rightarrow> ('q detector \<times> tagged_audio_buffer list) res" where
  "audio_in cfg ops buffer d =
     (if \<not> in_packet d then
        (let d1 = d\<lparr>prebuffer := cb_push_back ops (Some buffer) (prebuffer d)\<rparr>
         in if list_ex (above_threshold cfg) (samples buffer) then start_packet cfg ops buffer d1
            else if continuous cfg then Inr (d1, [tagged (Some buffer) NONE (in_packet_id d1)])
            else Inr (d1, []))
      else
        (case scan_silence cfg (samples buffer) (frames_since_silence d) of
           (n, ended) \<Rightarrow>
             let d1 = d\<lparr>in_packet := \<not> ended, frames_since_silence := n\<rparr>;
                 out1 = (if ended then [tagged (Some buffer) END (in_packet_id d1)] else []);
                 out2 = (if in_packet d1 \<or> continuous cfg
                         then [tagged (Some buffer) (if in_packet d1 then MIDDLE else NONE)
                                 (in_packet_id d1)]
                         else [])
             in Inr (d1, out1 @ out2)))"

fun detector_handle ::
    "core_config \<Rightarrow> 'q prebuffer_ops \<Rightarrow> (detector_event, 'q detector, tagged_audio_buffer) handler" where
  "detector_handle cfg ops (Audio_In buffer) d = audio_in cfg ops buffer d"
| "detector_handle cfg ops (Buffer_Size n) d = resize_prebuffer cfg ops n d"

section \<open>Refinement of the packet specification\<close>

text \<open>
  The client of the container's contract: the detector over any prebuffer that behaves as
  documented. \<open>refines d a\<close> relates a state of the thread to a state of the specification; it asks
  for a prebuffer without null pointers, which is the case once it has been filled.
\<close>

locale detector_prebuffer = circular_buffer ops contents capacity
  for ops :: "'q prebuffer_ops" and contents :: "'q \<Rightarrow> audio_buffer option list"
    and capacity :: "'q \<Rightarrow> nat" +
  fixes cfg :: core_config
begin

lemma drain_contents:
  "\<exists>q'. drain ops q taken = Some (taken @ contents q, q') \<and> contents q' = []
     \<and> capacity q' = capacity q"
proof (induction "contents q" arbitrary: q taken)
  case Nil
  then show ?case by (subst drain.simps) simp
next
  case (Cons x xs)
  then have pop: "contents (cb_pop_front ops q) = xs" "capacity (cb_pop_front ops q) = capacity q"
    and "cb_front ops q = x" "contents q \<noteq> []"
    by (simp_all flip: Cons.hyps(2))
  with Cons.hyps(1) [OF pop(1) [symmetric], of "taken @ [x]"] Cons.hyps(2) show ?case
    by (subst drain.simps) auto
qed

definition refines :: "nat \<Rightarrow> 'q detector \<Rightarrow> packet_spec \<Rightarrow> bool" where
  "refines c d a \<longleftrightarrow>
     0 < c \<and> capacity (prebuffer d) = c \<and> contents (prebuffer d) = map Some (recent_of a)
     \<and> snd a = global_packet_id d
     \<and> (case fst a of Idle _ \<Rightarrow> \<not> in_packet d | Active i \<Rightarrow> in_packet d \<and> in_packet_id d = i)"

lemma map_Some_pushed: "pushed c (Some b) (map Some xs) = map Some (pushed c b xs)"
  by (simp add: pushed_def map_tl)

lemma start_packet_spec:
  assumes "\<not> continuous cfg" and "contents (prebuffer d) = Some x # map Some xs"
  shows "\<exists>q. start_packet cfg ops b d =
           Inr (d\<lparr>in_packet := True, in_packet_id := global_packet_id d,
                  global_packet_id := global_packet_id d + 1,
                  in_packet_start_time := buffer_start_time b, prebuffer := q\<rparr>,
                opening_msgs (global_packet_id d) (map Some (x # xs)))
         \<and> contents q = [] \<and> capacity q = capacity (prebuffer d)"
  using assms drain_contents [of "cb_pop_front ops (prebuffer d)" "[]"]
  by (auto simp: start_packet_def Let_def)

lemma audio_in_refines:
  assumes "refines c d a" and "\<not> continuous cfg"
  shows "\<exists>d' out a'. audio_in cfg ops b d = Inr (d', out) \<and> packet_step c b a a' out
           \<and> refines c d' a'"
proof (cases "fst a")
  case (Idle recent)
  with assms(1) obtain n where a: "a = (Idle recent, n)" and n: "n = global_packet_id d"
    and idle: "\<not> in_packet d" and c: "0 < c" "capacity (prebuffer d) = c"
    and recent: "contents (prebuffer d) = map Some recent"
    by (cases a) (auto simp: refines_def)
  let ?d1 = "d\<lparr>prebuffer := cb_push_back ops (Some b) (prebuffer d)\<rparr>"
  have q1: "contents (prebuffer ?d1) = map Some (pushed c b recent)" "capacity (prebuffer ?d1) = c"
    using c recent by (simp_all add: map_Some_pushed)
  show ?thesis
  proof (cases "list_ex (above_threshold cfg) (samples b)")
    case True
    obtain x xs where xs: "pushed c b recent = x # xs"
      using pushed_not_Nil [OF c(1), of b recent] by (cases "pushed c b recent") auto
    have "packet_step c b (Idle recent, n) (Active n, n + 1) (opening_msgs n (map Some (x # xs)))"
      using packet_step.start [of c b recent n] by (simp only: xs)
    moreover from q1 xs have "contents (prebuffer ?d1) = Some x # map Some xs" by simp
    from start_packet_spec [OF assms(2) this, of b] obtain q
      where "start_packet cfg ops b ?d1 =
           Inr (?d1\<lparr>in_packet := True, in_packet_id := n, global_packet_id := n + 1,
                  in_packet_start_time := buffer_start_time b, prebuffer := q\<rparr>,
                opening_msgs n (map Some (x # xs)))"
        and "contents q = []" and "capacity q = c"
      using q1 n by auto
    ultimately show ?thesis
      using True idle c by (fastforce simp: audio_in_def Let_def a refines_def)
  next
    case False
    with assms idle q1 c n show ?thesis
      by (auto simp: audio_in_def Let_def a refines_def
          intro!: exI [of _ "Idle (pushed c b recent)"] exI [of _ n] packet_step.quiet)
  qed
next
  case (Active i)
  with assms(1) obtain n where a: "a = (Active i, n)" and n: "n = global_packet_id d"
    and active: "in_packet d" "in_packet_id d = i" and c: "0 < c" "capacity (prebuffer d) = c"
    and empty: "contents (prebuffer d) = []"
    by (cases a) (auto simp: refines_def)
  obtain m ended where scan: "scan_silence cfg (samples b) (frames_since_silence d) = (m, ended)"
    by fastforce
  show ?thesis
  proof (cases ended)
    case True
    with scan assms(2) active empty c n show ?thesis
      by (auto simp: audio_in_def Let_def a refines_def
          intro!: exI [of _ "Idle []"] exI [of _ n] packet_step.finish)
  next
    case False
    with scan assms(2) active empty c n show ?thesis
      by (auto simp: audio_in_def Let_def a refines_def
          intro!: exI [of _ "Active i"] exI [of _ n] packet_step.middle)
  qed
qed

lemma run_refines:
  "refines c d a \<Longrightarrow> \<not> continuous cfg
    \<Longrightarrow> \<exists>d' outs a'. run (detector_handle cfg ops) (map Audio_In bs) d = Inr (d', outs)
          \<and> spec_run c bs a a' outs \<and> refines c d' a'"
proof (induction bs arbitrary: d a)
  case Nil
  then show ?case by auto
next
  case (Cons b bs)
  from audio_in_refines [OF Cons.prems, of b] obtain d1 out1 a1
    where "audio_in cfg ops b d = Inr (d1, out1)" and "packet_step c b a a1 out1"
      and "refines c d1 a1" by blast
  with Cons.IH [of d1 a1] Cons.prems(2) show ?case
    by (fastforce simp: run_Cons_Inr intro: spec_run.cons)
qed

end

interpretation list_detector: detector_prebuffer list_cbuf snd fst cfg for cfg
  by unfold_locales

section \<open>The end of a packet\<close>

text \<open>The number of samples since the last one at or above the threshold, \<open>n\<close> before the first.\<close>

definition quiet_run :: "core_config \<Rightarrow> fp list \<Rightarrow> nat \<Rightarrow> nat" where
  "quiet_run cfg ss n = foldl (\<lambda>n s. if above_threshold cfg s then 0 else Suc n) n ss"

lemma quiet_run_simps [simp]:
  "quiet_run cfg [] n = n"
  "quiet_run cfg (s # ss) n = quiet_run cfg ss (if above_threshold cfg s then 0 else Suc n)"
  by (simp_all add: quiet_run_def)

lemma quiet_run_le: "quiet_run cfg ss n \<le> n + length ss"
proof (induction ss arbitrary: n)
  case Nil
  then show ?case by simp
next
  case (Cons s ss)
  from Cons [of 0] Cons [of "Suc n"] show ?case by auto
qed

lemma ex_take_Cons:
  "(\<exists>k \<in> {1..length (s # ss)}. P (take k (s # ss))) \<longleftrightarrow> P [s] \<or> (\<exists>k \<in> {1..length ss}. P (s # take k ss))"
proof -
  have "{1..length (s # ss)} = insert 1 (Suc ` {1..length ss})"
    by (auto simp: image_iff Suc_le_eq intro: Suc_pred' [symmetric] dest: Suc_le_D)
  then show ?thesis by (simp only: bex_simps One_nat_def take_Suc_Cons take_0)
qed

lemma scan_silence_iff:
  "silent_limit cfg = Fin l \<Longrightarrow> unat n + length ss < 2 ^ 24
    \<Longrightarrow> (snd (scan_silence cfg ss n) \<longleftrightarrow>
           (\<exists>k \<in> {1..length ss}. l \<le> of_nat (quiet_run cfg (take k ss) (unat n))))
      \<and> (\<not> snd (scan_silence cfg ss n) \<longrightarrow>
           unat (fst (scan_silence cfg ss n)) = quiet_run cfg ss (unat n))
      \<and> (snd (scan_silence cfg ss n) \<longrightarrow> fst (scan_silence cfg ss n) = 0)"
proof (induction ss arbitrary: n)
  case Nil
  then show ?case by simp
next
  case (Cons s ss)
  define n' where "n' = (if above_threshold cfg s then 0 else n + 1)"
  have "unat (n + 1) = Suc (unat n)"
    using Cons.prems(2) by (simp add: unat_word_ariths)
  then have n': "unat n' = (if above_threshold cfg s then 0 else Suc (unat n))"
    by (simp add: n'_def)
  then have less: "unat n' + length ss < 2 ^ 24" using Cons.prems(2) by auto
  then have "int (unat n') < 2 ^ 24" by (simp flip: of_nat_less_iff [where 'a = int])
  then have "f_of_int (uint n') = Fin (of_nat (unat n'))"
    using f_round_int [of "uint n'"] by (simp add: fp_of_int_def)
  then have scan: "scan_silence cfg (s # ss) n =
      (if l \<le> of_nat (unat n') then (0, True) else scan_silence cfg ss n')"
    by (simp only: scan_silence.simps Let_def Cons.prems(1) less_eq_fp.simps flip: n'_def)
  have "(\<exists>k \<in> {1..length (s # ss)}. l \<le> of_nat (quiet_run cfg (take k (s # ss)) (unat n))) \<longleftrightarrow>
      l \<le> of_nat (unat n') \<or> (\<exists>k \<in> {1..length ss}. l \<le> of_nat (quiet_run cfg (take k ss) (unat n')))"
    unfolding ex_take_Cons [where P = "\<lambda>t. l \<le> of_nat (quiet_run cfg t (unat n))"]
    by (simp only: quiet_run_simps n' [symmetric])
  moreover have "quiet_run cfg (s # ss) (unat n) = quiet_run cfg ss (unat n')"
    by (simp only: quiet_run_simps n' [symmetric])
  ultimately show ?case
    unfolding scan using Cons.IH [OF Cons.prems(1) less] by (simp only: split: if_split) simp
qed

section \<open>Properties\<close>

context detector_prebuffer
begin

lemma quiet_init:
  assumes "\<not> in_packet d" and "contents (prebuffer d) = map Some recent" and "0 < capacity (prebuffer d)"
  shows "refines (capacity (prebuffer d)) d (Idle recent, global_packet_id d)"
  using assms by (simp add: refines_def)

lemma pushed_full: "length xs = c \<Longrightarrow> 0 < c \<Longrightarrow> pushed c x xs = tl xs @ [x]"
  by (simp add: pushed_def)

lemma run_quiet:
  assumes "\<not> continuous cfg" and "\<forall>b \<in> set bs. \<not> list_ex (above_threshold cfg) (samples b)"
    and "\<not> in_packet d" and "capacity (prebuffer d) = c" and "0 < c"
    and "length (contents (prebuffer d)) = c"
  shows "\<exists>q. run (detector_handle cfg ops) (map Audio_In bs) d = Inr (d\<lparr>prebuffer := q\<rparr>, [])
           \<and> capacity q = c
           \<and> contents q = drop (length bs) (contents (prebuffer d) @ map Some bs)"
  using assms
proof (induction bs arbitrary: d)
  case Nil
  then show ?case by (intro exI [of _ "prebuffer d"]) simp
next
  case (Cons b bs)
  let ?d1 = "d\<lparr>prebuffer := cb_push_back ops (Some b) (prebuffer d)\<rparr>"
  have step: "detector_handle cfg ops (Audio_In b) d = Inr (?d1, [])"
    using Cons.prems by (simp add: audio_in_def Let_def)
  obtain y ys where y: "contents (prebuffer d) = y # ys"
    using Cons.prems by (cases "contents (prebuffer d)") auto
  then have c1: "contents (prebuffer ?d1) = ys @ [Some b]" "capacity (prebuffer ?d1) = c"
    using Cons.prems by (simp_all add: pushed_full)
  have "\<exists>q. run (detector_handle cfg ops) (map Audio_In bs) ?d1 = Inr (?d1\<lparr>prebuffer := q\<rparr>, [])
      \<and> capacity q = c \<and> contents q = drop (length bs) (contents (prebuffer ?d1) @ map Some bs)"
    by (rule Cons.IH) (use Cons.prems c1 y in simp_all)
  then obtain q where "run (detector_handle cfg ops) (map Audio_In bs) ?d1 = Inr (?d1\<lparr>prebuffer := q\<rparr>, [])"
    and "capacity q = c" and "contents q = drop (length bs) ((ys @ [Some b]) @ map Some bs)"
    unfolding c1(1) by blast
  with step y show ?case by (intro exI [of _ q]) (simp add: run_Cons_Inr)
qed

end

lemma audio_in_continuous:
  assumes "continuous cfg"
  shows "\<exists>d' out. audio_in cfg ops b d = Inr (d', out) \<and> out \<noteq> [] \<and> (\<forall>t \<in> set out. tbuffer t = Some b)"
  using assms by (auto simp: audio_in_def start_packet_def Let_def split: prod.splits)

lemma audio_in_active:
  assumes "in_packet d" and "\<not> continuous cfg"
  shows "audio_in cfg ops b d =
    (case scan_silence cfg (samples b) (frames_since_silence d) of (n, ended) \<Rightarrow>
       Inr (d\<lparr>in_packet := \<not> ended, frames_since_silence := n\<rparr>,
            [tagged (Some b) (if ended then END else MIDDLE) (in_packet_id d)]))"
  using assms by (auto simp: audio_in_def Let_def split: prod.splits)

text \<open>A small configuration and buffers for the closed theorems.\<close>

definition example_cfg :: core_config where
  "example_cfg = (default_core_config 2)
     \<lparr>sampling_freq := 3,
      detector_cfg := \<lparr>detection_threshold = Fin 1, packet_end_silent_seconds = Fin 1,
                       packet_begin_prebuffer_seconds = Fin 1\<rparr>\<rparr>"

definition loud :: "rat \<Rightarrow> audio_buffer" where
  "loud t = \<lparr>buffer_start_time = Fin t, jack_frame_time = 0, samples = [Fin 1, Fin 0, Fin 0]\<rparr>"

definition still :: "rat \<Rightarrow> audio_buffer" where
  "still t = \<lparr>buffer_start_time = Fin t, jack_frame_time = 0, samples = [Fin 0, Fin 0, Fin 0]\<rparr>"

lemma example_cfg_sel [simp]:
  "sampling_freq example_cfg = 3" "continuous example_cfg = False"
  "detection_threshold (detector_cfg example_cfg) = Fin 1"
  "silent_limit example_cfg = Fin 3"
  "new_prebuffer_size example_cfg 1 = Inr 3"
  by (simp_all add: example_cfg_def default_core_config_def silent_limit_def fp_of_int_def
      new_prebuffer_size_def rat_trunc_def)

lemma above_threshold_example [simp]: "above_threshold example_cfg (Fin x) \<longleftrightarrow> 1 \<le> \<bar>x\<bar>"
  by (simp add: above_threshold_def)

lemma detector_init_list [simp]:
  "in_packet (detector_init ops) = False" "in_packet_id (detector_init ops) = -1"
  "frames_since_silence (detector_init ops) = 0" "global_packet_id (detector_init ops) = 0"
  "prebuffer (detector_init ops) = cb_new ops 1"
  by (simp_all add: detector_init_def)

text \<open>
  C1: From any state outside a packet whose prebuffer holds no null pointer, the detector in packet
  mode never faults, whatever audio arrives, and behaves as the packet specification: what it
  publishes is what a run of \<open>packet_step\<close> publishes, and its state again represents the
  specification's state.
\<close>

theorem detector_implements_packet_spec:
  assumes "circular_buffer ops contents capacity" and "\<not> continuous cfg" and "\<not> in_packet d"
    and "0 < capacity (prebuffer d)" and "contents (prebuffer d) = map Some recent"
  shows "\<exists>d' outs a.
           run (detector_handle cfg ops) (map Audio_In bs) d = Inr (d', outs)
         \<and> spec_run (capacity (prebuffer d)) bs (Idle recent, global_packet_id d) a outs
         \<and> contents (prebuffer d') = map Some (recent_of a)
         \<and> global_packet_id d' = snd a
         \<and> (case fst a of Idle _ \<Rightarrow> \<not> in_packet d' | Active i \<Rightarrow> in_packet d' \<and> in_packet_id d' = i)"
proof -
  note L = detector_prebuffer.intro [OF assms(1)]
  from detector_prebuffer.run_refines
      [OF L detector_prebuffer.quiet_init [OF L assms(3,5,4)] assms(2), of bs]
  show ?thesis unfolding detector_prebuffer.refines_def [OF L] by metis
qed

theorem detector_implements_packet_spec_witness:
  "\<exists>d' outs a.
     run (detector_handle example_cfg list_cbuf) (map Audio_In [still 0, loud 1, still 2])
       (detector_init list_cbuf) = Inr (d', outs)
   \<and> spec_run 1 [still 0, loud 1, still 2] (Idle [], 0) a outs"
  using detector_implements_packet_spec
    [OF list_cbuf.circular_buffer_axioms, of example_cfg "detector_init list_cbuf" "[]"
        "[still 0, loud 1, still 2]"]
  by (auto simp: list_cbuf_def)



text \<open>
  In packet mode no captured buffer is published twice and none out of order: the published
  buffers are a subsequence of the buffers in the prebuffer followed by the buffers that arrive.
\<close>

theorem detector_publishes_in_order:
  assumes "circular_buffer ops contents capacity" and "\<not> continuous cfg" and "\<not> in_packet d"
    and "0 < capacity (prebuffer d)" and "contents (prebuffer d) = map Some recent"
  shows "\<exists>d' outs.
           run (detector_handle cfg ops) (map Audio_In bs) d = Inr (d', outs)
         \<and> subseq (map tbuffer outs) (map Some (recent @ bs))"
proof -
  note L = detector_prebuffer.intro [OF assms(1)]
  from detector_prebuffer.run_refines
      [OF L detector_prebuffer.quiet_init [OF L assms(3,5,4)] assms(2), of bs]
  obtain d' outs a where r: "run (detector_handle cfg ops) (map Audio_In bs) d = Inr (d', outs)"
    and s: "spec_run (capacity (prebuffer d)) bs (Idle recent, global_packet_id d) a outs" by blast
  from spec_run_subseq [OF s assms(4)] have "subseq (map tbuffer outs) (map Some (recent @ bs))"
    by (auto dest: list_emb_append2 intro: subseq_order.order_trans [OF subseq_rev_drop_many])
  with r show ?thesis by blast
qed

theorem detector_publishes_in_order_witness:
  "\<exists>d' outs.
     run (detector_handle example_cfg list_cbuf) (map Audio_In [still 0, loud 1, still 2])
       (detector_init list_cbuf) = Inr (d', outs)
   \<and> subseq (map tbuffer outs) (map Some [still 0, loud 1, still 2])"
  using detector_publishes_in_order
    [OF list_cbuf.circular_buffer_axioms, of example_cfg "detector_init list_cbuf" "[]"
        "[still 0, loud 1, still 2]"]
  by (simp add: list_cbuf_def)

text \<open>
  In packet mode a packet has no gap: any stretch of the published messages that does not go
  past the next START carries a contiguous stretch of the captured audio.
\<close>

theorem detector_packets_contiguous:
  assumes "circular_buffer ops contents capacity" and "\<not> continuous cfg" and "\<not> in_packet d"
    and "0 < capacity (prebuffer d)" and "contents (prebuffer d) = map Some recent"
  shows "\<exists>d' outs.
           run (detector_handle cfg ops) (map Audio_In bs) d = Inr (d', outs)
         \<and> (\<forall>ys. sublist ys outs \<and> (\<forall>t \<in> set (tl ys). tmarker t \<noteq> START)
               \<longrightarrow> sublist (map tbuffer ys) (map Some (recent @ bs)))"
proof -
  note L = detector_prebuffer.intro [OF assms(1)]
  from detector_prebuffer.run_refines
      [OF L detector_prebuffer.quiet_init [OF L assms(3,5,4)] assms(2), of bs]
  obtain d' outs a where r: "run (detector_handle cfg ops) (map Audio_In bs) d = Inr (d', outs)"
    and s: "spec_run (capacity (prebuffer d)) bs (Idle recent, global_packet_id d) a outs" by blast
  from spec_run_sublist [OF s assms(4)] r show ?thesis by (metis recent_of.simps(1))
qed

theorem detector_packets_contiguous_witness:
  "\<exists>d' outs.
     run (detector_handle example_cfg list_cbuf) (map Audio_In [still 0, loud 1, still 2])
       (detector_init list_cbuf) = Inr (d', outs)
   \<and> (\<forall>ys. sublist ys outs \<and> (\<forall>t \<in> set (tl ys). tmarker t \<noteq> START)
         \<longrightarrow> sublist (map tbuffer ys) (map Some [still 0, loud 1, still 2]))"
  using detector_packets_contiguous
    [OF list_cbuf.circular_buffer_axioms, of example_cfg "detector_init list_cbuf" "[]"
        "[still 0, loud 1, still 2]"]
  by (simp add: list_cbuf_def)

text \<open>
  Inside a packet one buffer is published, as END exactly if somewhere in it the number of
  consecutive samples below the threshold (counted on from the buffers before) reaches the
  configured silence \<open>packet_end_silent_seconds * sampling_freq\<close>, else as MIDDLE; the counter the
  thread keeps is that number, reset when the packet ends. The counts stay below \<open>2 ^ 24\<close>, where
  single precision counts exactly.
\<close>

theorem packet_ends_after_silence:
  assumes "in_packet d" and "\<not> continuous cfg" and "silent_limit cfg = Fin l"
    and "unat (frames_since_silence d) + length (samples b) < 2 ^ 24"
  defines "ends \<equiv> \<exists>k \<in> {1..length (samples b)}.
             l \<le> of_nat (quiet_run cfg (take k (samples b)) (unat (frames_since_silence d)))"
  shows "\<exists>d'. audio_in cfg ops b d =
             Inr (d', [tagged (Some b) (if ends then END else MIDDLE) (in_packet_id d)])
           \<and> (in_packet d' \<longleftrightarrow> \<not> ends)
           \<and> unat (frames_since_silence d') =
               (if ends then 0 else quiet_run cfg (samples b) (unat (frames_since_silence d)))"
proof -
  obtain n e where scan: "scan_silence cfg (samples b) (frames_since_silence d) = (n, e)"
    by fastforce
  with scan_silence_iff [OF assms(3,4)] have "e \<longleftrightarrow> ends"
    and "unat n = (if ends then 0 else quiet_run cfg (samples b) (unat (frames_since_silence d)))"
    unfolding ends_def by auto
  with scan show ?thesis by (simp add: audio_in_active [OF assms(1,2)])
qed

theorem packet_ends_after_silence_witness:
  "\<exists>d'. audio_in example_cfg list_cbuf (still 1) ((detector_init list_cbuf)\<lparr>in_packet := True\<rparr>) =
     Inr (d', [tagged (Some (still 1)) END (-1)]) \<and> \<not> in_packet d'"
proof -
  have "\<exists>k \<in> {1..length (samples (still 1))}.
          3 \<le> rat_of_nat (quiet_run example_cfg (take k (samples (still 1))) 0)"
    by (rule bexI [of _ 3]) (simp_all add: still_def)
  then show ?thesis
    using packet_ends_after_silence
      [of "(detector_init list_cbuf)\<lparr>in_packet := True\<rparr>" example_cfg 3 "still 1" list_cbuf]
    by (simp add: still_def) blast
qed

text \<open>
  In continuous mode no captured buffer is lost: every call publishes the buffer it was given,
  at least once, and nothing else, and never faults.
\<close>

theorem continuous_mode_lossless:
  assumes "continuous cfg"
  shows "\<exists>d' out. audio_in cfg ops b d = Inr (d', out) \<and> out \<noteq> []
           \<and> (\<forall>t \<in> set out. tbuffer t = Some b)"
  using assms by (rule audio_in_continuous)

theorem continuous_mode_lossless_witness:
  "\<exists>d' out. audio_in (example_cfg\<lparr>continuous := True\<rparr>) list_cbuf (still 0) (detector_init list_cbuf)
     = Inr (d', out) \<and> out \<noteq> [] \<and> (\<forall>t \<in> set out. tbuffer t = Some (still 0))"
  by (rule continuous_mode_lossless) simp

text \<open>
  After a start-up in which at least as many quiet buffers arrive as the prebuffer has places,
  the prebuffer holds exactly the latest of them and no null pointer, and nothing has been published:
  the state from which the packet properties hold.
\<close>

theorem prebuffer_fills:
  assumes "circular_buffer ops contents capacity" and "\<not> continuous cfg"
    and "new_prebuffer_size cfg w = Inr n" and "1 \<le> n" and "nat n \<le> length bs"
    and "\<forall>b \<in> set bs. \<not> list_ex (above_threshold cfg) (samples b)"
  shows "\<exists>d'. run (detector_handle cfg ops) (Buffer_Size w # map Audio_In bs) (detector_init ops)
             = Inr (d', [])
           \<and> \<not> in_packet d' \<and> capacity (prebuffer d') = nat n
           \<and> contents (prebuffer d') = map Some (drop (length bs - nat n) bs)"
proof -
  note L = detector_prebuffer.intro [OF assms(1)] and C = assms(1)
  let ?d1 = "(detector_init ops)\<lparr>prebuffer := cb_resize ops (nat n) None (cb_new ops 1)\<rparr>"
  have c1: "contents (prebuffer ?d1) = replicate (nat n) None" "capacity (prebuffer ?d1) = nat n"
    using assms(4) circular_buffer.contents_resize [OF C] circular_buffer.capacity_resize [OF C]
      circular_buffer.contents_new [OF C] circular_buffer.capacity_new [OF C]
    by (simp_all add: resized_def)
  have "detector_handle cfg ops (Buffer_Size w) (detector_init ops) = Inr (?d1, [])"
    using assms(3,4) by (simp add: resize_prebuffer_def)
  moreover have "\<exists>q. run (detector_handle cfg ops) (map Audio_In bs) ?d1 = Inr (?d1\<lparr>prebuffer := q\<rparr>, [])
      \<and> capacity q = nat n \<and> contents q = drop (length bs) (contents (prebuffer ?d1) @ map Some bs)"
    by (rule detector_prebuffer.run_quiet [OF L assms(2,6)]) (use assms(4) c1 in simp_all)
  ultimately show ?thesis
    using assms(5) unfolding c1(1) by (auto simp: run_Cons_Inr drop_map)
qed

theorem prebuffer_fills_witness:
  "\<exists>d'. run (detector_handle example_cfg list_cbuf)
       (Buffer_Size 1 # map Audio_In [still 0, still 1, still 2, still 3]) (detector_init list_cbuf)
     = Inr (d', []) \<and> \<not> in_packet d' \<and> snd (prebuffer d') = map Some [still 1, still 2, still 3]"
  using prebuffer_fills [OF list_cbuf.circular_buffer_axioms, of example_cfg 1 3
      "[still 0, still 1, still 2, still 3]"]
  by (auto simp: still_def)

text \<open>
  C9: A detection while the front of the prebuffer is still a null pointer loses the START of the
  packet: the detector enters the packet and publishes nothing, and the prebuffer keeps its old
  content, so that it can be published with a later packet.
\<close>

theorem null_front_loses_start:
  assumes "circular_buffer ops contents capacity" and "\<not> continuous cfg" and "\<not> in_packet d"
    and "list_ex (above_threshold cfg) (samples b)" and "0 < capacity (prebuffer d)"
    and "hd (pushed (capacity (prebuffer d)) (Some b) (contents (prebuffer d))) = None"
  shows "\<exists>d'. audio_in cfg ops b d = Inr (d', []) \<and> in_packet d'
           \<and> in_packet_id d' = global_packet_id d
           \<and> contents (prebuffer d') =
               pushed (capacity (prebuffer d)) (Some b) (contents (prebuffer d))"
  using assms pushed_not_Nil [OF assms(5)] circular_buffer.contents_push_back [OF assms(1)]
    circular_buffer.empty_contents [OF assms(1)] circular_buffer.front_contents [OF assms(1)]
  by (simp add: audio_in_def start_packet_def Let_def)

theorem null_front_loses_start_witness:
  "\<exists>d'. audio_in example_cfg list_cbuf (loud 1)
       ((detector_init list_cbuf)\<lparr>prebuffer := (3, [None, None, None])\<rparr>) = Inr (d', [])
     \<and> in_packet d' \<and> snd (prebuffer d') = [None, None, Some (loud 1)]"
  using null_front_loses_start [OF list_cbuf.circular_buffer_axioms, of example_cfg
      "(detector_init list_cbuf)\<lparr>prebuffer := (3, [None, None, None])\<rparr>" "loud 1"]
  by (auto simp: loud_def pushed_def)

lemma resized_examples:
  "resized 3 None [] = [None, None, None]" "resized 4 None [] = [None, None, None, None]"
  "resized 2 None [x] = [x, None]"
  by (simp_all add: resized_def numeral_eq_Suc)

text \<open>
  After such a lost START the kept buffer is published later, out of order: here the buffer
  captured first, whose packet had no START, comes after the END of that packet, as the START of the
  next packet and in front of audio captured three buffers later.
\<close>

theorem stale_buffer_published_late:
  "\<exists>d. run (detector_handle example_cfg list_cbuf)
        (Buffer_Size 1 # map Audio_In [loud 1, still 2, still 3, loud 4]) (detector_init list_cbuf)
      = Inr (d, [tagged (Some (still 2)) END 0, tagged (Some (loud 1)) START 1,
                 tagged (Some (still 3)) NONE 1, tagged (Some (loud 4)) NONE 1])"
  by (simp add: audio_in_def start_packet_def Let_def drain.simps list_cbuf_def resize_prebuffer_def
      loud_def still_def resized_examples pushed_def)

text \<open>
  If the buffer size of the sound server doubles shortly after a packet, the resized prebuffer
  has null pointers behind its oldest buffer, and the next detection publishes one of them: a message
  with a null buffer reaches the threads that consume the packet.
\<close>

theorem null_buffer_published:
  "\<exists>d outs. run (detector_handle (example_cfg\<lparr>sampling_freq := 4\<rparr>) list_cbuf)
        ([Buffer_Size 1] @ map Audio_In [still 0, still 1, still 2, loud 3, still 4, still 5, still 6]
          @ [Buffer_Size 2, Audio_In (loud 7)]) (detector_init list_cbuf)
      = Inr (d, outs @ [tagged (Some (still 6)) START 1, tagged None NONE 1,
                        tagged (Some (loud 7)) NONE 1])"
proof -
  let ?cfg = "example_cfg\<lparr>sampling_freq := 4\<rparr>"
  have "new_prebuffer_size ?cfg 1 = Inr 4" and "new_prebuffer_size ?cfg 2 = Inr 2"
    and "silent_limit ?cfg = Fin 4" and "\<And>x. above_threshold ?cfg (Fin x) \<longleftrightarrow> 1 \<le> \<bar>x\<bar>"
    by (simp_all add: example_cfg_def default_core_config_def silent_limit_def fp_of_int_def
        new_prebuffer_size_def rat_trunc_def above_threshold_def)
  then show ?thesis
    by (simp add: audio_in_def start_packet_def Let_def drain.simps list_cbuf_def
        resize_prebuffer_def loud_def still_def resized_examples pushed_def)
qed

end
