(* ===== verification/Jack.thy ===== *)
theory Jack
  imports Packet_Stream
begin

text \<open>
  The interface to the sound server (\<open>JackThread\<close>, \<open>src/apps/netsim_core/jack_thread.h\<close>): one
  thread per transmitting modem. Its real-time callback \<open>jack_process\<close> records one period of audio
  into the queue \<open>audio_in_buffer\<close> and plays one period for every local modem out of the queues
  \<open>audio_out_buffer\<close>; \<open>audio_out\<close> fills those queues with what the processors publish; \<open>loop\<close>
  publishes the recorded buffers.

  The callback, the subscriptions and the loop run in different threads. Each access to a queue is
  a critical section of its mutex, so every interleaving of the threads is a sequence of the events
  of \<open>jack_handle\<close>; the three parts of \<open>loop\<close> (take the front under the lock, publish without it,
  pop the front under the lock) are three events, and \<open>loop_pc\<close> says which comes next.

  The server, its ports and the clock are the environment: \<open>process_env\<close> carries what one call of
  the callback reads from them. Log output is not modelled, except that the two places where audio is
  recorded or dropped are visible as the outputs \<open>Captured\<close> and \<open>Overflow\<close>.
\<close>

section \<open>State\<close>

datatype loop_pc = Waiting | Holding audio_buffer | Sent

record jack_thread =
  input_port :: bool
  output_port :: "nat \<Rightarrow> bool"
  buffer_size :: "32 word"
  audio_in_buffer :: "audio_buffer list"
  audio_out_buffer :: "int \<Rightarrow> tagged_audio_buffer list"
  audio_out_index :: "int \<Rightarrow> nat"
  new_packet :: "int \<Rightarrow> bool"
  empty_buffer :: "tagged_audio_buffer option"
  loop_pc :: loop_pc

record process_env =
  nframes :: "32 word"
  now :: fp
  last_frame_time :: "32 word"
  captured :: "fp list"

datatype jack_event =
    Process process_env
  | Audio_Out tagged_audio_buffer int
  | Set_Buffer_Size "32 word"
  | Loop_Take | Loop_Publish | Loop_Pop
  | Xrun | Shutdown

datatype jack_output =
    Captured audio_buffer
  | Played "fp list option list"
  | Publish_Audio_In audio_buffer
  | Publish_Buffer_Size "32 word"
  | Overflow "audio_buffer list"

section \<open>Ports of the constructor\<close>

definition do_capture :: "core_config \<Rightarrow> int \<Rightarrow> bool" where
  "do_capture cfg modem \<longleftrightarrow>
     first_modem_index cfg \<le> modem
     \<and> modem < first_modem_index cfg + local_number_of_modems cfg"

text \<open>
  The number appended to the capture and the playback prefix. An absent \<open>bridge\<close> message has the
  default 0 as its \<open>first_modem_index\<close>.
\<close>

definition capture_port_number :: "core_config \<Rightarrow> int \<Rightarrow> int" where
  "capture_port_number cfg modem =
     modem + port_name_starting_index (jack_cfg cfg) - first_modem_index cfg"

definition playback_port_number :: "core_config \<Rightarrow> nat \<Rightarrow> int" where
  "playback_port_number cfg i = int i + port_name_starting_index (jack_cfg cfg)"

text \<open>The modem that output port \<open>i\<close> plays to.\<close>

definition port_modem :: "core_config \<Rightarrow> nat \<Rightarrow> int" where
  "port_modem cfg i = int i + first_modem_index cfg"

definition jack_init :: "core_config \<Rightarrow> int \<Rightarrow> jack_thread" where
  "jack_init cfg modem =
     \<lparr>input_port = do_capture cfg modem,
      output_port = (\<lambda>i. int i < local_number_of_modems cfg),
      buffer_size = 0, audio_in_buffer = [], audio_out_buffer = (\<lambda>_. []),
      audio_out_index = (\<lambda>_. 0), new_packet = (\<lambda>_. False), empty_buffer = None,
      loop_pc = Waiting\<rparr>"

section \<open>The process callback\<close>

text \<open>Recording: the period is copied into a buffer of the announced size.\<close>

definition capture_step ::
    "process_env \<Rightarrow> jack_thread \<Rightarrow> (jack_thread \<times> jack_output list) res" where
  "capture_step env j =
     (if \<not> input_port j then Inr (j, [])
      else if unat (nframes env) \<le> unat (buffer_size j) then
        (let rx = \<lparr>buffer_start_time = now env, jack_frame_time = last_frame_time env,
                   samples = take (unat (nframes env)) (captured env)
                     @ replicate (unat (buffer_size j) - unat (nframes env)) (Fin 0)\<rparr>
         in Inr (j\<lparr>audio_in_buffer := audio_in_buffer j @ [rx]\<rparr>, [Captured rx]))
      else Inl Undefined_Behaviour)"

text \<open>Continuous mode: the latest buffer is copied as it is.\<close>

definition play_continuous ::
    "process_env \<Rightarrow> int \<Rightarrow> jack_thread \<Rightarrow> (jack_thread \<times> fp list option) res" where
  "play_continuous env m j =
     (case audio_out_buffer j m of
        [] \<Rightarrow> Inr (j, None)
      | tx # _ \<Rightarrow>
          (case tbuffer tx of
             None \<Rightarrow> Inl Undefined_Behaviour
           | Some b \<Rightarrow>
               if unat (nframes env) \<le> length (samples b)
               then Inr (j, Some (take (unat (nframes env)) (samples b)))
               else Inl Undefined_Behaviour))"

text \<open>
  The frame of this period at which a new packet begins; \<open>fs_\<close> is the sampling frequency as an
  unsigned number. The conversion of the product to \<open>jack_nframes_t\<close> is undefined outside its range.
\<close>

definition fs_of :: "core_config \<Rightarrow> 32 word" where
  "fs_of cfg = word_of_int (sampling_freq cfg)"

definition frame_start_of :: "core_config \<Rightarrow> process_env \<Rightarrow> audio_buffer \<Rightarrow> int res" where
  "frame_start_of cfg env b =
     (if now env < buffer_start_time b then
        to_uint32 (d_mul (d_sub (d_sub (buffer_start_time b) (now env))
                                (calibration_seconds (jack_cfg cfg)))
                         (d_of_int (uint (fs_of cfg))))
      else Inr 0)"

text \<open>
  The inner loop: while the index is behind the current buffer, drop the front of the queue and
  go on with the next buffer, or with the silent \<open>empty_buffer\<close> when the queue runs out. Popping
  an empty queue is undefined, and so is following a null pointer.
\<close>

function refill ::
    "tagged_audio_buffer option \<Rightarrow> tagged_audio_buffer \<Rightarrow> tagged_audio_buffer list \<Rightarrow> nat
      \<Rightarrow> (tagged_audio_buffer \<times> tagged_audio_buffer list \<times> nat) res" where
  "refill e tx q idx =
     (case tbuffer tx of
        None \<Rightarrow> Inl Undefined_Behaviour
      | Some b \<Rightarrow>
          if idx < length (samples b) then Inr (tx, q, idx)
          else
            (case q of
               [] \<Rightarrow> Inl Undefined_Behaviour
             | _ # q' \<Rightarrow>
                 (case q' of
                    [] \<Rightarrow> (case e of None \<Rightarrow> Inl Undefined_Behaviour | Some eb \<Rightarrow> refill e eb q' 0)
                  | t # _ \<Rightarrow> refill e t q' 0)))"
  by pat_completeness auto
termination
  by (relation "measure (\<lambda>(e, tx, q, idx). length q)") auto

declare refill.simps [simp del]

fun play_frames ::
    "tagged_audio_buffer option \<Rightarrow> int \<Rightarrow> nat list \<Rightarrow> tagged_audio_buffer
      \<Rightarrow> tagged_audio_buffer list \<Rightarrow> nat \<Rightarrow> (fp list \<times> tagged_audio_buffer list \<times> nat) res" where
  "play_frames e frame_start [] tx q idx = Inr ([], q, idx)"
| "play_frames e frame_start (frame # frames) tx q idx =
     (if int frame < frame_start then
        res_bind (play_frames e frame_start frames tx q idx)
          (\<lambda>(out, q', idx'). Inr (Fin 0 # out, q', idx'))
      else
        res_bind (refill e tx q idx) (\<lambda>(tx', q', idx').
          case tbuffer tx' of
            None \<Rightarrow> Inl Undefined_Behaviour
          | Some b \<Rightarrow>
              res_bind (play_frames e frame_start frames tx' q' (Suc idx'))
                (\<lambda>(out, q'', idx''). Inr (samples b ! idx' # out, q'', idx''))))"

definition play_samples ::
    "process_env \<Rightarrow> int \<Rightarrow> int \<Rightarrow> tagged_audio_buffer \<Rightarrow> jack_thread
      \<Rightarrow> (jack_thread \<times> fp list option) res" where
  "play_samples env m frame_start tx j =
     res_bind
       (play_frames (empty_buffer j) frame_start [0..<unat (nframes env)] tx
          (audio_out_buffer j m) (audio_out_index j m))
       (\<lambda>(out, q, idx).
          Inr (j\<lparr>audio_out_buffer := (audio_out_buffer j)(m := q),
                 audio_out_index := (audio_out_index j)(m := idx)\<rparr>, Some out))"

text \<open>Packet mode for one modem. \<open>None\<close>: the port's buffer is left as it is.\<close>

definition play_packet ::
    "core_config \<Rightarrow> process_env \<Rightarrow> int \<Rightarrow> jack_thread \<Rightarrow> (jack_thread \<times> fp list option) res" where
  "play_packet cfg env m j =
     (case audio_out_buffer j m of
        [] \<Rightarrow> Inr (j, None)
      | tx # _ \<Rightarrow>
          if new_packet j m then
            (case tbuffer tx of
               None \<Rightarrow> Inl Undefined_Behaviour
             | Some b \<Rightarrow>
                 (let j1 = j\<lparr>audio_out_index := (audio_out_index j)(m := 0)\<rparr>
                  in res_bind (frame_start_of cfg env b) (\<lambda>frame_start.
                       if uint (nframes env) < frame_start then Inr (j1, None)
                       else if length (audio_out_buffer j m)
                               < as_size_t (min_playback_buffer_size (jack_cfg cfg))
                       then Inr (j1, None)
                       else play_samples env m frame_start tx
                              (j1\<lparr>new_packet := (new_packet j)(m := False)\<rparr>))))
          else play_samples env m 0 tx j)"

fun play_ports ::
    "core_config \<Rightarrow> process_env \<Rightarrow> nat list \<Rightarrow> jack_thread
      \<Rightarrow> (jack_thread \<times> fp list option list) res" where
  "play_ports cfg env [] j = Inr (j, [])"
| "play_ports cfg env (i # is) j =
     res_bind
       (if \<not> output_port j i then Inr (j, None)
        else if continuous cfg then play_continuous env (port_modem cfg i) j
        else play_packet cfg env (port_modem cfg i) j)
       (\<lambda>(j', out). res_bind (play_ports cfg env is j') (\<lambda>(j'', outs). Inr (j'', out # outs)))"

definition jack_process ::
    "core_config \<Rightarrow> process_env \<Rightarrow> jack_thread \<Rightarrow> (jack_thread \<times> jack_output list) res" where
  "jack_process cfg env j =
     res_bind (capture_step env j) (\<lambda>(j1, rec).
       res_bind (play_ports cfg env [0..<nat (local_number_of_modems cfg)] j1)
         (\<lambda>(j2, outs). Inr (j2, rec @ [Played outs])))"

section \<open>The other operations\<close>

text \<open>Only the thread of modem 0 announces a new buffer size.\<close>

definition jack_buffer_size_change ::
    "int \<Rightarrow> 32 word \<Rightarrow> jack_thread \<Rightarrow> jack_thread \<times> jack_output list" where
  "jack_buffer_size_change modem n j =
     (j\<lparr>buffer_size := n,
        empty_buffer := Some (tagged_default\<lparr>tbuffer := Some (audio_buffer_of_size (unat n))\<rparr>)\<rparr>,
      if modem = 0 then [Publish_Buffer_Size n] else [])"

text \<open>
  In continuous mode the queue is resized to one element, which is overwritten: it holds the new
  buffer only.
\<close>

definition audio_out ::
    "core_config \<Rightarrow> tagged_audio_buffer \<Rightarrow> int \<Rightarrow> jack_thread \<Rightarrow> jack_thread" where
  "audio_out cfg t m j =
     (if continuous cfg then j\<lparr>audio_out_buffer := (audio_out_buffer j)(m := [t])\<rparr>
      else
        (let j1 = (if tmarker t = START
                   then j\<lparr>audio_out_buffer := (audio_out_buffer j)(m := []),
                          new_packet := (new_packet j)(m := True)\<rparr>
                   else j)
         in j1\<lparr>audio_out_buffer := (audio_out_buffer j1)(m := audio_out_buffer j1 m @ [t])\<rparr>))"

text \<open>
  \<open>loop\<close>: wait for a recorded buffer; too many of them are all dropped; else the front is published
  and then popped.
\<close>

definition loop_take ::
    "core_config \<Rightarrow> jack_thread \<Rightarrow> jack_thread \<times> jack_output list" where
  "loop_take cfg j =
     (case audio_in_buffer j of
        [] \<Rightarrow> (j, [])
      | b # _ \<Rightarrow>
          if as_size_t (max_buffer_size (jack_cfg cfg)) \<le> length (audio_in_buffer j)
          then (j\<lparr>audio_in_buffer := []\<rparr>, [Overflow (audio_in_buffer j)])
          else (j\<lparr>loop_pc := Holding b\<rparr>, []))"

definition loop_pop :: "jack_thread \<Rightarrow> jack_thread res" where
  "loop_pop j =
     (case audio_in_buffer j of
        [] \<Rightarrow> Inl Undefined_Behaviour
      | _ # q \<Rightarrow> Inr (j\<lparr>audio_in_buffer := q, loop_pc := Waiting\<rparr>))"

text \<open>The server reports lost samples, or that it has gone: the first is only logged.\<close>

definition jack_xrun :: "jack_thread \<Rightarrow> (jack_thread \<times> jack_output list) res" where
  "jack_xrun j = Inr (j, [])"

definition jack_shutdown :: "jack_thread \<Rightarrow> (jack_thread \<times> jack_output list) res" where
  "jack_shutdown j = Inl Die"

fun jack_handle ::
    "core_config \<Rightarrow> int \<Rightarrow> (jack_event, jack_thread, jack_output) handler" where
  "jack_handle cfg modem (Process env) j = jack_process cfg env j"
| "jack_handle cfg modem (Audio_Out t m) j = Inr (audio_out cfg t m j, [])"
| "jack_handle cfg modem (Set_Buffer_Size n) j = Inr (jack_buffer_size_change modem n j)"
| "jack_handle cfg modem Loop_Take j =
     (if do_capture cfg modem \<and> loop_pc j = Waiting then Inr (loop_take cfg j) else Inr (j, []))"
| "jack_handle cfg modem Loop_Publish j =
     (case loop_pc j of
        Holding b \<Rightarrow> Inr (j\<lparr>loop_pc := Sent\<rparr>, [Publish_Audio_In b])
      | _ \<Rightarrow> Inr (j, []))"
| "jack_handle cfg modem Loop_Pop j =
     (if loop_pc j = Sent then res_bind (loop_pop j) (\<lambda>j'. Inr (j', [])) else Inr (j, []))"
| "jack_handle cfg modem Xrun j = jack_xrun j"
| "jack_handle cfg modem Shutdown j = jack_shutdown j"

section \<open>Playback as a stream\<close>

text \<open>
  What the playback of one modem promises: the queue and the index stand for the stream of samples
  that have still to be played; a period takes its samples from the front of that stream and is
  filled up with silence.
\<close>

definition samples_of :: "tagged_audio_buffer \<Rightarrow> fp list" where
  "samples_of t = (case tbuffer t of None \<Rightarrow> [] | Some b \<Rightarrow> samples b)"

definition nonnull :: "tagged_audio_buffer list \<Rightarrow> bool" where
  "nonnull q \<longleftrightarrow> (\<forall>t \<in> set q. tbuffer t \<noteq> None)"

fun pending :: "tagged_audio_buffer list \<Rightarrow> nat \<Rightarrow> fp list" where
  "pending [] idx = []"
| "pending (t # ts) idx = drop idx (samples_of t) @ concat (map samples_of ts)"

definition silent :: "nat \<Rightarrow> tagged_audio_buffer \<Rightarrow> bool" where
  "silent n e \<longleftrightarrow> (\<exists>z. tbuffer e = Some z \<and> samples z = replicate n (Fin 0))"

lemma nonnull_simps [simp]:
  "nonnull []" "nonnull (t # ts) \<longleftrightarrow> tbuffer t \<noteq> None \<and> nonnull ts"
  "nonnull (xs @ ys) \<longleftrightarrow> nonnull xs \<and> nonnull ys"
  by (auto simp: nonnull_def)

lemma refill_spec:
  assumes "silent n e" and "0 < n"
  shows "nonnull q \<Longrightarrow> q \<noteq> [] \<Longrightarrow>
    \<exists>tx q' idx'. refill (Some e) (hd q) q idx = Inr (tx, q', idx') \<and> nonnull q' \<and> suffix q' q
      \<and> (if pending q idx = [] then q' = [] \<and> tx = e \<and> idx' = 0
         else q' \<noteq> [] \<and> tx = hd q' \<and> idx' < length (samples_of tx)
            \<and> pending q' idx' = pending q idx)"
proof (induction q arbitrary: idx)
  case Nil
  then show ?case by simp
next
  case (Cons t ts)
  from Cons.prems obtain b where b: "tbuffer t = Some b" and ts: "nonnull ts" by auto
  then have st: "samples_of t = samples b" by (simp add: samples_of_def)
  show ?case
  proof (cases "idx < length (samples b)")
    case True
    with b st ts show ?thesis by (subst refill.simps) auto
  next
    case False
    show ?thesis
    proof (cases ts)
      case Nil
      from assms obtain z where "tbuffer e = Some z" and "samples z = replicate n (Fin 0)"
        by (auto simp: silent_def)
      with assms(2) have "refill (Some e) e [] 0 = Inr (e, [], 0)" by (subst refill.simps) simp
      with False Nil b st show ?thesis by (subst refill.simps) auto
    next
      case (Cons t' ts')
      with Cons.IH [of 0] ts obtain tx q' idx' where
        r: "refill (Some e) t' ts 0 = Inr (tx, q', idx')" and n: "nonnull q'" "suffix q' ts" and
        s: "if pending ts 0 = [] then q' = [] \<and> tx = e \<and> idx' = 0
         else q' \<noteq> [] \<and> tx = hd q' \<and> idx' < length (samples_of tx) \<and> pending q' idx' = pending ts 0"
        by auto
      have "refill (Some e) t (t # ts) idx = refill (Some e) t' ts 0"
        using False Cons b by (subst refill.simps) simp
      moreover have "pending (t # ts) idx = pending ts 0" using False st Cons by simp
      ultimately show ?thesis using r n s by (cases "pending ts 0 = []") (auto intro: suffix_ConsI)
    qed
  qed
qed

lemma play_frames_silent:
  "silent n e \<Longrightarrow> idx + length frames \<le> n \<Longrightarrow> \<forall>f \<in> set frames. frame_start \<le> int f
    \<Longrightarrow> play_frames (Some e) frame_start frames e [] idx
          = Inr (replicate (length frames) (Fin 0), [], idx + length frames)"
proof (induction frames arbitrary: idx)
  case Nil
  then show ?case by simp
next
  case (Cons f fs)
  then obtain z where z: "tbuffer e = Some z" "samples z = replicate n (Fin 0)"
    by (auto simp: silent_def)
  with Cons.prems have "refill (Some e) e [] idx = Inr (e, [], idx)"
    by (subst refill.simps) simp
  with Cons.prems z Cons.IH [OF Cons.prems(1), of "Suc idx"] show ?case by simp
qed

lemma pending_Suc: "idx < length (samples_of t) \<Longrightarrow>
    pending (t # ts) idx = samples_of t ! idx # pending (t # ts) (Suc idx)"
  by (simp add: Cons_nth_drop_Suc [symmetric])

lemma play_frames_live:
  "silent n e \<Longrightarrow> length frames \<le> n \<Longrightarrow> \<forall>f \<in> set frames. frame_start \<le> int f
    \<Longrightarrow> nonnull q \<Longrightarrow> q \<noteq> []
    \<Longrightarrow> \<exists>q' idx'. play_frames (Some e) frame_start frames (hd q) q idx
            = Inr (take (length frames) (pending q idx @ replicate (length frames) (Fin 0)), q', idx')
          \<and> nonnull q' \<and> suffix q' q \<and> pending q' idx' = drop (length frames) (pending q idx)
          \<and> (q' = [] \<longrightarrow> idx' + length (pending q idx) = length frames)
          \<and> (q' \<noteq> [] \<longrightarrow> length frames \<le> length (pending q idx))"
proof (induction frames arbitrary: q idx)
  case Nil
  then show ?case by auto
next
  case (Cons f fs)
  let ?k = "length fs"
  from Cons.prems have "0 < n" by auto
  from refill_spec [OF Cons.prems(1) this Cons.prems(4,5), of idx] obtain tx q1 idx1
    where r: "refill (Some e) (hd q) q idx = Inr (tx, q1, idx1)" and n1: "nonnull q1" and s1: "suffix q1 q"
      and s: "if pending q idx = [] then q1 = [] \<and> tx = e \<and> idx1 = 0
         else q1 \<noteq> [] \<and> tx = hd q1 \<and> idx1 < length (samples_of tx) \<and> pending q1 idx1 = pending q idx"
    by auto
  show ?case
  proof (cases "pending q idx = []")
    case True
    from Cons.prems obtain z where z: "tbuffer e = Some z" "samples z = replicate n (Fin 0)"
      by (auto simp: silent_def)
    have "play_frames (Some e) frame_start fs e [] 1 = Inr (replicate ?k (Fin 0), [], 1 + ?k)"
      using play_frames_silent [OF Cons.prems(1), of 1 fs frame_start] Cons.prems(2,3) by simp
    with True r s z Cons.prems show ?thesis by simp
  next
    case False
    with s n1 obtain t ts b where q1: "q1 = t # ts" and b: "tbuffer t = Some b" and tx: "tx = t"
      and idx1: "idx1 < length (samples_of t)"
      by (cases q1) auto
    have st: "samples_of t = samples b" using b by (simp add: samples_of_def)
    from False s q1 idx1 have p: "pending q idx = samples_of t ! idx1 # pending q1 (Suc idx1)"
      by (simp only: pending_Suc [of idx1 t ts, symmetric]) simp
    from Cons.IH [OF Cons.prems(1) _ _ n1, of "Suc idx1"] Cons.prems q1 obtain q' idx'
      where "play_frames (Some e) frame_start fs t q1 (Suc idx1)
              = Inr (take ?k (pending q1 (Suc idx1) @ replicate ?k (Fin 0)), q', idx')"
        and "nonnull q'" and "suffix q' q1" and "pending q' idx' = drop ?k (pending q1 (Suc idx1))"
        and "q' = [] \<longrightarrow> idx' + length (pending q1 (Suc idx1)) = ?k"
        and "q' \<noteq> [] \<longrightarrow> ?k \<le> length (pending q1 (Suc idx1))"
      by auto
    with r tx b p st s1 Cons.prems(3) show ?thesis
      by (auto simp: replicate_append_same [symmetric] take_Suc_Cons simp del: replicate.simps
          intro: suffix_order.order_trans)
  qed
qed

lemma play_frames_wait:
  "\<forall>f \<in> set frames. int f < frame_start
    \<Longrightarrow> play_frames e frame_start (frames @ frames') tx q idx
        = res_bind (play_frames e frame_start frames' tx q idx)
            (\<lambda>(out, q', idx'). Inr (replicate (length frames) (Fin 0) @ out, q', idx'))"
proof (induction frames)
  case Nil
  then show ?case by (cases "play_frames e frame_start frames' tx q idx") auto
next
  case (Cons f fs)
  then show ?case by (cases "play_frames e frame_start frames' tx q idx") auto
qed


lemma split_frames: "f \<le> n \<Longrightarrow> [0..<n] = [0..<f] @ [f..<n]"
  by (metis le_add_diff_inverse upt_add_eq_append zero_le)

text \<open>One period of playback from a frame on.\<close>

lemma play_samples_spec:
  assumes "silent n e" and "empty_buffer j = Some e" and "unat (nframes env) \<le> n"
    and "nonnull (audio_out_buffer j m)" and "audio_out_buffer j m \<noteq> []"
    and "0 \<le> frame_start"
  defines "k \<equiv> unat (nframes env) - nat frame_start"
    and "s \<equiv> pending (audio_out_buffer j m) (audio_out_index j m)"
  shows "\<exists>q idx. play_samples env m frame_start (hd (audio_out_buffer j m)) j =
             Inr (j\<lparr>audio_out_buffer := (audio_out_buffer j)(m := q),
                    audio_out_index := (audio_out_index j)(m := idx)\<rparr>,
                  Some (replicate (min (nat frame_start) (unat (nframes env))) (Fin 0)
                        @ take k (s @ replicate k (Fin 0))))
           \<and> nonnull q \<and> suffix q (audio_out_buffer j m) \<and> pending q idx = drop k s
           \<and> (q = [] \<longrightarrow> idx + length s = k) \<and> (q \<noteq> [] \<longrightarrow> k \<le> length s)"
proof -
  let ?f = "min (nat frame_start) (unat (nframes env))"
  let ?q = "audio_out_buffer j m" and ?idx = "audio_out_index j m"
  have frames: "[0..<unat (nframes env)] = [0..<?f] @ [?f..<unat (nframes env)]"
    by (rule split_frames) simp
  have k: "length [?f..<unat (nframes env)] = k" by (auto simp: k_def)
  have "\<forall>f \<in> set [?f..<unat (nframes env)]. frame_start \<le> int f" using assms(6) by auto
  moreover have "length [?f..<unat (nframes env)] \<le> n" using assms(3) by simp
  ultimately have "\<exists>q idx. play_frames (Some e) frame_start [?f..<unat (nframes env)] (hd ?q) ?q ?idx
       = Inr (take k (s @ replicate k (Fin 0)), q, idx)
    \<and> nonnull q \<and> suffix q ?q \<and> pending q idx = drop k s \<and> (q = [] \<longrightarrow> idx + length s = k)
    \<and> (q \<noteq> [] \<longrightarrow> k \<le> length s)"
    using play_frames_live [OF assms(1) _ _ assms(4,5), of "[?f..<unat (nframes env)]" frame_start ?idx]
    unfolding k s_def by blast
  then obtain q idx where
    "play_frames (Some e) frame_start [?f..<unat (nframes env)] (hd ?q) ?q ?idx
       = Inr (take k (s @ replicate k (Fin 0)), q, idx)"
    and "nonnull q" and "suffix q ?q" and "pending q idx = drop k s"
    and "q = [] \<longrightarrow> idx + length s = k" and "q \<noteq> [] \<longrightarrow> k \<le> length s"
    by blast
  moreover have "\<forall>f \<in> set [0..<?f]. int f < frame_start" by auto
  ultimately show ?thesis
    by (intro exI [of _ q] exI [of _ idx])
       (simp add: play_samples_def assms(2) frames play_frames_wait)
qed

section \<open>The callback never faults\<close>

text \<open>
  What the environment has to keep for the callback to be defined: no continuous mode, a
  calibration that does not move the start of a packet before the present (\<open>- C \<le> calibration \<le> 0\<close>),
  a period of at most \<open>B\<close> frames, buffer sizes of at least \<open>B\<close>, and packets that start between the
  time origin \<open>t0\<close> and \<open>H\<close> seconds after it, where \<open>H + C\<close> seconds of audio have fewer than
  \<open>2 ^ 32\<close> samples.
\<close>

definition timely_cfg :: "core_config \<Rightarrow> nat \<Rightarrow> nat \<Rightarrow> bool" where
  "timely_cfg cfg H C \<longleftrightarrow>
     \<not> continuous cfg
     \<and> (\<exists>c. calibration_seconds (jack_cfg cfg) = Fin c \<and> - of_nat C \<le> c \<and> c \<le> 0)
     \<and> uint (fs_of cfg) * int (H + C) < 2 ^ 32 \<and> int (H + C) < 2 ^ 52"

definition timely :: "rat \<Rightarrow> nat \<Rightarrow> tagged_audio_buffer \<Rightarrow> bool" where
  "timely t0 H t \<longleftrightarrow>
     (\<exists>b x. tbuffer t = Some b \<and> buffer_start_time b = Fin x \<and> t0 \<le> x \<and> x \<le> t0 + of_nat H)"

fun admissible :: "rat \<Rightarrow> nat \<Rightarrow> nat \<Rightarrow> jack_event \<Rightarrow> bool" where
  "admissible t0 H B (Process env) \<longleftrightarrow> unat (nframes env) \<le> B \<and> (\<exists>r. now env = Fin r \<and> t0 \<le> r)"
| "admissible t0 H B (Audio_Out t m) \<longleftrightarrow> timely t0 H t"
| "admissible t0 H B (Set_Buffer_Size n) \<longleftrightarrow> B \<le> unat n"
| "admissible t0 H B Shutdown \<longleftrightarrow> False"
| "admissible t0 H B _ \<longleftrightarrow> True"

definition jack_inv :: "rat \<Rightarrow> nat \<Rightarrow> nat \<Rightarrow> jack_thread \<Rightarrow> bool" where
  "jack_inv t0 H B j \<longleftrightarrow>
     B \<le> unat (buffer_size j)
     \<and> (\<exists>e. empty_buffer j = Some e \<and> silent (unat (buffer_size j)) e)
     \<and> (\<forall>m. \<forall>t \<in> set (audio_out_buffer j m). timely t0 H t)
     \<and> (loop_pc j \<noteq> Waiting \<longrightarrow> audio_in_buffer j \<noteq> [])"

lemma timely_nonnull: "\<forall>t \<in> set q. timely t0 H t \<Longrightarrow> nonnull q"
  by (auto simp: nonnull_def timely_def)

lemma rat_trunc_between:
  assumes "of_int a \<le> x" and "x \<le> of_int b"
  shows "a \<le> rat_trunc x \<and> rat_trunc x \<le> b"
  using assms by (auto simp: rat_trunc_def le_floor_iff floor_le_iff ceiling_le_iff le_ceiling_iff)

lemma frame_start_total:
  assumes cfg: "timely_cfg cfg H C" and "now env = Fin r" and "t0 \<le> r"
    and b: "buffer_start_time b = Fin x" "t0 \<le> x" "x \<le> t0 + of_nat H"
  shows "\<exists>f. frame_start_of cfg env b = Inr f \<and> 0 \<le> f \<and> f < 2 ^ 32"
proof (cases "r < x")
  case False
  with assms show ?thesis by (simp add: frame_start_of_def)
next
  case True
  from cfg obtain c where c: "calibration_seconds (jack_cfg cfg) = Fin c" "- of_nat C \<le> c" "c \<le> 0"
    and lim: "uint (fs_of cfg) * int (H + C) < 2 ^ 32" "int (H + C) < 2 ^ 52"
    by (auto simp: timely_cfg_def)
  have "of_int 0 \<le> x - r" "x - r \<le> of_int (int H)" using True assms(3) b by auto
  from d_round_between [OF this] lim(2) obtain y1
    where y1: "d_round (x - r) = Fin y1" "0 \<le> y1" "y1 \<le> of_nat H" by auto
  have "of_int 0 \<le> y1 - c" "y1 - c \<le> of_int (int (H + C))" using y1 c by auto
  from d_round_between [OF this] lim(2) obtain y2
    where y2: "d_round (y1 - c) = Fin y2" "0 \<le> y2" "y2 \<le> of_nat (H + C)" by auto
  define s where "s = uint (fs_of cfg)"
  have s: "0 \<le> s" "s < 2 ^ 32" using uint_lt2p [of "fs_of cfg"] by (simp_all add: s_def)
  have fs: "d_of_int s = Fin (of_int s)" using d_round_int [of s] s by (simp add: fp_of_int_def)
  have "y2 * of_int s \<le> of_nat (H + C) * of_int s"
    using y2 s by (intro mult_right_mono) auto
  also have "\<dots> = of_int (s * int (H + C))" by simp
  finally have "y2 * of_int s \<le> of_int (s * int (H + C))" .
  moreover have "of_int 0 \<le> y2 * of_int s" using y2 s by simp
  ultimately obtain y3 where y3: "d_round (y2 * of_int s) = Fin y3"
    "of_int 0 \<le> y3" "y3 \<le> of_int (s * int (H + C))"
    using d_round_between [of 0 "y2 * of_int s" "s * int (H + C)"] lim(1) s
    by (auto simp: s_def [symmetric])
  from rat_trunc_between [OF y3(2,3)] lim(1)
  have "0 \<le> rat_trunc y3 \<and> rat_trunc y3 < 2 ^ 32" by (auto simp: s_def)
  then show ?thesis
    using True assms(2) b c fs y1 y2 y3
    by (simp add: frame_start_of_def fp_sub_def s_def [symmetric])
qed

section \<open>Frame conditions\<close>

text \<open>Playing leaves everything but the playback queues and their indices alone.\<close>

definition same_capture :: "jack_thread \<Rightarrow> jack_thread \<Rightarrow> bool" where
  "same_capture j j' \<longleftrightarrow>
     input_port j' = input_port j \<and> output_port j' = output_port j \<and> audio_in_buffer j' = audio_in_buffer j \<and> loop_pc j' = loop_pc j
     \<and> buffer_size j' = buffer_size j \<and> empty_buffer j' = empty_buffer j"

lemma same_capture_refl [simp]: "same_capture j j"
  by (simp add: same_capture_def)

lemma same_capture_trans: "same_capture i j \<Longrightarrow> same_capture j k \<Longrightarrow> same_capture i k"
  by (simp add: same_capture_def)

lemma play_samples_same: "play_samples env m f tx j = Inr (j', out) \<Longrightarrow> same_capture j j'"
  by (auto simp: play_samples_def same_capture_def res_bind_eq_Inr)

lemma play_packet_same: "play_packet cfg env m j = Inr (j', out) \<Longrightarrow> same_capture j j'"
  by (auto simp: play_packet_def Let_def res_bind_eq_Inr same_capture_def
      dest!: play_samples_same split: list.splits option.splits if_splits)

lemma play_continuous_same: "play_continuous env m j = Inr (j', out) \<Longrightarrow> same_capture j j'"
  by (auto simp: play_continuous_def split: list.splits option.splits if_splits)

lemma play_ports_same: "play_ports cfg env is j = Inr (j', outs) \<Longrightarrow> same_capture j j'"
proof (induction "is" arbitrary: j outs)
  case Nil
  then show ?case by simp
next
  case (Cons i "is")
  from Cons.prems obtain j1 out outs1
    where "(if \<not> output_port j i then Inr (j, None)
        else if continuous cfg then play_continuous env (port_modem cfg i) j
        else play_packet cfg env (port_modem cfg i) j) = Inr (j1, out)"
      and "play_ports cfg env is j1 = Inr (j', outs1)"
    by (auto simp: res_bind_eq_Inr)
  moreover from this(1) have "same_capture j j1"
    by (auto dest: play_continuous_same play_packet_same split: if_splits)
  ultimately show ?case using Cons.IH by (blast intro: same_capture_trans)
qed

section \<open>Totality\<close>

lemma play_samples_total:
  assumes "jack_inv t0 H B j" and "unat (nframes env) \<le> B" and "0 \<le> f"
    and "audio_out_buffer j m \<noteq> []" and "tx = hd (audio_out_buffer j m)"
  shows "\<exists>j' out. play_samples env m f tx j = Inr (j', out) \<and> jack_inv t0 H B j'"
proof -
  from assms(1) obtain e where e: "silent (unat (buffer_size j)) e" "empty_buffer j = Some e"
    and B: "B \<le> unat (buffer_size j)"
    and q: "\<forall>m. \<forall>t \<in> set (audio_out_buffer j m). timely t0 H t"
    by (auto simp: jack_inv_def)
  have "unat (nframes env) \<le> unat (buffer_size j)" using assms(2) B by simp
  from play_samples_spec [OF e this timely_nonnull assms(4,3)] q obtain q' idx out
    where r: "play_samples env m f tx j = Inr (j\<lparr>audio_out_buffer := (audio_out_buffer j)(m := q'),
                    audio_out_index := (audio_out_index j)(m := idx)\<rparr>, out)"
      and "suffix q' (audio_out_buffer j m)"
    unfolding assms(5) by blast
  then have "\<forall>t \<in> set q'. timely t0 H t" using q set_mono_suffix by blast
  with r assms(1) q show ?thesis by (simp add: jack_inv_def)
qed

lemma play_packet_total:
  assumes inv: "jack_inv t0 H B j" and cfg: "timely_cfg cfg H C"
    and ok: "admissible t0 H B (Process env)"
  shows "\<exists>j' out. play_packet cfg env m j = Inr (j', out) \<and> jack_inv t0 H B j'"
proof (cases "audio_out_buffer j m")
  case Nil
  with inv show ?thesis by (simp add: play_packet_def)
next
  case (Cons tx ts)
  from ok obtain r where n: "unat (nframes env) \<le> B" and r: "now env = Fin r" "t0 \<le> r" by auto
  from Cons inv have "timely t0 H tx" by (metis jack_inv_def list.set_intros(1))
  then obtain b x where b: "tbuffer tx = Some b" "buffer_start_time b = Fin x" "t0 \<le> x"
    "x \<le> t0 + of_nat H" by (auto simp: timely_def)
  from frame_start_total [OF cfg r b(2-4)] obtain f where f: "frame_start_of cfg env b = Inr f" "0 \<le> f"
    by blast
  define j1 where "j1 = j\<lparr>audio_out_index := (audio_out_index j)(m := 0)\<rparr>"
  have inv1: "jack_inv t0 H B j1" "jack_inv t0 H B (j1\<lparr>new_packet := (new_packet j)(m := False)\<rparr>)"
    using inv by (simp_all add: jack_inv_def j1_def)
  have "\<exists>j' out. play_samples env m f tx (j1\<lparr>new_packet := (new_packet j)(m := False)\<rparr>) = Inr (j', out)
          \<and> jack_inv t0 H B j'"
    using Cons by (intro play_samples_total [OF inv1(2) n f(2)]) (simp_all add: j1_def)
  moreover have "\<exists>j' out. play_samples env m 0 tx j = Inr (j', out) \<and> jack_inv t0 H B j'"
    using Cons by (intro play_samples_total [OF inv n]) simp_all
  ultimately show ?thesis
    using Cons b f inv1 by (simp add: play_packet_def Let_def j1_def [symmetric])
qed

lemma play_ports_total:
  assumes "timely_cfg cfg H C" and "admissible t0 H B (Process env)"
  shows "jack_inv t0 H B j \<Longrightarrow> \<exists>j' outs. play_ports cfg env is j = Inr (j', outs) \<and> jack_inv t0 H B j'"
proof (induction "is" arbitrary: j)
  case Nil
  then show ?case by simp
next
  case (Cons i "is")
  have "\<exists>j1 out. (if \<not> output_port j i then Inr (j, None)
        else if continuous cfg then play_continuous env (port_modem cfg i) j
        else play_packet cfg env (port_modem cfg i) j) = Inr (j1, out) \<and> jack_inv t0 H B j1"
    using play_packet_total [OF Cons.prems assms, of "port_modem cfg i"] Cons.prems assms(1)
    by (auto simp: timely_cfg_def)
  then obtain j1 out where "(if \<not> output_port j i then Inr (j, None)
        else if continuous cfg then play_continuous env (port_modem cfg i) j
        else play_packet cfg env (port_modem cfg i) j) = Inr (j1, out)" and "jack_inv t0 H B j1"
    by blast
  moreover from Cons.IH [OF this(2)] obtain j2 outs
    where "play_ports cfg env is j1 = Inr (j2, outs)" and "jack_inv t0 H B j2" by blast
  ultimately show ?case by (simp only: play_ports.simps res_bind_Inr prod.case) auto
qed

lemma capture_step_total:
  assumes "jack_inv t0 H B j" and "unat (nframes env) \<le> B"
  shows "\<exists>j' rec. capture_step env j = Inr (j', rec) \<and> jack_inv t0 H B j'"
  using assms by (auto simp: capture_step_def Let_def jack_inv_def)

lemma jack_process_total:
  assumes "timely_cfg cfg H C" and "admissible t0 H B (Process env)" and "jack_inv t0 H B j"
  shows "\<exists>j' outs. jack_process cfg env j = Inr (j', outs) \<and> jack_inv t0 H B j'"
proof -
  from capture_step_total [OF assms(3), of env] assms(2) obtain j1 rec
    where c: "capture_step env j = Inr (j1, rec)" and "jack_inv t0 H B j1" by auto
  from play_ports_total [OF assms(1,2) this(2)] obtain j2 outs
    where "play_ports cfg env [0..<nat (local_number_of_modems cfg)] j1 = Inr (j2, outs)"
      and "jack_inv t0 H B j2" by blast
  with c show ?thesis by (simp add: jack_process_def)
qed

lemma silent_empty: "silent n (tagged_default\<lparr>tbuffer := Some (audio_buffer_of_size n)\<rparr>)"
  by (simp add: silent_def audio_buffer_of_size_def)

lemma jack_handle_total:
  assumes "timely_cfg cfg H C" and "admissible t0 H B ev" and "jack_inv t0 H B j"
  shows "\<exists>j' outs. jack_handle cfg modem ev j = Inr (j', outs) \<and> jack_inv t0 H B j'"
proof (cases ev)
  case (Process env)
  with jack_process_total [OF assms(1) _ assms(3)] assms(2) show ?thesis by simp
next
  case (Audio_Out t m)
  with assms show ?thesis by (auto simp: audio_out_def Let_def jack_inv_def timely_cfg_def)
next
  case (Set_Buffer_Size n)
  with assms show ?thesis by (auto simp: jack_buffer_size_change_def jack_inv_def silent_empty)
next
  case Loop_Take
  with assms show ?thesis by (auto simp: loop_take_def jack_inv_def split: list.splits)
next
  case Loop_Publish
  with assms show ?thesis by (auto simp: jack_inv_def split: loop_pc.splits)
next
  case Loop_Pop
  with assms show ?thesis by (cases "audio_in_buffer j") (auto simp: loop_pop_def jack_inv_def)
qed (use assms in \<open>simp_all add: jack_xrun_def\<close>)

interpretation jack: total_component "jack_handle cfg modem"
    "\<lambda>ev. timely_cfg cfg H C \<and> admissible t0 H B ev" "jack_inv t0 H B" for cfg modem H C t0 B
proof unfold_locales
  fix ev s s' out
  assume "timely_cfg cfg H C \<and> admissible t0 H B ev" and "jack_inv t0 H B s"
    and "jack_handle cfg modem ev s = Inr (s', out)"
  with jack_handle_total [of cfg H C t0 B ev s modem] show "jack_inv t0 H B s'" by auto
next
  fix ev s
  assume "timely_cfg cfg H C \<and> admissible t0 H B ev" and "jack_inv t0 H B s"
  then show "\<exists>s' out. jack_handle cfg modem ev s = Inr (s', out)" using jack_handle_total by blast
qed

section \<open>The recording queue\<close>

text \<open>What has been recorded and what has become of it.\<close>

fun recorded :: "jack_output \<Rightarrow> audio_buffer list" where
  "recorded (Captured b) = [b]"
| "recorded _ = []"

fun disposed :: "jack_output \<Rightarrow> audio_buffer list" where
  "disposed (Publish_Audio_In b) = [b]"
| "disposed (Overflow bs) = bs"
| "disposed _ = []"

fun published :: "jack_output \<Rightarrow> audio_buffer list" where
  "published (Publish_Audio_In b) = [b]"
| "published _ = []"

definition recording_hist ::
    "jack_event list \<Rightarrow> jack_output list \<Rightarrow> jack_thread \<Rightarrow> bool" where
  "recording_hist es os j \<longleftrightarrow>
     concat (map recorded os) = concat (map disposed os)
        @ (if loop_pc j = Sent then tl (audio_in_buffer j) else audio_in_buffer j)
     \<and> (loop_pc j \<noteq> Waiting \<longrightarrow> audio_in_buffer j \<noteq> [])
     \<and> (\<forall>b. loop_pc j = Holding b \<longrightarrow> hd (audio_in_buffer j) = b)"

lemma capture_step_eq:
  "capture_step env j = Inr (j', rec) \<Longrightarrow>
     loop_pc j' = loop_pc j \<and> concat (map disposed rec) = []
     \<and> audio_in_buffer j' = audio_in_buffer j @ concat (map recorded rec)"
  by (auto simp: capture_step_def Let_def split: if_splits)

lemma recording_step:
  assumes "recording_hist es os j" and "jack_handle cfg modem ev j = Inr (j', out)"
  shows "recording_hist (es @ [ev]) (os @ out) j'"
proof (cases ev)
  case (Process env)
  with assms(2) obtain j1 rec outs where
    c: "capture_step env j = Inr (j1, rec)" and out: "out = rec @ [Played outs]"
    and p: "play_ports cfg env [0..<nat (local_number_of_modems cfg)] j1 = Inr (j', outs)"
    by (auto simp: jack_process_def res_bind_eq_Inr)
  show ?thesis
    using assms(1) capture_step_eq [OF c] play_ports_same [OF p]
    by (auto simp: recording_hist_def same_capture_def out)
next
  case Loop_Take
  with assms show ?thesis
    by (auto simp: recording_hist_def loop_take_def split: list.splits if_splits)
next
  case Loop_Pop
  with assms show ?thesis
    by (auto simp: recording_hist_def loop_pop_def split: list.splits if_splits)
qed (use assms in \<open>auto simp: recording_hist_def audio_out_def Let_def jack_buffer_size_change_def
      jack_xrun_def jack_shutdown_def split: if_splits loop_pc.splits list.splits\<close>)

interpretation jack_recording: traced_component "jack_handle cfg modem" "\<lambda>_. True" recording_hist
  for cfg modem
  by unfold_locales (rule recording_step)

section \<open>Properties\<close>

text \<open>The stream of samples still to be played to modem \<open>m\<close>.\<close>

definition stream :: "jack_thread \<Rightarrow> int \<Rightarrow> fp list" where
  "stream j m = pending (audio_out_buffer j m) (audio_out_index j m)"

definition silence :: "nat \<Rightarrow> fp list" where
  "silence n = replicate n (Fin 0)"

text \<open>A configuration, a thread and a message for the closed theorems.\<close>

definition jack_cfg1 :: core_config where
  "jack_cfg1 = (default_core_config 1)
     \<lparr>jack_cfg := (jack_cfg (default_core_config 1))\<lparr>min_playback_buffer_size := 1\<rparr>\<rparr>"

definition sound :: "rat \<Rightarrow> rat list \<Rightarrow> audio_buffer" where
  "sound t xs = \<lparr>buffer_start_time = Fin t, jack_frame_time = 0, samples = map Fin xs\<rparr>"

definition playing :: "tagged_audio_buffer list \<Rightarrow> bool \<Rightarrow> jack_thread" where
  "playing q new = fst (jack_buffer_size_change 0 2 (jack_init jack_cfg1 0))
     \<lparr>audio_out_buffer := (\<lambda>_. []) (0 := q), new_packet := (\<lambda>_. new)\<rparr>"

definition period :: "rat \<Rightarrow> fp list \<Rightarrow> process_env" where
  "period t xs = \<lparr>nframes = 2, now = Fin t, last_frame_time = 0, captured = xs\<rparr>"

lemma jack_cfg1_simps [simp]:
  "first_modem_index jack_cfg1 = 0" "local_number_of_modems jack_cfg1 = 1"
  "continuous jack_cfg1 = False" "fs_of jack_cfg1 = 96000"
  "calibration_seconds (jack_cfg jack_cfg1) = Fin 0"
  "max_buffer_size (jack_cfg jack_cfg1) = 100"
  "min_playback_buffer_size (jack_cfg jack_cfg1) = 1"
  by (simp_all add: jack_cfg1_def default_core_config_def first_modem_index_def
      local_number_of_modems_def fs_of_def)

lemma playing_simps [simp]:
  "audio_out_buffer (playing q new) 0 = q" "audio_out_index (playing q new) 0 = 0"
  "new_packet (playing q new) 0 = new"
  "empty_buffer (playing q new) = Some (tagged_default\<lparr>tbuffer := Some (audio_buffer_of_size 2)\<rparr>)"
  "nframes (period t xs) = 2"
  by (simp_all add: playing_def jack_buffer_size_change_def jack_init_def period_def)

text \<open>
  C2: Within a packet, a period of playback to a modem refines the stream of that modem: it plays the
  next samples of the stream, filled up with silence where the stream runs out, removes exactly the
  samples it played from the stream, and never faults.
\<close>

theorem playback_refines_stream:
  assumes "audio_out_buffer j m \<noteq> []" and "nonnull (audio_out_buffer j m)" and "\<not> new_packet j m"
    and "empty_buffer j = Some e" and "silent n e" and "unat (nframes env) \<le> n"
  defines "k \<equiv> unat (nframes env)"
  shows "\<exists>j'. play_packet cfg env m j = Inr (j', Some (take k (stream j m @ silence k)))
           \<and> stream j' m = drop k (stream j m)
           \<and> (\<forall>m'. m' \<noteq> m \<longrightarrow> stream j' m' = stream j m')"
  using assms play_samples_spec [OF assms(5,4,6,2,1), of 0]
  by (cases "audio_out_buffer j m")
     (auto simp: play_packet_def stream_def silence_def)

theorem playback_refines_stream_witness:
  "\<exists>j'. play_packet jack_cfg1 (period 0 []) 0
       (playing [tagged (Some (sound 0 [1, 2, 3])) MIDDLE 0] False) = Inr (j', Some [Fin 1, Fin 2])
     \<and> stream j' 0 = [Fin 3]"
  using playback_refines_stream [of "playing [tagged (Some (sound 0 [1, 2, 3])) MIDDLE 0] False" 0
      "tagged_default\<lparr>tbuffer := Some (audio_buffer_of_size 2)\<rparr>" 2 "period 0 []" jack_cfg1]
  by (auto simp: silent_empty stream_def samples_of_def sound_def)

text \<open>
  C7: A packet starts at its time: as long as its first sample is due after the period, or fewer
  buffers than \<open>min_playback_buffer_size\<close> have arrived, nothing is played and the whole packet is
  kept; otherwise its first sample is played at the frame it is due, after silence.
\<close>

theorem packet_starts_on_time:
  assumes "audio_out_buffer j m = t # ts" and "nonnull (t # ts)" and "new_packet j m"
    and "tbuffer t = Some b" and "frame_start_of cfg env b = Inr f"
    and "empty_buffer j = Some e" and "silent n e" and "unat (nframes env) \<le> n"
  defines "packet \<equiv> concat (map samples_of (t # ts))"
    and "k \<equiv> unat (nframes env) - nat f"
    and "early \<equiv> uint (nframes env) < f
           \<or> Suc (length ts) < as_size_t (min_playback_buffer_size (jack_cfg cfg))"
  shows "\<exists>j' out. play_packet cfg env m j = Inr (j', out) \<and> (new_packet j' m \<longleftrightarrow> early)
           \<and> out = (if early then None else Some (silence (nat f) @ take k (packet @ silence k)))
           \<and> stream j' m = (if early then packet else drop k packet)"
proof -
  let ?j1 = "j\<lparr>audio_out_index := (audio_out_index j)(m := 0)\<rparr>"
  let ?j2 = "?j1\<lparr>new_packet := (new_packet j)(m := False)\<rparr>"
  have f: "0 \<le> f"
    using assms(5) by (auto simp: frame_start_of_def split: if_splits
        elim!: fp_to_int.elims)
  show ?thesis
  proof (cases early)
    case True
    with assms show ?thesis
      by (simp add: play_packet_def Let_def stream_def) (auto simp: samples_of_def)
  next
    case False
    then have "nat f \<le> unat (nframes env)" using f by (simp add: early_def nat_le_iff)
    moreover from play_samples_spec [OF assms(7), of ?j2 env m f] assms(1,2,6,8) f
    obtain q idx where "play_samples env m f t ?j2 =
             Inr (?j2\<lparr>audio_out_buffer := (audio_out_buffer j)(m := q),
                    audio_out_index := (audio_out_index ?j2)(m := idx)\<rparr>,
                  Some (replicate (min (nat f) (unat (nframes env))) (Fin 0)
                        @ take k (packet @ replicate k (Fin 0))))"
      and "pending q idx = drop k packet"
      by (auto simp: k_def packet_def)
    ultimately show ?thesis
      using False assms by (simp add: play_packet_def Let_def stream_def silence_def min_def)
  qed
qed


theorem packet_starts_on_time_witness:
  "\<exists>j'. play_packet jack_cfg1 (period 1 []) 0
       (playing [tagged (Some (sound 0 [1, 2, 3])) START 0] True) = Inr (j', Some [Fin 1, Fin 2])
     \<and> stream j' 0 = [Fin 3] \<and> \<not> new_packet j' 0"
  using packet_starts_on_time [of "playing [tagged (Some (sound 0 [1, 2, 3])) START 0] True" 0
      "tagged (Some (sound 0 [1, 2, 3])) START 0" "[]" "sound 0 [1, 2, 3]" jack_cfg1 "period 1 []" 0
      "tagged_default\<lparr>tbuffer := Some (audio_buffer_of_size 2)\<rparr>" 2]
  by (auto simp: silent_empty samples_of_def sound_def frame_start_of_def period_def
      silence_def as_size_t_def)

text \<open>
  What the processors publish reaches the stream of its modem and no other: a START message
  replaces what is left of the packet before it and marks a new packet; any other message extends
  a stream that is not exhausted.
\<close>

theorem audio_out_refines_stream:
  assumes "\<not> continuous cfg"
  shows "(tmarker t = START \<longrightarrow>
            audio_out_buffer (audio_out cfg t m j) m = [t] \<and> new_packet (audio_out cfg t m j) m)
       \<and> (tmarker t \<noteq> START \<and> audio_out_buffer j m \<noteq> [] \<longrightarrow>
            stream (audio_out cfg t m j) m = stream j m @ samples_of t
            \<and> new_packet (audio_out cfg t m j) m = new_packet j m)
       \<and> (\<forall>m'. m' \<noteq> m \<longrightarrow> stream (audio_out cfg t m j) m' = stream j m'
            \<and> new_packet (audio_out cfg t m j) m' = new_packet j m')"
  using assms by (cases "audio_out_buffer j m") (auto simp: audio_out_def Let_def stream_def)

theorem audio_out_refines_stream_witness:
  "stream (audio_out jack_cfg1 (tagged (Some (sound 0 [4])) MIDDLE 0) 0
     (playing [tagged (Some (sound 0 [1, 2, 3])) MIDDLE 0] False)) 0 = [Fin 1, Fin 2, Fin 3, Fin 4]"
  using audio_out_refines_stream [of jack_cfg1 "tagged (Some (sound 0 [4])) MIDDLE 0" 0
      "playing [tagged (Some (sound 0 [1, 2, 3])) MIDDLE 0] False"]
  by (simp add: stream_def samples_of_def sound_def)

text \<open>
  An underrun keeps the clock of the packet: when the stream runs out within a period, the
  period is filled up with silence, and of the message that arrives next as many samples are
  skipped as there were samples of silence in that period.
\<close>

theorem underrun_keeps_clock:
  assumes "audio_out_buffer j m \<noteq> []" and "nonnull (audio_out_buffer j m)" and "\<not> new_packet j m"
    and "empty_buffer j = Some e" and "silent n e" and "unat (nframes env) \<le> n"
    and "length (stream j m) < unat (nframes env)" and "\<not> continuous cfg" and "tmarker t \<noteq> START"
  defines "gap \<equiv> unat (nframes env) - length (stream j m)"
  shows "\<exists>j'. play_packet cfg env m j = Inr (j', Some (stream j m @ silence gap))
           \<and> stream (audio_out cfg t m j') m = drop gap (samples_of t)"
proof -
  obtain u us where u: "audio_out_buffer j m = u # us"
    using assms(1) by (cases "audio_out_buffer j m") auto
  from play_samples_spec [OF assms(5,4,6,2,1), of 0] assms(7) obtain idx
    where p: "play_samples env m 0 (hd (audio_out_buffer j m)) j =
             Inr (j\<lparr>audio_out_buffer := (audio_out_buffer j)(m := []),
                    audio_out_index := (audio_out_index j)(m := idx)\<rparr>,
                  Some (stream j m @ silence gap))"
      and "idx + length (stream j m) = unat (nframes env)"
    by (fastforce simp: stream_def silence_def gap_def)
  then have "idx = gap" by (simp add: gap_def)
  with p u assms(3,8,9) show ?thesis
    by (simp add: play_packet_def audio_out_def Let_def stream_def)
qed

theorem underrun_keeps_clock_witness:
  "\<exists>j'. play_packet jack_cfg1 (period 0 []) 0
       (playing [tagged (Some (sound 0 [1])) MIDDLE 0] False) = Inr (j', Some [Fin 1, Fin 0])
     \<and> stream (audio_out jack_cfg1 (tagged (Some (sound 0 [4, 5])) MIDDLE 0) 0 j') 0 = [Fin 5]"
  using underrun_keeps_clock [of "playing [tagged (Some (sound 0 [1])) MIDDLE 0] False" 0
      "tagged_default\<lparr>tbuffer := Some (audio_buffer_of_size 2)\<rparr>" 2 "period 0 []" jack_cfg1
      "tagged (Some (sound 0 [4, 5])) MIDDLE 0"]
  by (simp add: silent_empty stream_def samples_of_def sound_def silence_def)

text \<open>
  C4: Once the sound server has announced a buffer size, and as long as it does not shut down, no sequence of
  periods, arriving messages, new buffer sizes, lost samples and steps of the publishing loop faults, in
  whatever order the threads interleave, as long as the periods are at most \<open>B\<close> frames and every announced
  size is at least \<open>B\<close>, no message has a null buffer, and packets start within \<open>H\<close> seconds of a time origin, where the
  number of samples of \<open>H\<close> seconds (and of the calibration) fits 32 bits.
\<close>

theorem jack_never_faults:
  assumes "timely_cfg cfg H C" and "B \<le> unat n" and "list_all (admissible t0 H B) evs"
  shows "\<exists>j os. run (jack_handle cfg modem) (Set_Buffer_Size n # evs) (jack_init cfg modem) = Inr (j, os)"
proof -
  let ?j = "fst (jack_buffer_size_change modem n (jack_init cfg modem))"
  have "jack_inv t0 H B ?j"
    using assms(2) by (simp add: jack_inv_def jack_buffer_size_change_def jack_init_def silent_empty)
  moreover have "list_all (\<lambda>ev. timely_cfg cfg H C \<and> admissible t0 H B ev) evs"
    using assms(1,3) by (simp add: list_all_iff)
  ultimately obtain j' os where "run (jack_handle cfg modem) evs ?j = Inr (j', os)"
    using jack.run_total by blast
  then show ?thesis by (auto simp: run_Cons_Inr jack_buffer_size_change_def)
qed

theorem jack_never_faults_witness:
  "\<exists>j os. run (jack_handle jack_cfg1 0)
       [Set_Buffer_Size 2, Process (period 0 [Fin 1, Fin 2]), Loop_Take,
        Audio_Out (tagged (Some (sound 1 [1])) START 0) 0, Process (period 1 [Fin 3, Fin 4]),
        Loop_Publish, Loop_Pop] (jack_init jack_cfg1 0) = Inr (j, os)"
  by (rule jack_never_faults [where H = 40000 and C = 0 and B = 2 and ?t0.0 = 0])
     (auto simp: timely_cfg_def timely_def period_def sound_def)

lemma subseq_published_disposed:
  "subseq (concat (map published os)) (concat (map disposed os))"
proof (induction os)
  case Nil
  then show ?case by simp
next
  case (Cons out os)
  then show ?case by (cases out) (auto intro: list_emb_append2)
qed

text \<open>
  C5: The recording queue is a FIFO, in whatever order the audio callback and the publishing loop
  interleave: what has been recorded is what has been published or dropped, in that order, followed by
  what waits in the queue. So no buffer is published twice or out of order, and without an overflow
  the published buffers are exactly the first ones recorded.
\<close>

theorem recording_is_fifo:
  assumes "run (jack_handle cfg modem) evs (jack_init cfg modem) = Inr (j, os)"
  shows "(\<exists>waiting. concat (map recorded os) = concat (map disposed os) @ waiting
             \<and> suffix waiting (audio_in_buffer j))
       \<and> subseq (concat (map published os)) (concat (map recorded os))
       \<and> ((\<forall>bs. Overflow bs \<notin> set os) \<longrightarrow>
            prefix (concat (map published os)) (concat (map recorded os)))"
proof -
  have "recording_hist [] [] (jack_init cfg modem)"
    by (simp add: recording_hist_def jack_init_def)
  from jack_recording.run_hist [OF _ this assms] have "recording_hist evs os j"
    by (simp add: list_all_iff)
  then have h: "concat (map recorded os) = concat (map disposed os)
        @ (if loop_pc j = Sent then tl (audio_in_buffer j) else audio_in_buffer j)"
    by (simp add: recording_hist_def)
  moreover have "suffix (tl (audio_in_buffer j)) (audio_in_buffer j)"
    by (rule suffix_tl)
  moreover have "subseq (concat (map published os)) (concat (map recorded os))"
    unfolding h by (rule subseq_rev_drop_many [OF subseq_published_disposed])
  moreover have "prefix (concat (map published os)) (concat (map recorded os))"
    if no: "\<forall>bs. Overflow bs \<notin> set os"
  proof -
    have "map published os = map disposed os"
      using no by (intro map_cong refl) (metis disposed.simps published.simps jack_output.exhaust)
    then have "concat (map published os) = concat (map disposed os)" by (rule arg_cong)
    then show ?thesis unfolding h by (simp only: prefixI)
  qed
  ultimately show ?thesis by auto
qed

theorem recording_is_fifo_witness:
  "\<exists>j os. run (jack_handle jack_cfg1 0)
       [Set_Buffer_Size 2, Process (period 0 [Fin 1, Fin 2]), Loop_Take,
        Process (period 1 [Fin 3, Fin 4]), Loop_Publish, Loop_Pop] (jack_init jack_cfg1 0) = Inr (j, os)
     \<and> subseq (concat (map published os)) (concat (map recorded os))
     \<and> concat (map published os) = [sound 0 [1, 2]]"
proof -
  obtain j os where r: "run (jack_handle jack_cfg1 0)
       [Set_Buffer_Size 2, Process (period 0 [Fin 1, Fin 2]), Loop_Take,
        Process (period 1 [Fin 3, Fin 4]), Loop_Publish, Loop_Pop] (jack_init jack_cfg1 0) = Inr (j, os)"
    and "concat (map published os) = [sound 0 [1, 2]]"
    by (simp add: jack_init_def jack_buffer_size_change_def jack_process_def capture_step_def
        period_def Let_def do_capture_def sound_def loop_take_def loop_pop_def as_size_t_def play_packet_def)
  with recording_is_fifo [OF r] show ?thesis by blast
qed

text \<open>
  A calibration that is longer than the time left until a packet starts makes the number of
  frames negative, and its conversion to the unsigned \<open>jack_nframes_t\<close> is undefined behaviour: the
  comparison with the present does not take the calibration into account.
\<close>

theorem calibration_past_start_undefined:
  assumes "audio_out_buffer j m = t # ts" and "new_packet j m" and "tbuffer t = Some b"
    and "now env = Fin (of_int r)" and "buffer_start_time b = Fin (of_int x)"
    and "calibration_seconds (jack_cfg cfg) = Fin (of_int c)"
    and "r < x" and "x < r + c" and "c < 2 ^ 20" and "\<bar>x\<bar> < 2 ^ 50" and "0 < uint (fs_of cfg)"
    and "0 \<le> r"
  shows "play_packet cfg env m j = Inl Undefined_Behaviour"
proof -
  define s where "s = uint (fs_of cfg)"
  have s: "0 < s" "s < 2 ^ 32" using assms(11) uint_lt2p [of "fs_of cfg"] by (simp_all add: s_def)
  have d1: "d_round (of_int (x - r)) = Fin (of_int (x - r))"
    using assms by (intro d_round_int) auto
  have d2: "d_round (of_int (x - r - c)) = Fin (of_int (x - r - c))"
    using assms by (intro d_round_int) auto
  have fs: "d_of_int s = Fin (of_int s)" using d_round_int [of s] s by (simp add: fp_of_int_def)
  have "\<bar>(x - r - c) * s\<bar> = (r + c - x) * s"
    using assms s by (simp add: abs_mult)
  also have "\<dots> \<le> 2 ^ 20 * 2 ^ 32" using assms s by (intro mult_mono) auto
  finally have d3: "d_round (of_int ((x - r - c) * s)) = Fin (of_int ((x - r - c) * s))"
    by (intro d_round_int) simp
  have "(x - r - c) * s < 0" using assms s by (simp add: mult_neg_pos)
  then have "\<not> 0 \<le> rat_trunc (of_int ((x - r - c) * s))"
    by (simp add: rat_trunc_def del: of_int_mult)
  then show ?thesis
    using assms d1 d2 d3 fs
    by (simp add: play_packet_def Let_def frame_start_of_def fp_sub_def s_def [symmetric])
qed

theorem calibration_past_start_undefined_witness:
  "play_packet (jack_cfg1\<lparr>jack_cfg := (jack_cfg jack_cfg1)\<lparr>calibration_seconds := Fin 2\<rparr>\<rparr>)
     (period 0 []) 0 (playing [tagged (Some (sound 1 [1])) START 0] True) = Inl Undefined_Behaviour"
  by (rule calibration_past_start_undefined [where r = 0 and x = 1 and c = 2 and b = "sound 1 [1]"
        and t = "tagged (Some (sound 1 [1])) START 0" and ts = "[]"])
     (simp_all add: period_def sound_def jack_cfg1_def default_core_config_def fs_of_def)

text \<open>
  Capture and playback agree on the numbers of the ports: a modem of this instance is captured
  from the port with the same number as the one port it is played to, and other modems are not
  captured.
\<close>

theorem ports_agree:
  "do_capture cfg modem \<longleftrightarrow>
     (\<exists>i < nat (local_number_of_modems cfg). port_modem cfg i = modem
        \<and> output_port (jack_init cfg modem) i
        \<and> playback_port_number cfg i = capture_port_number cfg modem)"
proof
  assume "do_capture cfg modem"
  then show "\<exists>i < nat (local_number_of_modems cfg). port_modem cfg i = modem
        \<and> output_port (jack_init cfg modem) i
        \<and> playback_port_number cfg i = capture_port_number cfg modem"
    by (intro exI [of _ "nat (modem - first_modem_index cfg)"])
       (auto simp: do_capture_def port_modem_def jack_init_def playback_port_number_def
         capture_port_number_def)
qed (auto simp: do_capture_def port_modem_def)

end
