(* ===== verification/Hearing.thy ===== *)
theory Hearing
  imports Jack Detector
begin

text \<open>
  A packet from the detector of its transmitter to the sound card of a receiver: the messages of
  \<open>DetectorThread\<close> (\<open>src/apps/netsim_core/detector.h\<close>), delivered to \<open>JackThread::audio_out\<close> and played by
  \<open>jack_process\<close> (\<open>jack_thread.h\<close>) over any number of periods, with everything else the thread does in between.
\<close>

section \<open>What is heard and what is not yet\<close>

text \<open>What the callback writes for port \<open>i\<close>.\<close>

fun heard_of :: "nat \<Rightarrow> jack_output \<Rightarrow> fp list" where
  "heard_of i (Played outs) = (case outs ! i of None \<Rightarrow> [] | Some xs \<Rightarrow> xs)"
| "heard_of i _ = []"

definition heard :: "nat \<Rightarrow> jack_output list \<Rightarrow> fp list" where
  "heard i os = concat (map (heard_of i) os)"

lemma heard_simps [simp]: "heard i [] = []" "heard i (os @ os') = heard i os @ heard i os'"
  "heard i (x # os) = heard_of i x @ heard i os"
  by (simp_all add: heard_def)

text \<open>The messages for modem \<open>m\<close>, and what is left of them to be played: a new packet is played from its start.\<close>

fun message_for :: "int \<Rightarrow> jack_event \<Rightarrow> tagged_audio_buffer list" where
  "message_for m (Audio_Out t m') = (if m' = m then [t] else [])"
| "message_for m _ = []"

definition messages :: "int \<Rightarrow> jack_event list \<Rightarrow> tagged_audio_buffer list" where
  "messages m es = concat (map (message_for m) es)"

lemma messages_simps [simp]: "messages m [] = []" "messages m (e # es) = message_for m e @ messages m es"
  by (simp_all add: messages_def)

definition unheard :: "jack_thread \<Rightarrow> int \<Rightarrow> fp list" where
  "unheard j m =
     (if new_packet j m then concat (map samples_of (audio_out_buffer j m)) else stream j m)"

text \<open>
  The processors keep ahead of the sound card: as long as messages are still to come, the samples that
  have arrived (\<open>n\<close> more than the frames of the periods so far) are enough for the next period.
\<close>

fun ahead :: "int \<Rightarrow> nat \<Rightarrow> jack_event list \<Rightarrow> bool" where
  "ahead m n [] \<longleftrightarrow> True"
| "ahead m n (Audio_Out t m' # es) \<longleftrightarrow> ahead m (if m' = m then n + length (samples_of t) else n) es"
| "ahead m n (Process env # es) \<longleftrightarrow>
     (messages m es = [] \<or> unat (nframes env) \<le> n) \<and> ahead m (n - unat (nframes env)) es"
| "ahead m n (_ # es) \<longleftrightarrow> ahead m n es"

section \<open>One period\<close>

definition same_view :: "int \<Rightarrow> jack_thread \<Rightarrow> jack_thread \<Rightarrow> bool" where
  "same_view m j j' \<longleftrightarrow>
     audio_out_buffer j' m = audio_out_buffer j m \<and> audio_out_index j' m = audio_out_index j m
     \<and> new_packet j' m = new_packet j m"

lemma same_view_refl [simp]: "same_view m j j"
  by (simp add: same_view_def)

lemma same_view_trans: "same_view m i j \<Longrightarrow> same_view m j k \<Longrightarrow> same_view m i k"
  by (simp add: same_view_def)

lemma same_view_unheard: "same_view m j j' \<Longrightarrow> unheard j' m = unheard j m"
  by (simp add: same_view_def unheard_def stream_def)

lemma play_packet_other:
  "play_packet cfg env m j = Inr (j', out) \<Longrightarrow> m' \<noteq> m \<Longrightarrow> same_view m' j j'"
  by (auto simp: play_packet_def play_samples_def same_view_def Let_def res_bind_eq_Inr
      split: list.splits option.splits if_splits)

lemma play_ports_Cons:
  assumes "\<not> continuous cfg" and "play_ports cfg env (k # is) j = Inr (j', outs)"
  obtains j1 out outs1
  where "(if \<not> output_port j k then Inr (j, None) else play_packet cfg env (port_modem cfg k) j) = Inr (j1, out)"
    and "play_ports cfg env is j1 = Inr (j', outs1)" and "outs = out # outs1"
proof -
  let ?r = "if \<not> output_port j k then Inr (j, None) else play_packet cfg env (port_modem cfg k) j"
  let ?g = "\<lambda>(j', out). res_bind (play_ports cfg env is j') (\<lambda>(j'', outs). Inr (j'', out # outs))"
  have "play_ports cfg env (k # is) j = res_bind ?r ?g"
    using assms(1) by (cases "output_port j k") simp_all
  with assms(2) have "res_bind ?r ?g = Inr (j', outs)" by (simp only:)
  then obtain x where "?r = Inr x" "?g x = Inr (j', outs)" unfolding res_bind_eq_Inr by (elim exE conjE)
  then show thesis using that [of "fst x" "snd x"] by (cases x) (auto simp: res_bind_eq_Inr)
qed

lemma play_ports_other:
  assumes "\<not> continuous cfg"
  shows "play_ports cfg env is j = Inr (j', outs) \<Longrightarrow> i \<notin> set is \<Longrightarrow> same_view (port_modem cfg i) j j'"
proof (induction "is" arbitrary: j outs)
  case Nil
  then show ?case by simp
next
  case (Cons k "is")
  obtain j1 out outs1
    where 1: "(if \<not> output_port j k then Inr (j, None) else play_packet cfg env (port_modem cfg k) j) = Inr (j1, out)"
      and 2: "play_ports cfg env is j1 = Inr (j', outs1)"
    by (rule play_ports_Cons [OF assms Cons.prems(1)])
  have "port_modem cfg i \<noteq> port_modem cfg k" using Cons.prems(2) by (auto simp: port_modem_def)
  with 1 have "same_view (port_modem cfg i) j j1" by (auto dest: play_packet_other split: if_splits)
  with Cons.IH [OF 2] Cons.prems(2) show ?case by (auto intro: same_view_trans)
qed

text \<open>Port \<open>i\<close> plays what \<open>play_packet\<close> makes of its modem; the other ports do not matter.\<close>

lemma play_ports_view:
  assumes "\<not> continuous cfg"
  shows "play_ports cfg env is j = Inr (j', outs) \<Longrightarrow> distinct is \<Longrightarrow> p < length is \<Longrightarrow> is ! p = i \<Longrightarrow> output_port j i
    \<Longrightarrow> \<exists>j1 j2. same_view (port_modem cfg i) j j1 \<and> same_capture j j1
          \<and> play_packet cfg env (port_modem cfg i) j1 = Inr (j2, outs ! p) \<and> same_view (port_modem cfg i) j2 j'"
proof (induction "is" arbitrary: j outs p)
  case Nil
  then show ?case by simp
next
  case (Cons k "is")
  obtain ja out outs1
    where 1: "(if \<not> output_port j k then Inr (j, None) else play_packet cfg env (port_modem cfg k) j) = Inr (ja, out)"
      and 2: "play_ports cfg env is ja = Inr (j', outs1)" and outs: "outs = out # outs1"
    by (rule play_ports_Cons [OF assms Cons.prems(1)])
  show ?case
  proof (cases p)
    case 0
    with Cons.prems have i: "i = k" "i \<notin> set is" by auto
    with 1 Cons.prems(5) have "play_packet cfg env (port_modem cfg i) j = Inr (ja, out)" by simp
    with play_ports_other [OF assms 2 i(2)] outs 0 show ?thesis
      by (intro exI [of _ j] exI [of _ ja]) simp
  next
    case (Suc q)
    with Cons.prems have q: "q < length is" "is ! q = i" and "i \<noteq> k" by auto
    then have "port_modem cfg i \<noteq> port_modem cfg k" by (simp add: port_modem_def)
    with 1 have v: "same_view (port_modem cfg i) j ja" and c: "same_capture j ja"
      by (auto dest: play_packet_other play_packet_same split: if_splits)
    have "output_port ja i" using c Cons.prems(5) by (simp add: same_capture_def)
    from Cons.IH [OF 2 _ q this] Cons.prems(2) obtain j1 j2 where
      "same_view (port_modem cfg i) ja j1" "same_capture ja j1"
      "play_packet cfg env (port_modem cfg i) j1 = Inr (j2, outs1 ! q)" "same_view (port_modem cfg i) j2 j'"
      by auto
    with v c Suc outs show ?thesis
      by (intro exI [of _ j1] exI [of _ j2]) (auto intro: same_view_trans same_capture_trans)
  qed
qed

lemma silence_0 [simp]: "silence 0 = []"
  by (simp add: silence_def)

lemma take_silence_drop: "take k (s @ silence k) @ drop k s = s @ silence (k - length s)"
  by (cases "k \<le> length s") (simp_all add: silence_def)

text \<open>
  One period for modem \<open>m\<close>: what is written is taken from what is unheard, after silence only where a new
  packet starts, and filled up with silence only if that runs out.
\<close>

lemma play_packet_step:
  assumes "play_packet cfg env m j = Inr (j', out)" and "nonnull (audio_out_buffer j m)"
    and "empty_buffer j = Some e" "silent n e" "unat (nframes env) \<le> n"
  defines "xs \<equiv> (case out of None \<Rightarrow> [] | Some xs \<Rightarrow> xs)"
  obtains f pad where "xs @ unheard j' m = silence f @ unheard j m @ silence pad"
    and "0 < f \<longrightarrow> new_packet j m" and "0 < pad \<longrightarrow> unheard j' m = []"
    and "unat (nframes env) \<le> length (unheard j m) \<longrightarrow> pad = 0"
    and "length (unheard j m) - unat (nframes env) \<le> length (unheard j' m)"
    and "new_packet j' m \<longrightarrow> new_packet j m \<and> xs = []"
    and "new_packet j' m \<longrightarrow> audio_out_buffer j' m = audio_out_buffer j m"
    and "audio_out_buffer j m = [] \<longrightarrow> same_view m j j'"
    and "audio_out_buffer j m \<noteq> [] \<and> audio_out_buffer j' m = [] \<and> pad = 0 \<longrightarrow> audio_out_index j' m = 0"
    and "suffix (audio_out_buffer j' m) (audio_out_buffer j m)"
proof (cases "audio_out_buffer j m")
  case Nil
  with assms(1) have "j' = j" "xs = []" by (simp_all add: play_packet_def xs_def)
  with Nil show ?thesis by (intro that [of 0 0]) (auto simp: silence_def unheard_def stream_def)
next
  case (Cons t ts)
  let ?k = "unat (nframes env)"
  show ?thesis
  proof (cases "new_packet j m")
    case False
    from play_samples_spec [OF assms(4,3,5,2), of 0] Cons obtain q idx where
      p: "play_samples env m 0 t j = Inr (j\<lparr>audio_out_buffer := (audio_out_buffer j)(m := q),
                    audio_out_index := (audio_out_index j)(m := idx)\<rparr>,
                  Some (take ?k (stream j m @ silence ?k)))"
      and q: "suffix q (audio_out_buffer j m)" "pending q idx = drop ?k (stream j m)"
        "q = [] \<longrightarrow> idx + length (stream j m) = ?k"
      by (auto simp: stream_def silence_def)
    have j': "j' = j\<lparr>audio_out_buffer := (audio_out_buffer j)(m := q),
                    audio_out_index := (audio_out_index j)(m := idx)\<rparr>"
      and out: "out = Some (take ?k (stream j m @ silence ?k))"
      using assms(1) p False Cons by (simp_all add: play_packet_def)
    have xs: "xs = take ?k (stream j m @ silence ?k)" by (simp add: xs_def out)
    have u: "unheard j m = stream j m" "unheard j' m = drop ?k (stream j m)"
      using False j' q(2) by (simp_all add: unheard_def stream_def)
    have v: "audio_out_buffer j' m = q" "audio_out_index j' m = idx" "\<not> new_packet j' m"
      using False by (simp_all add: j')
    have "xs @ unheard j' m = silence 0 @ unheard j m @ silence (?k - length (stream j m))"
      unfolding u xs by (simp add: take_silence_drop del: take_append)
    then show ?thesis
      by (rule that) (use False v q Cons in \<open>auto simp: u\<close>)
  next
    case True
    from assms(2) Cons obtain b where b: "tbuffer t = Some b" by auto
    let ?j1 = "j\<lparr>audio_out_index := (audio_out_index j)(m := 0)\<rparr>"
    let ?j2 = "?j1\<lparr>new_packet := (new_packet j)(m := False)\<rparr>"
    let ?P = "concat (map samples_of (audio_out_buffer j m))"
    from assms(1) Cons True b obtain f where f: "frame_start_of cfg env b = Inr f"
      by (auto simp: play_packet_def Let_def res_bind_eq_Inr)
    have f0: "0 \<le> f" using f by (auto simp: frame_start_of_def split: if_splits elim!: fp_to_int.elims)
    show ?thesis
    proof (cases "uint (nframes env) < f
         \<or> length (audio_out_buffer j m) < as_size_t (min_playback_buffer_size (jack_cfg cfg))")
      case early: True
      with assms(1) Cons True b f have "j' = ?j1" "xs = []"
        by (auto simp: play_packet_def Let_def xs_def split: if_splits)
      then show ?thesis
        by (intro that [of 0 0]) (use True Cons in \<open>auto simp: silence_def unheard_def\<close>)
    next
      case False
      then have fk: "nat f \<le> ?k" using f0 by (simp add: nat_le_iff)
      from play_samples_spec [OF assms(4), of ?j2 env m f] assms(2,3,5) f0 Cons fk obtain q idx where
        p: "play_samples env m f t ?j2 = Inr (?j2\<lparr>audio_out_buffer := (audio_out_buffer j)(m := q),
                    audio_out_index := (audio_out_index ?j2)(m := idx)\<rparr>,
                  Some (silence (nat f) @ take (?k - nat f) (?P @ silence (?k - nat f))))"
        and q: "suffix q (audio_out_buffer j m)" "pending q idx = drop (?k - nat f) ?P"
          "q = [] \<longrightarrow> idx + length ?P = ?k - nat f"
        by (auto simp: silence_def min_def)
      have j': "j' = ?j2\<lparr>audio_out_buffer := (audio_out_buffer j)(m := q),
                    audio_out_index := (audio_out_index ?j2)(m := idx)\<rparr>"
        and out: "out = Some (silence (nat f) @ take (?k - nat f) (?P @ silence (?k - nat f)))"
        using assms(1) p f False Cons True b by (simp_all add: play_packet_def Let_def)
      have xs: "xs = silence (nat f) @ take (?k - nat f) (?P @ silence (?k - nat f))" by (simp add: xs_def out)
      have u: "unheard j m = ?P" "unheard j' m = drop (?k - nat f) ?P"
        using True j' q(2) by (simp_all add: unheard_def stream_def)
      have v: "audio_out_buffer j' m = q" "audio_out_index j' m = idx" "\<not> new_packet j' m"
        by (simp_all add: j')
      have "xs @ unheard j' m = silence (nat f) @ unheard j m @ silence (?k - nat f - length ?P)"
        unfolding u xs by (simp add: take_silence_drop del: take_append)
      then show ?thesis
        by (rule that) (use True v q Cons in \<open>auto simp: u\<close>)
    qed
  qed
qed

text \<open>The state between two events, for a packet of which \<open>packet\<close> has arrived and \<open>written\<close> has been written.\<close>

definition hearing :: "int \<Rightarrow> bool \<Rightarrow> nat \<Rightarrow> fp list \<Rightarrow> fp list \<Rightarrow> jack_thread \<Rightarrow> bool" where
  "hearing m all_in n written packet j \<longleftrightarrow>
     (\<exists>f pad. written @ unheard j m = silence f @ packet @ silence pad
        \<and> (new_packet j m \<longrightarrow> written = [] \<and> audio_out_buffer j m \<noteq> [])
        \<and> (0 < pad \<longrightarrow> all_in \<and> unheard j m = []))
     \<and> (\<not> all_in \<longrightarrow> n \<le> length (unheard j m)
          \<and> (audio_out_buffer j m = [] \<longrightarrow> audio_out_index j m = 0))"

lemma hearing_view: "same_view m j j' \<Longrightarrow> hearing m all_in n written packet j' = hearing m all_in n written packet j"
  using same_view_unheard [of m j j'] by (simp add: hearing_def same_view_def)

lemma silence_silence: "silence a @ silence b = silence (a + b)"
  by (simp add: silence_def replicate_add)

lemma jack_inv_play:
  assumes "jack_inv t0 H B j" "unat (nframes env) \<le> B"
  obtains e n where "empty_buffer j = Some e" "silent n e" "unat (nframes env) \<le> n" "nonnull (audio_out_buffer j m)"
  using assms timely_nonnull unfolding jack_inv_def by (meson le_trans)

lemma hearing_period:
  assumes "play_packet cfg env m j = Inr (j', out)" and "nonnull (audio_out_buffer j m)"
    and "empty_buffer j = Some e" "silent b e" "unat (nframes env) \<le> b"
    and "hearing m all_in n written packet j" and "all_in \<or> unat (nframes env) \<le> n"
  shows "hearing m all_in (n - unat (nframes env)) (written @ (case out of None \<Rightarrow> [] | Some xs \<Rightarrow> xs)) packet j'"
proof -
  let ?k = "unat (nframes env)"
  define xs where "xs = (case out of None \<Rightarrow> [] | Some xs \<Rightarrow> xs)"
  obtain f0 pad0 where h: "written @ unheard j m = silence f0 @ packet @ silence pad0"
    "new_packet j m \<longrightarrow> written = [] \<and> audio_out_buffer j m \<noteq> []" "0 < pad0 \<longrightarrow> all_in \<and> unheard j m = []"
    and n: "\<not> all_in \<longrightarrow> n \<le> length (unheard j m) \<and> (audio_out_buffer j m = [] \<longrightarrow> audio_out_index j m = 0)"
    using assms(6) by (auto simp: hearing_def)
  obtain f pad where p: "xs @ unheard j' m = silence f @ unheard j m @ silence pad"
    "0 < f \<longrightarrow> new_packet j m" "0 < pad \<longrightarrow> unheard j' m = []" "?k \<le> length (unheard j m) \<longrightarrow> pad = 0"
    "length (unheard j m) - ?k \<le> length (unheard j' m)" "new_packet j' m \<longrightarrow> new_packet j m \<and> xs = []"
    "new_packet j' m \<longrightarrow> audio_out_buffer j' m = audio_out_buffer j m"
    "audio_out_buffer j m = [] \<longrightarrow> same_view m j j'"
    "audio_out_buffer j m \<noteq> [] \<and> audio_out_buffer j' m = [] \<and> pad = 0 \<longrightarrow> audio_out_index j' m = 0"
    "suffix (audio_out_buffer j' m) (audio_out_buffer j m)"
    by (rule play_packet_step [OF assms(1-5), folded xs_def])
  have pad: "pad = 0" if "\<not> all_in" using that n assms(7) p(4) by auto
  have eq: "\<exists>f1 pad1. (written @ xs) @ unheard j' m = silence f1 @ packet @ silence pad1
      \<and> (0 < pad1 \<longrightarrow> all_in \<and> unheard j' m = [])"
  proof (cases "f = 0")
    case True
    have "(written @ xs) @ unheard j' m = (written @ unheard j m) @ silence pad" using p(1) True by simp
    also have "\<dots> = silence f0 @ packet @ silence (pad0 + pad)"
      unfolding h(1) by (simp add: silence_silence)
    finally have e: "(written @ xs) @ unheard j' m = silence f0 @ packet @ silence (pad0 + pad)" .
    have "all_in \<and> unheard j' m = []" if "0 < pad0 + pad"
    proof (cases "0 < pad")
      case True
      with p(3) pad show ?thesis by auto
    next
      case False
      with that h(3) have c: "all_in" "unheard j m = []" by auto
      show ?thesis
      proof (cases "unheard j' m = []")
        case False
        with p(1) c(2) True \<open>\<not> 0 < pad\<close> show ?thesis by simp
      qed (use c in simp)
    qed
    with e show ?thesis by blast
  next
    case False
    with p(2) h(2) have w: "written = []" by simp
    show ?thesis
    proof (cases "pad0 = 0")
      case True
      have "(written @ xs) @ unheard j' m = silence (f + f0) @ packet @ silence pad"
        using p(1) h(1) w True by (simp add: silence_silence [symmetric])
      with p(3) pad show ?thesis by blast
    next
      case False
      with h w have "silence f0 @ packet @ silence pad0 = []" by simp
      with False show ?thesis by (simp add: silence_def)
    qed
  qed
  have new: "new_packet j' m \<longrightarrow> written @ xs = [] \<and> audio_out_buffer j' m \<noteq> []"
    using p(6,7) h(2) by auto
  have idx: "audio_out_buffer j' m = [] \<longrightarrow> audio_out_index j' m = 0" if "\<not> all_in"
  proof (cases "audio_out_buffer j m = []")
    case True
    with p(8) n that show ?thesis by (simp add: same_view_def)
  next
    case False
    with p(9) pad [OF that] show ?thesis by blast
  qed
  have len: "n - ?k \<le> length (unheard j' m)" if "\<not> all_in" using n p(5) that by (meson diff_le_mono le_trans)
  from eq new idx len show ?thesis unfolding hearing_def xs_def [symmetric] by blast
qed

section \<open>Any number of periods\<close>

lemma hearing_all_in: "hearing m False n written packet j \<Longrightarrow> hearing m b k written packet j" if "b \<or> k = n"
proof -
  assume h: "hearing m False n written packet j"
  then obtain f where "written @ unheard j m = silence f @ packet @ silence 0"
    "new_packet j m \<longrightarrow> written = [] \<and> audio_out_buffer j m \<noteq> []"
    by (auto simp: hearing_def)
  then have "\<exists>f pad. written @ unheard j m = silence f @ packet @ silence pad
      \<and> (new_packet j m \<longrightarrow> written = [] \<and> audio_out_buffer j m \<noteq> []) \<and> (0 < pad \<longrightarrow> b \<and> unheard j m = [])"
    by blast
  with h that show ?thesis unfolding hearing_def by blast
qed

lemma hearing_process:
  assumes "jack_process cfg env j = Inr (j', os)" and "timely_cfg cfg H C" "admissible t0 H B (Process env)" "jack_inv t0 H B j"
    and "i < nat (local_number_of_modems cfg)" "output_port j i"
    and "hearing (port_modem cfg i) all_in n written packet j" and "all_in \<or> unat (nframes env) \<le> n"
  shows "hearing (port_modem cfg i) all_in (n - unat (nframes env)) (written @ heard i os) packet j'
    \<and> output_port j' i"
proof -
  let ?m = "port_modem cfg i"
  from assms(1) obtain ja rec outs where c: "capture_step env j = Inr (ja, rec)"
    and p: "play_ports cfg env [0..<nat (local_number_of_modems cfg)] ja = Inr (j', outs)"
    and os: "os = rec @ [Played outs]"
    by (auto simp: jack_process_def res_bind_eq_Inr)
  have "same_view ?m j ja" and port: "output_port ja i" and r: "heard i rec = []"
    using c assms(6) by (auto simp: capture_step_def same_view_def Let_def split: if_splits)
  then have ha: "hearing ?m all_in n written packet ja" using assms(7) by (simp add: hearing_view)
  have inv: "jack_inv t0 H B ja" using capture_step_total [OF assms(4), of env] assms(3) c by auto
  have "\<not> continuous cfg" using assms(2) by (simp add: timely_cfg_def)
  from play_ports_view [OF this p, of i i] assms(5) port obtain j1 j2 where
    v: "same_view ?m ja j1" "same_capture ja j1" "play_packet cfg env ?m j1 = Inr (j2, outs ! i)" "same_view ?m j2 j'"
    by auto
  obtain e b where "empty_buffer ja = Some e" "silent b e" "unat (nframes env) \<le> b" "nonnull (audio_out_buffer ja ?m)"
    using jack_inv_play [OF inv, of env ?m] assms(3) by auto
  then have e: "empty_buffer j1 = Some e" "silent b e" "unat (nframes env) \<le> b" "nonnull (audio_out_buffer j1 ?m)"
    using v(1,2) by (simp_all add: same_view_def same_capture_def)
  have "hearing ?m all_in n written packet j1" using ha v(1) by (simp add: hearing_view)
  from hearing_period [OF v(3) e(4,1,2,3) this assms(8)] v(4)
  have "hearing ?m all_in (n - unat (nframes env)) (written @ (case outs ! i of None \<Rightarrow> [] | Some xs \<Rightarrow> xs)) packet j'"
    by (simp add: hearing_view)
  moreover have "output_port j' i" using play_ports_same [OF p] port by (simp add: same_capture_def)
  ultimately show ?thesis using r by (simp add: os)
qed

lemma hearing_message:
  assumes "\<not> continuous cfg" "tmarker t \<noteq> START" "hearing m False n written packet j"
  shows "hearing m False (n + length (samples_of t)) written (packet @ samples_of t) (audio_out cfg t m j)"
proof -
  have "unheard (audio_out cfg t m j) m = unheard j m @ samples_of t"
    using assms
    by (cases "audio_out_buffer j m") (auto simp: hearing_def unheard_def stream_def audio_out_def Let_def)
  moreover from assms(3) obtain f where "written @ unheard j m = silence f @ packet @ silence 0"
    "new_packet j m \<longrightarrow> written = [] \<and> audio_out_buffer j m \<noteq> []"
    by (auto simp: hearing_def)
  ultimately have "written @ unheard (audio_out cfg t m j) m = silence f @ (packet @ samples_of t) @ silence 0"
    by (metis append.assoc append.right_neutral silence_0)
  moreover have "new_packet (audio_out cfg t m j) m = new_packet j m" "audio_out_buffer (audio_out cfg t m j) m \<noteq> []"
    using assms(1,2) by (simp_all add: audio_out_def Let_def)
  ultimately show ?thesis
    using assms(3) \<open>unheard (audio_out cfg t m j) m = unheard j m @ samples_of t\<close>
      \<open>new_packet j m \<longrightarrow> written = [] \<and> audio_out_buffer j m \<noteq> []\<close>
    unfolding hearing_def by fastforce
qed

lemma hearing_run:
  assumes "timely_cfg cfg H C" and "i < nat (local_number_of_modems cfg)"
  shows "jack_inv t0 H B j \<Longrightarrow> output_port j i \<Longrightarrow> list_all (admissible t0 H B) es
    \<Longrightarrow> \<forall>t \<in> set (messages (port_modem cfg i) es). tmarker t \<noteq> START \<Longrightarrow> ahead (port_modem cfg i) n es
    \<Longrightarrow> hearing (port_modem cfg i) (messages (port_modem cfg i) es = []) n written packet j
    \<Longrightarrow> \<exists>j' os. run (jack_handle cfg modem) es j = Inr (j', os)
          \<and> (\<exists>n. hearing (port_modem cfg i) True n (written @ heard i os)
               (packet @ concat (map samples_of (messages (port_modem cfg i) es))) j')"
proof (induction es arbitrary: j n written packet)
  case Nil
  then show ?case by auto
next
  case (Cons ev es)
  let ?m = "port_modem cfg i"
  let ?done = "messages ?m es = []"
  from jack_handle_total [OF assms(1) _ Cons.prems(1), of ev modem] Cons.prems(3) obtain j1 os1 where
    h: "jack_handle cfg modem ev j = Inr (j1, os1)" and inv: "jack_inv t0 H B j1" by auto
  have nc: "\<not> continuous cfg" using assms(1) by (simp add: timely_cfg_def)
  have "\<exists>k. output_port j1 i \<and> ahead ?m k es
      \<and> hearing ?m ?done k (written @ heard i os1) (packet @ concat (map samples_of (message_for ?m ev))) j1"
  proof (cases "\<exists>env. ev = Process env")
    case True
    then obtain env where ev: "ev = Process env" by blast
    with Cons.prems h have "jack_process cfg env j = Inr (j1, os1)" by simp
    from hearing_process [OF this assms(1) _ Cons.prems(1) assms(2) Cons.prems(2)] Cons.prems ev
    show ?thesis by (intro exI [of _ "n - unat (nframes env)"]) auto
  next
    case other: False
    show ?thesis
    proof (cases "\<exists>t. ev = Audio_Out t ?m")
      case True
      then obtain t where ev: "ev = Audio_Out t ?m" by blast
      have j1: "j1 = audio_out cfg t ?m j" "os1 = []" using h ev by simp_all
      have "hearing ?m False (n + length (samples_of t)) written (packet @ samples_of t) j1"
        unfolding j1 using Cons.prems(4,6) ev by (intro hearing_message [OF nc]) simp_all
      moreover have "output_port j1 i" using Cons.prems(2) by (simp add: j1 audio_out_def Let_def)
      ultimately show ?thesis using Cons.prems(5) ev j1(2)
        by (intro exI [of _ "n + length (samples_of t)"]) (auto intro: hearing_all_in)
    next
      case False
      have "same_view ?m j j1 \<and> output_port j1 i \<and> heard i os1 = [] \<and> message_for ?m ev = []"
      proof (cases ev)
        case (Audio_Out t m')
        with h have "j1 = audio_out cfg t m' j" "os1 = []" by simp_all
        with Audio_Out False Cons.prems(2) nc show ?thesis
          by (cases "tmarker t = START") (simp_all add: same_view_def audio_out_def Let_def)
      qed (use h other Cons.prems(2) in \<open>auto simp: same_view_def jack_buffer_size_change_def loop_take_def
            loop_pop_def jack_xrun_def jack_shutdown_def res_bind_eq_Inr split: list.splits if_splits loop_pc.splits\<close>)
      moreover have "ahead ?m n es" using Cons.prems(5) other False by (cases ev) auto
      ultimately show ?thesis using Cons.prems(6) hearing_view [of ?m j j1] by (intro exI [of _ n]) simp
    qed
  qed
  then obtain k where k: "output_port j1 i" "ahead ?m k es"
    "hearing ?m ?done k (written @ heard i os1) (packet @ concat (map samples_of (message_for ?m ev))) j1" by blast
  have "list_all (admissible t0 H B) es" "\<forall>t \<in> set (messages ?m es). tmarker t \<noteq> START"
    using Cons.prems(3,4) by simp_all
  from Cons.IH [OF inv k(1) this k(2,3)] h show ?case by (auto simp: run_Cons_Inr)
qed

section \<open>From the detector to the sound card\<close>

lemma packet_buffers:
  assumes "circular_buffer ops contents capacity" and "\<not> continuous cfg" and "\<not> in_packet d"
    and "0 < capacity (prebuffer d)" and "contents (prebuffer d) = map Some recent"
    and "run (detector_handle cfg ops) (map Audio_In bs) d = Inr (d', outs)"
    and "sublist packet outs" and "\<forall>t \<in> set (tl packet). tmarker t \<noteq> START"
  obtains stretch where "sublist stretch (recent @ bs)" and "map tbuffer packet = map Some stretch"
proof -
  note L = detector_prebuffer.intro [OF assms(1)]
  from detector_prebuffer.run_refines
      [OF L detector_prebuffer.quiet_init [OF L assms(3,5,4)] assms(2), of bs] assms(6)
  obtain a where "spec_run (capacity (prebuffer d)) bs (Idle recent, global_packet_id d) a outs" by auto
  from spec_run_sublist [OF this assms(4,7,8)] have "sublist (map tbuffer packet) (map Some (recent @ bs))" by simp
  then obtain xs ys where "map Some (recent @ bs) = xs @ map tbuffer packet @ ys" unfolding sublist_def by blast
  then obtain b1 v where 1: "recent @ bs = b1 @ v" "map tbuffer packet @ ys = map Some v"
    unfolding map_eq_append_conv [of Some] by (elim exE conjE)
  from 1(2) obtain b2 b3 where "v = b2 @ b3" and b2: "map tbuffer packet = map Some b2"
    unfolding append_eq_map_conv by (elim exE conjE) (rule that, simp_all)
  with 1(1) have "recent @ bs = b1 @ b2 @ b3" by simp
  then have "sublist b2 (recent @ bs)" by (simp only: sublist_appendI)
  then show thesis using b2 by (rule that)
qed

lemma samples_of_stretch: "map tbuffer ts = map Some bs \<Longrightarrow> concat (map samples_of ts) = concat (map samples bs)"
  by (induction ts arbitrary: bs) (auto simp: samples_of_def)

text \<open>
  C3: A packet is heard as it was captured. Take the messages of one packet from what a detector publishes,
  the START message and any number of those that follow it, and deliver them to the JACK thread of a
  receiver, between periods, messages for other modems, other packets recorded, new buffer sizes and
  steps of its loop, in any order. If at every period before the last of the messages the samples that
  have arrived are enough for it, then the thread does not fault, and what it has written to the port of
  the receiver, with what is still waiting there, is silence until the packet starts, then a contiguous
  stretch of what the detector's thread was given, sample for sample with nothing lost, repeated or
  inserted, and silence once that is exhausted.
\<close>

theorem packet_heard_as_captured:
  assumes "circular_buffer ops contents capacity" and "\<not> continuous cfg" and "\<not> in_packet d"
    and "0 < capacity (prebuffer d)" and "contents (prebuffer d) = map Some recent"
    and "run (detector_handle cfg ops) (map Audio_In bs) d = Inr (d', outs)"
    and "sublist (t0 # ts) outs" and "tmarker t0 = START" "\<forall>t \<in> set ts. tmarker t \<noteq> START"
    and "timely_cfg cfg' H C" and "jack_inv origin H B j"
    and "i < nat (local_number_of_modems cfg')" "output_port j i"
    and "list_all (admissible origin H B) (Audio_Out t0 (port_modem cfg' i) # evs)"
    and "messages (port_modem cfg' i) evs = ts" and "ahead (port_modem cfg' i) (length (samples_of t0)) evs"
  shows "\<exists>stretch j' os f pad. sublist stretch (recent @ bs) \<and> map tbuffer (t0 # ts) = map Some stretch
     \<and> run (jack_handle cfg' modem) (Audio_Out t0 (port_modem cfg' i) # evs) j = Inr (j', os)
     \<and> heard i os @ unheard j' (port_modem cfg' i) = silence f @ concat (map samples stretch) @ silence pad
     \<and> (0 < pad \<longrightarrow> unheard j' (port_modem cfg' i) = [])"
proof -
  let ?m = "port_modem cfg' i"
  obtain stretch where s: "sublist stretch (recent @ bs)" "map tbuffer (t0 # ts) = map Some stretch"
    by (rule packet_buffers [OF assms(1-7)]) (use assms(9) in auto)
  define j1 where "j1 = audio_out cfg' t0 ?m j"
  have nc: "\<not> continuous cfg'" using assms(10) by (simp add: timely_cfg_def)
  have first: "jack_handle cfg' modem (Audio_Out t0 ?m) j = Inr (j1, [])" by (simp add: j1_def)
  have "jack_inv origin H B j1"
    using jack_handle_total [OF assms(10) _ assms(11), of "Audio_Out t0 ?m" modem] assms(14) first by auto
  moreover have "output_port j1 i" using assms(13) by (simp add: j1_def audio_out_def Let_def)
  moreover have "list_all (admissible origin H B) evs" using assms(14) by simp
  moreover have "hearing ?m (messages ?m evs = []) (length (samples_of t0)) [] (samples_of t0) j1"
  proof (rule hearing_all_in)
    have "unheard j1 ?m = samples_of t0" "new_packet j1 ?m" "audio_out_buffer j1 ?m \<noteq> []"
      using nc assms(8) by (simp_all add: j1_def unheard_def audio_out_def Let_def)
    moreover from this(1) have "[] @ unheard j1 ?m = silence 0 @ samples_of t0 @ silence 0" by simp
    ultimately show "hearing ?m False (length (samples_of t0)) [] (samples_of t0) j1"
      unfolding hearing_def by (metis less_irrefl order_refl)
  qed simp
  ultimately obtain j' os n where r: "run (jack_handle cfg' modem) evs j1 = Inr (j', os)"
    and h: "hearing ?m True n ([] @ heard i os) (samples_of t0 @ concat (map samples_of (messages ?m evs))) j'"
    using hearing_run [OF assms(10,12), of origin B j1 evs] assms(9,15,16) by blast
  have "samples_of t0 @ concat (map samples_of (messages ?m evs)) = concat (map samples stretch)"
    using samples_of_stretch [OF s(2)] assms(15) by simp
  with h obtain f pad where "heard i os @ unheard j' ?m = silence f @ concat (map samples stretch) @ silence pad"
    "0 < pad \<longrightarrow> unheard j' ?m = []"
    by (auto simp: hearing_def)
  with r first s show ?thesis by (auto simp: run_Cons_Inr simp del: jack_handle.simps)
qed

theorem packet_heard_as_captured_witness:
  "\<exists>j' os f pad. run (jack_handle jack_cfg1 0)
       [Audio_Out (tagged (Some (loud 1)) START 0) 0, Process (period 1 []), Loop_Take,
        Audio_Out (tagged (Some (still 2)) END 0) 0, Process (period 2 [])]
       (fst (jack_buffer_size_change 0 3 (jack_init jack_cfg1 0))) = Inr (j', os)
     \<and> heard 0 os @ unheard j' 0 = silence f @ [Fin 1, Fin 0, Fin 0, Fin 0, Fin 0, Fin 0] @ silence pad"
proof -
  let ?j = "fst (jack_buffer_size_change 0 3 (jack_init jack_cfg1 0))"
  let ?START = "tagged (Some (loud 1)) START 0" and ?END = "tagged (Some (still 2)) END 0"
  let ?evs = "[Process (period 1 []), Loop_Take, Audio_Out ?END 0, Process (period 2 [])]"
  obtain d' where d: "run (detector_handle example_cfg list_cbuf) (map Audio_In [loud 1, still 2])
      (detector_init list_cbuf) = Inr (d', [?START, ?END])"
    by (simp add: audio_in_def start_packet_def Let_def drain.simps list_cbuf_def loud_def still_def pushed_def)
  have m: "port_modem jack_cfg1 0 = 0" by (simp add: port_modem_def)
  have inv: "jack_inv 0 40000 2 ?j"
    by (simp add: jack_inv_def jack_buffer_size_change_def jack_init_def silent_empty)
  have cfg: "timely_cfg jack_cfg1 40000 0" by (simp add: timely_cfg_def)
  have ok: "list_all (admissible 0 40000 2) (Audio_Out ?START (port_modem jack_cfg1 0) # ?evs)"
    by (simp add: timely_def loud_def still_def period_def)
  have port: "0 < nat (local_number_of_modems jack_cfg1)" "output_port ?j 0"
    by (simp_all add: jack_buffer_size_change_def jack_init_def)
  have msgs: "messages (port_modem jack_cfg1 0) ?evs = [?END]" by (simp add: m)
  have ahead: "ahead (port_modem jack_cfg1 0) (length (samples_of ?START)) ?evs"
    by (simp add: m samples_of_def loud_def still_def)
  have init: "\<not> in_packet (detector_init list_cbuf :: (nat \<times> audio_buffer option list) detector)"
    "0 < fst (prebuffer (detector_init list_cbuf))" "snd (prebuffer (detector_init list_cbuf)) = map Some []"
    by (simp_all add: list_cbuf_def)
  have packet: "sublist [?START, ?END] [?START, ?END]" "tmarker ?START = START" "\<forall>t \<in> set [?END]. tmarker t \<noteq> START"
    by simp_all
  have "\<not> continuous example_cfg" by simp
  note packet_heard_as_captured [OF list_cbuf.circular_buffer_axioms this init d packet cfg inv port ok msgs ahead, of 0]
  then obtain stretch j' os f pad where r: "map tbuffer [?START, ?END] = map Some stretch"
    "run (jack_handle jack_cfg1 0) (Audio_Out ?START (port_modem jack_cfg1 0) # ?evs) ?j = Inr (j', os)"
    "heard 0 os @ unheard j' (port_modem jack_cfg1 0) = silence f @ concat (map samples stretch) @ silence pad"
    by (elim exE conjE)
  from r(1) have "stretch = [loud 1, still 2]" by auto
  with r(2,3) show ?thesis by (simp only: m) (auto simp: loud_def still_def simp del: run.simps)
qed

end
