(* ===== verification/Text.thy ===== *)
theory Text
  imports Prelude
begin

text \<open>
  Strings of the C++ standard library as the components use them: the decimal form of an integer
  (\<open>std::to_string\<close>, \<open>operator<<\<close>), padding with \<open>std::setw\<close> and \<open>std::setfill\<close>, and \<open>std::getline\<close>
  with a delimiter.
\<close>

section \<open>Decimal numbers\<close>

definition digit :: "nat \<Rightarrow> char" where
  "digit n = ''0123456789'' ! n"

definition digit_val :: "char \<Rightarrow> nat" where
  "digit_val c = (of_char c :: nat) - 48"

fun dec_nat :: "nat \<Rightarrow> string" where
  "dec_nat n = (if n < 10 then [digit n] else dec_nat (n div 10) @ [digit (n mod 10)])"

declare dec_nat.simps [simp del]

definition dec :: "int \<Rightarrow> string" where
  "dec n = (if n < 0 then CHR ''-'' # dec_nat (nat (- n)) else dec_nat (nat n))"

definition read_nat :: "string \<Rightarrow> nat" where
  "read_nat s = foldl (\<lambda>n c. n * 10 + digit_val c) 0 s"

definition digits :: "char set" where
  "digits = set ''0123456789''"

lemma less_10_cases: "(n::nat) < 10 \<Longrightarrow> n \<in> {0, 1, 2, 3, 4, 5, 6, 7, 8, 9}"
  by (simp add: eval_nat_numeral less_Suc_eq)

lemma digit_val_digit [simp]: "n < 10 \<Longrightarrow> digit_val (digit n) = n"
  by (drule less_10_cases) (auto simp: digit_def digit_val_def)

lemma digit_in_digits [simp]: "n < 10 \<Longrightarrow> digit n \<in> digits"
  by (drule less_10_cases) (auto simp: digit_def digits_def)

lemma read_nat_snoc [simp]: "read_nat (s @ [c]) = read_nat s * 10 + digit_val c"
  by (simp add: read_nat_def)

lemma read_dec_nat [simp]: "read_nat (dec_nat n) = n"
proof (induction n rule: dec_nat.induct)
  case (1 n)
  show ?case
  proof (cases "n < 10")
    case True
    then show ?thesis by (subst dec_nat.simps) (simp add: read_nat_def)
  next
    case False
    then have "read_nat (dec_nat n) = n div 10 * 10 + n mod 10"
      using 1 by (subst dec_nat.simps) simp
    then show ?thesis by simp
  qed
qed

lemma set_dec_nat: "set (dec_nat n) \<subseteq> digits"
proof (induction n rule: dec_nat.induct)
  case (1 n)
  then show ?case by (subst dec_nat.simps) auto
qed

lemma dec_nat_not_Nil [simp]: "dec_nat n \<noteq> []"
  by (subst dec_nat.simps) simp

lemma dash_not_digit [simp]: "CHR ''-'' \<notin> digits"
  by (simp add: digits_def)

lemma set_dec: "set (dec n) \<subseteq> insert (CHR ''-'') digits"
  using set_dec_nat by (auto simp: dec_def)

section \<open>Padding\<close>

text \<open>\<open>std::setw(n) << std::setfill('0')\<close>: the text is padded on the left, in front of a sign too.\<close>

definition pad0 :: "nat \<Rightarrow> string \<Rightarrow> string" where
  "pad0 n s = replicate (n - length s) CHR ''0'' @ s"

text \<open>The number that a padded decimal text stands for.\<close>

definition read_int :: "string \<Rightarrow> int" where
  "read_int s = (if CHR ''-'' \<in> set s then - int (read_nat (filter (\<lambda>c. c \<noteq> CHR ''-'') s))
                 else int (read_nat s))"

lemma read_nat_zeros [simp]: "read_nat (replicate k CHR ''0'' @ s) = read_nat s"
  by (induction k) (simp_all add: read_nat_def digit_val_def)

lemma filter_dash: "set s \<subseteq> digits \<Longrightarrow> filter (\<lambda>c. c \<noteq> CHR ''-'') s = s"
  by (auto simp: filter_id_conv)

lemma read_pad_dec: "read_int (pad0 k (dec n)) = n"
proof (cases "n < 0")
  case True
  then show ?thesis
    by (simp add: read_int_def pad0_def dec_def filter_dash [OF set_dec_nat] filter_replicate)
next
  case False
  then have "CHR ''-'' \<notin> set (pad0 k (dec n))"
    using set_dec_nat [of "nat n"] by (auto simp: pad0_def dec_def)
  with False show ?thesis by (simp add: read_int_def pad0_def dec_def)
qed

lemma pad_dec_inject: "pad0 k (dec m) = pad0 k (dec n) \<longleftrightarrow> m = n"
  by (metis read_pad_dec)

lemma dec_inject [simp]: "dec m = dec n \<longleftrightarrow> m = n"
  using pad_dec_inject [of 0 m n] by (simp add: pad0_def)

lemma set_pad_dec: "set (pad0 k (dec n)) \<subseteq> insert (CHR ''-'') digits"
  using set_dec [of n] by (auto simp: pad0_def digits_def)

lemma length_dec_nat: "n < 10 ^ Suc k \<Longrightarrow> length (dec_nat n) \<le> Suc k"
proof (induction k arbitrary: n)
  case 0
  then show ?case by (subst dec_nat.simps) simp
next
  case (Suc k)
  then have "n div 10 < 10 ^ Suc k" by (simp add: div_less_iff_less_mult)
  from Suc.IH [OF this] show ?case by (subst dec_nat.simps) simp
qed

lemma length_pad_dec:
  assumes "0 \<le> n" and "n < 10 ^ k" and "0 < k"
  shows "length (pad0 k (dec n)) = k"
proof -
  obtain j where k: "k = Suc j" using assms(3) by (cases k) auto
  have "nat n < 10 ^ Suc j"
    using assms(1,2) k by (metis nat_less_iff of_nat_numeral of_nat_power)
  from length_dec_nat [OF this] assms(1) show ?thesis by (simp add: pad0_def dec_def k)
qed

section \<open>Splitting at a separator\<close>

lemma append_sep_inject:
  "c \<notin> set xs \<Longrightarrow> c \<notin> set xs' \<Longrightarrow> xs @ c # ys = xs' @ c # ys' \<longleftrightarrow> xs = xs' \<and> ys = ys'"
proof (induction xs arbitrary: xs')
  case Nil
  then show ?case by (cases xs') auto
next
  case (Cons x xs)
  then show ?case by (cases xs') auto
qed

text \<open>
  \<open>std::getline(is, s, d)\<close> on a stream that has the given characters left and is in a good state: up to
  the delimiter, which is removed, or else everything, and then the stream is no longer good. On a
  stream that is not good nothing is read.
\<close>

type_synonym istream = "string \<times> bool"

fun getline :: "char \<Rightarrow> istream \<Rightarrow> string \<times> istream" where
  "getline d (s, good) =
     (if \<not> good then ([], (s, False))
      else if d \<in> set s
      then (takeWhile (\<lambda>c. c \<noteq> d) s, (tl (dropWhile (\<lambda>c. c \<noteq> d) s), True))
      else (s, ([], False)))"

lemma getline_found [simp]: "d \<notin> set s \<Longrightarrow> getline d (s @ d # t, True) = (s, (t, True))"
  by (induction s) auto

lemma getline_shrinks: "fst (snd (getline d (s, good))) = s \<and> (\<not> good \<or> s = [])
    \<or> length (fst (snd (getline d (s, good)))) < length s"
proof -
  have "length (tl (dropWhile (\<lambda>c. c \<noteq> d) s)) < length s" if "d \<in> set s"
  proof -
    have "dropWhile (\<lambda>c. c \<noteq> d) s \<noteq> []" using that by (simp add: dropWhile_eq_Nil_conv)
    moreover have "length (dropWhile (\<lambda>c. c \<noteq> d) s) \<le> length s" by (rule length_dropWhile_le)
    ultimately show ?thesis by (cases "dropWhile (\<lambda>c. c \<noteq> d) s") auto
  qed
  then show ?thesis by auto
qed

declare getline.simps [simp del]

lemma getline_le: "length (fst (snd (getline d (s, good)))) \<le> length s"
proof -
  from getline_shrinks [of d s good]
  have "fst (snd (getline d (s, good))) = s \<or> length (fst (snd (getline d (s, good)))) < length s"
    by blast
  then show ?thesis by (elim disjE) simp_all
qed

end
