(* ===== verification/Jack_Setup.thy ===== *)
theory Jack_Setup
  imports Jack Text
begin

text \<open>
  The constructor of \<open>JackThread\<close> (\<open>src/apps/netsim_core/jack_thread.h\<close>, lines 62 to 209): the client is
  opened and activated, and its ports are registered and connected. From the activation on the sound
  server calls \<open>jack_process\<close>, so the callback meets every state the ports go through here; each step
  is an event that interleaves with those of Jack.thy.

  The sound server is a parameter: what it answers to each call. Its answer to \<open>jack_client_open\<close> stands
  for the configured name of the server too. The lists of ports are only logged and tested for null.
\<close>

section \<open>The calls of the constructor\<close>

record jack_server =
  opens_client :: "string \<Rightarrow> bool"
  sample_rate :: "32 word"
  activates :: bool
  lists_outputs :: bool
  lists_physical_inputs :: bool
  registers :: "string \<Rightarrow> bool"
  port_name_of :: "string \<Rightarrow> string"
  connects :: "string \<Rightarrow> string \<Rightarrow> bool"

datatype setup_step =
    Open_Client | Check_Rate | Activate
  | List_Capture_Ports | Register_Input | Connect_Input
  | List_Playback_Ports | Register_Output nat | Connect_Output nat

datatype jack_link = Capture_Link string string | Playback_Link string string

definition client_name :: "int \<Rightarrow> string" where
  "client_name modem = ''netsim_core_thread_'' @ dec modem"

definition input_name :: "int \<Rightarrow> string" where
  "input_name modem = ''input_'' @ dec modem"

definition output_name :: "int \<Rightarrow> string" where
  "output_name modem = ''output_'' @ dec modem"

definition capture_port_name :: "core_config \<Rightarrow> int \<Rightarrow> string" where
  "capture_port_name cfg modem = capture_port_prefix (jack_cfg cfg) @ dec (capture_port_number cfg modem)"

definition playback_port_name :: "core_config \<Rightarrow> nat \<Rightarrow> string" where
  "playback_port_name cfg i = playback_port_prefix (jack_cfg cfg) @ dec (playback_port_number cfg i)"

text \<open>The data members as they are initialised.\<close>

definition unconnected :: jack_thread where
  "unconnected =
     \<lparr>input_port = False, output_port = (\<lambda>_. False), buffer_size = 0, audio_in_buffer = [],
      audio_out_buffer = (\<lambda>_. []), audio_out_index = (\<lambda>_. 0), new_packet = (\<lambda>_. False),
      empty_buffer = None, loop_pc = Waiting\<rparr>"

definition or_die :: "bool \<Rightarrow> jack_thread \<Rightarrow> jack_link list \<Rightarrow> (jack_thread \<times> jack_link list) res" where
  "or_die ok j links = (if ok then Inr (j, links) else Inl Die)"

fun setup_handle :: "jack_server \<Rightarrow> core_config \<Rightarrow> int \<Rightarrow> (setup_step, jack_thread, jack_link) handler" where
  "setup_handle srv cfg modem Open_Client j = or_die (opens_client srv (client_name modem)) j []"
| "setup_handle srv cfg modem Check_Rate j = or_die (sample_rate srv = fs_of cfg) j []"
| "setup_handle srv cfg modem Activate j = or_die (activates srv) j []"
| "setup_handle srv cfg modem List_Capture_Ports j = or_die (lists_outputs srv) j []"
| "setup_handle srv cfg modem Register_Input j = or_die (registers srv (input_name modem)) (j\<lparr>input_port := True\<rparr>) []"
| "setup_handle srv cfg modem Connect_Input j =
     or_die (connects srv (capture_port_name cfg modem) (port_name_of srv (input_name modem))) j
       [Capture_Link (capture_port_name cfg modem) (input_name modem)]"
| "setup_handle srv cfg modem List_Playback_Ports j = or_die (lists_physical_inputs srv) j []"
| "setup_handle srv cfg modem (Register_Output i) j =
     or_die (registers srv (output_name (port_modem cfg i))) (j\<lparr>output_port := (output_port j)(i := True)\<rparr>) []"
| "setup_handle srv cfg modem (Connect_Output i) j =
     or_die (connects srv (port_name_of srv (output_name (port_modem cfg i))) (playback_port_name cfg i)) j
       [Playback_Link (output_name (port_modem cfg i)) (playback_port_name cfg i)]"

definition setup_steps :: "core_config \<Rightarrow> int \<Rightarrow> setup_step list" where
  "setup_steps cfg modem =
     [Open_Client, Check_Rate, Activate]
     @ (if do_capture cfg modem then [List_Capture_Ports, Register_Input, Connect_Input] else [])
     @ [List_Playback_Ports]
     @ concat (map (\<lambda>i. [Register_Output i, Connect_Output i]) [0..<nat (local_number_of_modems cfg)])"

text \<open>A negative size of the vector \<open>output_port_\<close> is an exception.\<close>

definition jack_construct :: "jack_server \<Rightarrow> core_config \<Rightarrow> int \<Rightarrow> (jack_thread \<times> jack_link list) res" where
  "jack_construct srv cfg modem =
     (if local_number_of_modems cfg < 0 then Inl (Runtime_Error ''length_error'')
      else run (setup_handle srv cfg modem) (setup_steps cfg modem) unconnected)"

section \<open>What the constructor does\<close>

definition port_ok :: "jack_server \<Rightarrow> core_config \<Rightarrow> nat \<Rightarrow> bool" where
  "port_ok srv cfg i \<longleftrightarrow>
     registers srv (output_name (port_modem cfg i))
     \<and> connects srv (port_name_of srv (output_name (port_modem cfg i))) (playback_port_name cfg i)"

definition server_accepts :: "jack_server \<Rightarrow> core_config \<Rightarrow> int \<Rightarrow> bool" where
  "server_accepts srv cfg modem \<longleftrightarrow>
     opens_client srv (client_name modem) \<and> sample_rate srv = fs_of cfg \<and> activates srv
     \<and> (do_capture cfg modem \<longrightarrow>
          lists_outputs srv \<and> registers srv (input_name modem)
          \<and> connects srv (capture_port_name cfg modem) (port_name_of srv (input_name modem)))
     \<and> lists_physical_inputs srv \<and> (\<forall>i < nat (local_number_of_modems cfg). port_ok srv cfg i)"

definition playback_links :: "core_config \<Rightarrow> nat list \<Rightarrow> jack_link list" where
  "playback_links cfg is = map (\<lambda>i. Playback_Link (output_name (port_modem cfg i)) (playback_port_name cfg i)) is"

definition links :: "core_config \<Rightarrow> int \<Rightarrow> jack_link list" where
  "links cfg modem =
     (if do_capture cfg modem then [Capture_Link (capture_port_name cfg modem) (input_name modem)] else [])
     @ playback_links cfg [0..<nat (local_number_of_modems cfg)]"

lemma run_outputs:
  "run (setup_handle srv cfg modem) (concat (map (\<lambda>i. [Register_Output i, Connect_Output i]) is)) j =
     (if \<forall>i \<in> set is. port_ok srv cfg i
      then Inr (j\<lparr>output_port := \<lambda>i. output_port j i \<or> i \<in> set is\<rparr>, playback_links cfg is)
      else Inl Die)"
proof (induction "is" arbitrary: j)
  case (Cons i "is")
  have "(\<lambda>k. (k \<noteq> i \<longrightarrow> output_port j k) \<or> k \<in> set is) = (\<lambda>k. output_port j k \<or> k = i \<or> k \<in> set is)" by auto
  with Cons show ?case
    by (auto simp: or_die_def port_ok_def playback_links_def)
qed (simp add: playback_links_def)

lemma construct_eq:
  "0 \<le> local_number_of_modems cfg \<Longrightarrow>
     jack_construct srv cfg modem =
       (if server_accepts srv cfg modem then Inr (jack_init cfg modem, links cfg modem) else Inl Die)"
  by (auto simp: jack_construct_def setup_steps_def run_append run_outputs or_die_def server_accepts_def
      jack_init_def unconnected_def links_def less_nat_zero_code zless_nat_eq_int_zless)

lemma playback_link_mem:
  "Playback_Link (output_name modem) p \<in> set (links cfg modem') \<longleftrightarrow>
     is_local cfg modem \<and> p = playback_port_name cfg (nat (modem - first_modem_index cfg))"
proof -
  have "Playback_Link (output_name modem) p \<in> set (links cfg modem') \<longleftrightarrow>
      (\<exists>i < nat (local_number_of_modems cfg). port_modem cfg i = modem \<and> p = playback_port_name cfg i)"
    by (auto simp: links_def playback_links_def output_name_def)
  also have "\<dots> \<longleftrightarrow> is_local cfg modem \<and> p = playback_port_name cfg (nat (modem - first_modem_index cfg))"
    by (auto simp: port_modem_def is_local_def intro!: exI [of _ "nat (modem - first_modem_index cfg)"])
  finally show ?thesis .
qed

text \<open>
  C10: The constructor does what the table of links says: it succeeds exactly if the sound server accepts
  every call, and then every local modem is played to its own port, and the thread's modem, if it is
  local, and no other is captured, from the port with the same number as the port it is played to.
\<close>

theorem ports_connected:
  "jack_construct srv cfg modem =
     (if local_number_of_modems cfg < 0 then Inl (Runtime_Error ''length_error'')
      else if server_accepts srv cfg modem then Inr (jack_init cfg modem, links cfg modem)
      else Inl Die)
   \<and> distinct (links cfg modem)
   \<and> (\<exists>p. Playback_Link (output_name m) p \<in> set (links cfg modem)) = is_local cfg m
   \<and> (Capture_Link (capture_port_prefix (jack_cfg cfg) @ dec k) (input_name m) \<in> set (links cfg modem) \<longleftrightarrow>
        m = modem \<and> Playback_Link (output_name m) (playback_port_prefix (jack_cfg cfg) @ dec k) \<in> set (links cfg modem))"
proof (intro conjI)
  show "jack_construct srv cfg modem =
     (if local_number_of_modems cfg < 0 then Inl (Runtime_Error ''length_error'')
      else if server_accepts srv cfg modem then Inr (jack_init cfg modem, links cfg modem)
      else Inl Die)"
    using construct_eq [of cfg srv modem] by (auto simp: jack_construct_def)
  show "distinct (links cfg modem)"
    by (auto simp: links_def playback_links_def distinct_map inj_on_def output_name_def port_modem_def)
  show "(\<exists>p. Playback_Link (output_name m) p \<in> set (links cfg modem)) = is_local cfg m"
    by (simp add: playback_link_mem)
  have "Capture_Link p (input_name m) \<in> set (links cfg modem) \<longleftrightarrow>
      do_capture cfg modem \<and> m = modem \<and> p = capture_port_name cfg modem" for p
    by (auto simp: links_def playback_links_def input_name_def)
  then show "Capture_Link (capture_port_prefix (jack_cfg cfg) @ dec k) (input_name m) \<in> set (links cfg modem) \<longleftrightarrow>
        m = modem \<and> Playback_Link (output_name m) (playback_port_prefix (jack_cfg cfg) @ dec k) \<in> set (links cfg modem)"
    by (auto simp: playback_link_mem do_capture_def is_local_def capture_port_name_def playback_port_name_def
        capture_port_number_def playback_port_number_def)
qed

section \<open>The callback between the steps\<close>

datatype setup_event = Setup setup_step | Live jack_event

fun live_handle ::
    "jack_server \<Rightarrow> core_config \<Rightarrow> int \<Rightarrow> (setup_event, jack_thread, jack_link + jack_output) handler" where
  "live_handle srv cfg modem (Setup st) j =
     res_bind (setup_handle srv cfg modem st j) (\<lambda>(j', ls). Inr (j', map Inl ls))"
| "live_handle srv cfg modem (Live ev) j =
     res_bind (jack_handle cfg modem ev j) (\<lambda>(j', os). Inr (j', map Inr os))"

definition same_ports :: "jack_thread \<Rightarrow> jack_thread \<Rightarrow> bool" where
  "same_ports j j' \<longleftrightarrow> input_port j' = input_port j \<and> output_port j' = output_port j"

lemma jack_handle_ports: "jack_handle cfg modem ev j = Inr (j', os) \<Longrightarrow> same_ports j j'"
proof (cases ev)
  case (Process env)
  assume "jack_handle cfg modem ev j = Inr (j', os)"
  with Process obtain j1 rec outs where "capture_step env j = Inr (j1, rec)"
    and "play_ports cfg env [0..<nat (local_number_of_modems cfg)] j1 = Inr (j', outs)"
    by (auto simp: jack_process_def res_bind_eq_Inr)
  moreover from this(1) have "same_ports j j1"
    by (auto simp: capture_step_def same_ports_def Let_def split: if_splits)
  ultimately show ?thesis using play_ports_same by (fastforce simp: same_ports_def same_capture_def)
qed (auto simp: audio_out_def jack_buffer_size_change_def loop_take_def loop_pop_def same_ports_def Let_def
    jack_xrun_def jack_shutdown_def
    res_bind_eq_Inr split: if_splits list.splits loop_pc.splits)

fun setup_of :: "setup_event \<Rightarrow> setup_step list" where
  "setup_of (Setup st) = [st]"
| "setup_of (Live ev) = []"

fun links_of :: "jack_link + jack_output \<Rightarrow> jack_link list" where
  "links_of (Inl l) = [l]"
| "links_of (Inr x) = []"

fun step_links :: "core_config \<Rightarrow> int \<Rightarrow> setup_step \<Rightarrow> jack_link list" where
  "step_links cfg modem Connect_Input = [Capture_Link (capture_port_name cfg modem) (input_name modem)]"
| "step_links cfg modem (Connect_Output i) = playback_links cfg [i]"
| "step_links cfg modem _ = []"

text \<open>The ports and links are those of the steps so far, whatever the callback has done in between.\<close>

definition setup_hist ::
    "core_config \<Rightarrow> int \<Rightarrow> setup_event list \<Rightarrow> (jack_link + jack_output) list \<Rightarrow> jack_thread \<Rightarrow> bool" where
  "setup_hist cfg modem es os j \<longleftrightarrow>
     (input_port j \<longleftrightarrow> Register_Input \<in> set (concat (map setup_of es)))
     \<and> (\<forall>i. output_port j i \<longleftrightarrow> Register_Output i \<in> set (concat (map setup_of es)))
     \<and> concat (map links_of os) = concat (map (step_links cfg modem) (concat (map setup_of es)))"

lemma links_of_Inl [simp]: "concat (map (links_of \<circ> Inl) ls) = ls"
  by (induction ls) simp_all

lemma links_of_Inr [simp]: "concat (map (links_of \<circ> Inr) os) = []"
  by (induction os) simp_all

lemma setup_handle_links: "setup_handle srv cfg modem st j = Inr (j', ls) \<Longrightarrow> ls = step_links cfg modem st"
  by (cases st) (auto simp: or_die_def playback_links_def split: if_splits)

lemma setup_handle_ports:
  "setup_handle srv cfg modem st j = Inr (j', ls) \<Longrightarrow>
     input_port j' = (input_port j \<or> st = Register_Input)
     \<and> output_port j' = (\<lambda>i. output_port j i \<or> st = Register_Output i)"
  by (cases st) (auto simp: or_die_def split: if_splits)

interpretation ports: traced_component "live_handle srv cfg modem" "\<lambda>_. True" "setup_hist cfg modem" for srv cfg modem
proof unfold_locales
  fix e es os s s' out
  assume hist: "setup_hist cfg modem es os s" and step: "live_handle srv cfg modem e s = Inr (s', out)"
  show "setup_hist cfg modem (es @ [e]) (os @ out) s'"
  proof (cases e)
    case (Setup st)
    with step obtain ls where "setup_handle srv cfg modem st s = Inr (s', ls)" and "out = map Inl ls"
      by (auto simp: res_bind_eq_Inr)
    with hist Setup setup_handle_ports [OF this(1)] setup_handle_links [OF this(1)] show ?thesis
      by (auto simp: setup_hist_def)
  next
    case (Live ev)
    with step obtain xs where "jack_handle cfg modem ev s = Inr (s', xs)" and "out = map Inr xs"
      by (auto simp: res_bind_eq_Inr)
    with hist Live jack_handle_ports [OF this(1)] show ?thesis by (auto simp: setup_hist_def same_ports_def)
  qed
qed

definition accepted :: "jack_server \<Rightarrow> core_config \<Rightarrow> int \<Rightarrow> setup_step \<Rightarrow> bool" where
  "accepted srv cfg modem st \<longleftrightarrow> setup_handle srv cfg modem st unconnected \<noteq> Inl Die"

definition untouched :: "jack_thread \<Rightarrow> bool" where
  "untouched j \<longleftrightarrow> audio_out_buffer j = (\<lambda>_. []) \<and> loop_pc j = Waiting"

lemma accepted_step:
  assumes "accepted srv cfg modem st"
  shows "\<exists>j' ls. setup_handle srv cfg modem st j = Inr (j', ls)
     \<and> (untouched j \<longrightarrow> untouched j') \<and> (jack_inv t0 H B j \<longrightarrow> jack_inv t0 H B j')"
  using assms by (cases st) (auto simp: accepted_def or_die_def untouched_def jack_inv_def split: if_splits)

lemma accepted_setup_steps:
  "server_accepts srv cfg modem \<Longrightarrow> st \<in> set (setup_steps cfg modem) \<Longrightarrow> accepted srv cfg modem st"
  by (auto simp: server_accepts_def setup_steps_def accepted_def or_die_def port_ok_def split: if_splits)

text \<open>Before the sound server has announced a buffer size there are only steps of the constructor.\<close>

fun early_ok :: "jack_server \<Rightarrow> core_config \<Rightarrow> int \<Rightarrow> setup_event \<Rightarrow> bool" where
  "early_ok srv cfg modem (Setup st) = accepted srv cfg modem st"
| "early_ok srv cfg modem (Live ev) = False"

fun live_ok ::
    "jack_server \<Rightarrow> core_config \<Rightarrow> int \<Rightarrow> nat \<Rightarrow> nat \<Rightarrow> rat \<Rightarrow> nat \<Rightarrow> setup_event \<Rightarrow> bool" where
  "live_ok srv cfg modem H C t0 B (Setup st) = accepted srv cfg modem st"
| "live_ok srv cfg modem H C t0 B (Live ev) = (timely_cfg cfg H C \<and> admissible t0 H B ev)"

interpretation early: total_component "live_handle srv cfg modem" "early_ok srv cfg modem" untouched for srv cfg modem
proof unfold_locales
  fix e s s' out
  assume "early_ok srv cfg modem e" "untouched s" "live_handle srv cfg modem e s = Inr (s', out)"
  then show "untouched s'" using accepted_step [of srv cfg modem _ s] by (cases e) (fastforce simp: res_bind_eq_Inr)+
next
  fix e s
  assume "early_ok srv cfg modem e" "untouched s"
  then show "\<exists>s' out. live_handle srv cfg modem e s = Inr (s', out)"
    using accepted_step [of srv cfg modem _ s] by (cases e) (fastforce simp: res_bind_eq_Inr)+
qed

interpretation live: total_component "live_handle srv cfg modem" "live_ok srv cfg modem H C t0 B" "jack_inv t0 H B"
  for srv cfg modem H C t0 B
proof unfold_locales
  fix e s s' out
  assume "live_ok srv cfg modem H C t0 B e" "jack_inv t0 H B s" "live_handle srv cfg modem e s = Inr (s', out)"
  then show "jack_inv t0 H B s'"
    using accepted_step [of srv cfg modem _ s t0 H B] jack.inv_step [of cfg H C t0 B _ s modem]
    by (cases e) (fastforce simp: res_bind_eq_Inr)+
next
  fix e s
  assume "live_ok srv cfg modem H C t0 B e" "jack_inv t0 H B s"
  then show "\<exists>s' out. live_handle srv cfg modem e s = Inr (s', out)"
    using accepted_step [of srv cfg modem _ s t0 H B] jack.progress [of cfg H C t0 B _ s modem]
    by (cases e) (fastforce simp: res_bind_eq_Inr)+
qed

lemma setup_steps_ports:
  "Register_Input \<in> set (setup_steps cfg modem) \<longleftrightarrow> do_capture cfg modem"
  "Register_Output i \<in> set (setup_steps cfg modem) \<longleftrightarrow> int i < local_number_of_modems cfg"
  by (auto simp: setup_steps_def zless_nat_eq_int_zless)

lemma output_steps_links:
  "concat (map (step_links cfg modem) (concat (map (\<lambda>i. [Register_Output i, Connect_Output i]) is))) =
     playback_links cfg is"
  by (induction "is") (simp_all add: playback_links_def)

lemma setup_steps_links: "concat (map (step_links cfg modem) (setup_steps cfg modem)) = links cfg modem"
  by (simp add: setup_steps_def links_def output_steps_links)

lemma setup_of_Setup [simp]: "concat (map (setup_of \<circ> Setup) sts) = sts"
  by (induction sts) simp_all

text \<open>
  C8: The callback may run at any time while the constructor is still connecting its ports. Whatever the
  interleaving of the steps of the constructor with periods, messages, new buffer sizes and steps of the
  publishing loop, once the sound server has announced a buffer size nothing faults, under the bounds
  of \<open>jack_never_faults\<close>, and in the end exactly the ports and links of the constructor are there.
\<close>

theorem setup_interleaves_with_callback:
  assumes "server_accepts srv cfg modem" and "timely_cfg cfg H C" and "B \<le> unat n"
    and "early @ concat (map setup_of es) = setup_steps cfg modem"
    and "\<forall>ev. Live ev \<in> set es \<longrightarrow> admissible t0 H B ev"
  shows "\<exists>j os. run (live_handle srv cfg modem) (map Setup early @ Live (Set_Buffer_Size n) # es) unconnected = Inr (j, os)
     \<and> input_port j = do_capture cfg modem \<and> (\<forall>i. output_port j i \<longleftrightarrow> int i < local_number_of_modems cfg)
     \<and> concat (map links_of os) = links cfg modem"
proof -
  let ?h = "live_handle srv cfg modem" and ?n = "Live (Set_Buffer_Size n)"
  have steps: "\<forall>st \<in> set early \<union> set (concat (map setup_of es)). accepted srv cfg modem st"
    using accepted_setup_steps [OF assms(1)] by (simp only: assms(4) [symmetric] set_append) blast
  then have "list_all (early_ok srv cfg modem) (map Setup early)" by (simp add: list_all_iff)
  moreover have "untouched unconnected" by (simp add: untouched_def unconnected_def)
  ultimately obtain j1 os1 where r1: "run ?h (map Setup early) unconnected = Inr (j1, os1)" and u: "untouched j1"
    using early.run_total by blast
  obtain j2 os2 where s: "?h ?n j1 = Inr (j2, os2)" by (simp add: jack_buffer_size_change_def)
  with u assms(3) have "jack_inv t0 H B j2"
    by (auto simp: jack_buffer_size_change_def jack_inv_def untouched_def silent_empty)
  moreover have "list_all (live_ok srv cfg modem H C t0 B) es"
    unfolding list_all_iff
  proof
    fix e assume "e \<in> set es"
    with steps assms(2,5) show "live_ok srv cfg modem H C t0 B e" by (cases e) force+
  qed
  ultimately obtain j os3 where r2: "run ?h es j2 = Inr (j, os3)" using live.run_total by blast
  have r: "run ?h (map Setup early @ ?n # es) unconnected = Inr (j, os1 @ os2 @ os3)"
    using r1 s r2 by (simp add: run_append)
  have "setup_hist cfg modem [] [] unconnected" by (simp add: setup_hist_def unconnected_def)
  from ports.run_hist [OF _ this r]
  have "setup_hist cfg modem (map Setup early @ ?n # es) (os1 @ os2 @ os3) j" by (simp add: list_all_iff)
  moreover have "concat (map setup_of (map Setup early @ ?n # es)) = setup_steps cfg modem"
    using assms(4) by simp
  ultimately have "input_port j = do_capture cfg modem"
    and "\<forall>i. output_port j i \<longleftrightarrow> int i < local_number_of_modems cfg"
    and "concat (map links_of (os1 @ os2 @ os3)) = links cfg modem"
    by (simp_all only: setup_hist_def setup_steps_ports setup_steps_links simp_thms)
  with r show ?thesis by blast
qed

definition server1 :: jack_server where
  "server1 = \<lparr>opens_client = (\<lambda>_. True), sample_rate = 96000, activates = True, lists_outputs = True,
     lists_physical_inputs = True, registers = (\<lambda>_. True), port_name_of = (\<lambda>p. ''netsim:'' @ p),
     connects = (\<lambda>_ _. True)\<rparr>"

theorem setup_interleaves_with_callback_witness:
  "\<exists>j os. run (live_handle server1 jack_cfg1 0)
       [Setup Open_Client, Setup Check_Rate, Setup Activate, Live (Set_Buffer_Size 2),
        Live (Process (period 0 [Fin 1, Fin 2])), Setup List_Capture_Ports, Setup Register_Input,
        Live (Process (period 1 [Fin 3, Fin 4])), Setup Connect_Input, Setup List_Playback_Ports,
        Setup (Register_Output 0), Live Loop_Take, Setup (Connect_Output 0)] unconnected = Inr (j, os)
     \<and> input_port j \<and> concat (map links_of os) =
         [Capture_Link ''system:capture_1'' ''input_0'', Playback_Link ''output_0'' ''system:playback_1'']"
proof -
  have a: "server_accepts server1 jack_cfg1 0"
    by (simp add: server_accepts_def server1_def port_ok_def fs_of_def jack_cfg1_def default_core_config_def)
  have t: "timely_cfg jack_cfg1 0 0"
    by (simp add: timely_cfg_def jack_cfg1_def default_core_config_def)
  let ?es = "[Live (Process (period 0 [Fin 1, Fin 2])), Setup List_Capture_Ports, Setup Register_Input,
        Live (Process (period 1 [Fin 3, Fin 4])), Setup Connect_Input, Setup List_Playback_Ports,
        Setup (Register_Output 0), Live Loop_Take, Setup (Connect_Output 0)]"
  have c: "do_capture jack_cfg1 0" "local_number_of_modems jack_cfg1 = 1"
    by (simp_all add: do_capture_def jack_cfg1_def default_core_config_def first_modem_index_def local_number_of_modems_def)
  then have s: "[Open_Client, Check_Rate, Activate] @ concat (map setup_of ?es) = setup_steps jack_cfg1 0"
    by (simp add: setup_steps_def)
  have ad: "\<forall>ev. Live ev \<in> set ?es \<longrightarrow> admissible 0 0 2 ev" by (auto simp: period_def)
  have "links jack_cfg1 0 =
      [Capture_Link ''system:capture_1'' ''input_0'', Playback_Link ''output_0'' ''system:playback_1'']"
    using c by (simp add: links_def playback_links_def capture_port_name_def playback_port_name_def input_name_def
        output_name_def capture_port_number_def playback_port_number_def port_modem_def jack_cfg1_def
        default_core_config_def first_modem_index_def dec_def dec_nat.simps digit_def)
  with setup_interleaves_with_callback [OF a t _ s ad, of 2] c show ?thesis by auto
qed

end
