(* ===== verification/Core.thy ===== *)
theory Core
  imports Audio "HOL-Library.Multiset"
begin

text \<open>
  How the threads of \<open>netsim_core\<close> are started and connected: the application
  (\<open>src/apps/netsim_core/netsim_core_main.cpp\<close>), the base class of the processor threads
  (\<open>src/lib/core/processor.h\<close>), the echo processor (\<open>src/test/processor_echo\<close>), the bridge between
  instances (\<open>src/apps/netsim_core/bridge.h\<close>), and the subscriptions of the JACK and logger threads.

  A system is a list of instances (\<open>nodes\<close>), each with its configuration. A publication on the
  interthread layer reaches the subscribers of its own instance, one on the interprocess layer the
  subscribers of every instance. \<open>route\<close> follows a publication through the threads that forward it.
\<close>

section \<open>Threads and their subscriptions\<close>

datatype layer = Interthread | Interprocess

datatype thread_id = Bridge | Processor int | Detector int | Jack int | Logger

text \<open>
  \<open>switch (i)\<close> with one case for every number below \<open>NETSIM_MAX_MODEMS\<close> (or another bound), made by
  a repetition macro.
\<close>

definition macro_case :: "int \<Rightarrow> int \<Rightarrow> 'a \<Rightarrow> 'a list" where
  "macro_case bound i x = (if 0 \<le> i \<and> i < bound then [x] else [])"

definition modems :: "core_config \<Rightarrow> int list" where
  "modems cfg = [0..number_of_modems cfg - 1]"

definition processor_subscriptions :: "core_config \<Rightarrow> int \<Rightarrow> (layer \<times> group) list" where
  "processor_subscriptions cfg to_index =
     (Interthread, Buffer_Size_Change) #
     concat (map (\<lambda>i. if i \<noteq> to_index
                      then macro_case NETSIM_MAX_MODEMS i (Interthread, DetectorAudio i) else [])
                 (modems cfg))"

definition detector_subscriptions :: "int \<Rightarrow> (layer \<times> group) list" where
  "detector_subscriptions from_index =
     [(Interthread, AudioIn from_index), (Interthread, Buffer_Size_Change)]"

definition jack_subscriptions :: "core_config \<Rightarrow> int \<Rightarrow> (layer \<times> group) list" where
  "jack_subscriptions cfg modem =
     concat (map (\<lambda>i. macro_case NETSIM_MAX_MODEMS i (Interthread, AudioOut modem i)) (modems cfg))"

text \<open>The logger numbers the pairs of modems and takes the two indices back out of the number.\<close>

definition logger_subscriptions :: "core_config \<Rightarrow> (layer \<times> group) list" where
  "logger_subscriptions cfg =
     concat (map (\<lambda>i. macro_case NETSIM_MAX_MODEMS i (Interthread, DetectorAudio i)) (modems cfg))
     @ concat (map (\<lambda>from_i. concat (map (\<lambda>to_i.
         (let n = from_i * NETSIM_MAX_MODEMS + to_i
          in macro_case (NETSIM_MAX_MODEMS * NETSIM_MAX_MODEMS) n
               (Interthread, AudioOut (n div NETSIM_MAX_MODEMS) (n mod NETSIM_MAX_MODEMS))))
         (modems cfg))) (modems cfg))"

definition bridge_subscriptions :: "core_config \<Rightarrow> (layer \<times> group) list" where
  "bridge_subscriptions cfg =
     concat (map (\<lambda>i. macro_case NETSIM_MAX_MODEMS i
         (if is_local cfg i then (Interthread, DetectorAudio i) else (Interprocess, BridgeAudio i)))
       (modems cfg))"

fun subscriptions :: "core_config \<Rightarrow> thread_id \<Rightarrow> (layer \<times> group) list" where
  "subscriptions cfg Bridge = bridge_subscriptions cfg"
| "subscriptions cfg (Processor i) = processor_subscriptions cfg i"
| "subscriptions cfg (Detector i) = detector_subscriptions i"
| "subscriptions cfg (Jack i) = jack_subscriptions cfg i"
| "subscriptions cfg Logger = logger_subscriptions cfg"

section \<open>Forwarding\<close>

definition bridge_out :: "int \<Rightarrow> (layer \<times> group) list" where
  "bridge_out from_index = macro_case NETSIM_MAX_MODEMS from_index (Interprocess, BridgeAudio from_index)"

definition bridge_in :: "int \<Rightarrow> (layer \<times> group) list" where
  "bridge_in from_index = macro_case NETSIM_MAX_MODEMS from_index (Interthread, DetectorAudio from_index)"

definition publish_audio_buffer :: "int \<Rightarrow> int \<Rightarrow> (layer \<times> group) list" where
  "publish_audio_buffer to_index tx_modem_id =
     macro_case NETSIM_MAX_MODEMS tx_modem_id (Interthread, AudioOut tx_modem_id to_index)"

text \<open>
  \<open>audio_out_groups_\<close> of the processor base class: groups computed from the modem number. Nothing
  reads them.
\<close>

definition audio_out_groups :: "core_config \<Rightarrow> int \<Rightarrow> (string \<times> int option) list" where
  "audio_out_groups cfg to_index = map (\<lambda>i. (''aout'', Some (i + to_index))) (modems cfg)"

text \<open>The echo processor publishes what it gets.\<close>

definition echo_detector_audio :: "int \<Rightarrow> int \<Rightarrow> (layer \<times> group) list" where
  "echo_detector_audio to_index modem_id = publish_audio_buffer to_index modem_id"

fun forward :: "thread_id \<Rightarrow> group \<Rightarrow> (layer \<times> group) list" where
  "forward Bridge (DetectorAudio i) = bridge_out i"
| "forward Bridge (BridgeAudio i) = bridge_in i"
| "forward (Processor to_index) (DetectorAudio i) = echo_detector_audio to_index i"
| "forward _ _ = []"

section \<open>Launching the threads\<close>

text \<open>
  The constructor of \<open>NetSimCore\<close>. \<open>starts i\<close>: the loaded processor library starts a thread for
  output modem \<open>i\<close>; it is not part of the application. Each wait loop polls a counter for ever, so
  it hangs when too few threads were started.

  The switch that starts the detectors falls through from the case of its number down to case 1.
\<close>

definition detectors_launched :: "int \<Rightarrow> int \<Rightarrow> int list" where
  "detectors_launched first local =
     (let v = local + first
      in if 1 \<le> v \<and> v \<le> NETSIM_MAX_MODEMS then filter (\<lambda>i. first \<le> i) (rev [0..v - 1]) else [])"

definition jacks_launched :: "int \<Rightarrow> int list" where
  "jacks_launched n = (if 1 \<le> n \<and> n \<le> NETSIM_MAX_MODEMS then rev [0..n - 1] else [])"

definition core_launch :: "(int \<Rightarrow> bool) \<Rightarrow> core_config \<Rightarrow> thread_id list res" where
  "core_launch starts cfg =
     (let first = first_modem_index cfg;
          local = local_number_of_modems cfg;
          processors = filter starts [first..first + local - 1];
          detectors = detectors_launched first local
      in if NETSIM_MAX_MODEMS < number_of_modems cfg then Inl Die
         else if int (length processors) < local then Inl Hang
         else if int (length detectors) < local then Inl Hang
         else Inr ((if bridge_cfg cfg = None then [] else [Bridge])
                   @ map Processor processors @ map Detector detectors
                   @ map Jack (jacks_launched (number_of_modems cfg))
                   @ (if run_logger (logger_cfg cfg) then [Logger] else [])))"

text \<open>
  \<open>main\<close> and the start of the constructor: the library with the processor is named by an environment variable
  (\<open>lib\<close>), opened (\<open>dlopen\<close>), and asked for its launch function (\<open>dlsym\<close>), which is known here by the modems
  it launches a processor for.
\<close>

definition core_construct :: "(int \<Rightarrow> bool) option \<Rightarrow> core_config \<Rightarrow> thread_id list res" where
  "core_construct processor_load cfg =
     (if NETSIM_MAX_MODEMS < number_of_modems cfg then Inl Die
      else (case processor_load of None \<Rightarrow> Inl Die | Some starts \<Rightarrow> core_launch starts cfg))"

definition core_main ::
    "string option \<Rightarrow> (string \<Rightarrow> 'h option) \<Rightarrow> ('h \<Rightarrow> (int \<Rightarrow> bool) option) \<Rightarrow> core_config \<Rightarrow> thread_id list res" where
  "core_main lib dlopen dlsym cfg =
     (case lib of
        None \<Rightarrow> Inl Die
      | Some path \<Rightarrow>
          (case dlopen path of
             None \<Rightarrow> Inl Die
           | Some handle \<Rightarrow> core_construct (dlsym handle) cfg))"

text \<open>The library of the echo processor.\<close>

definition echo_starts :: "int \<Rightarrow> bool" where
  "echo_starts i \<longleftrightarrow> macro_case NETSIM_MAX_MODEMS i () \<noteq> []"

section \<open>Delivery\<close>

type_synonym node = "core_config \<times> thread_id list"

definition subscribers :: "node \<Rightarrow> layer \<Rightarrow> group \<Rightarrow> thread_id list" where
  "subscribers nd l g =
     concat (map (\<lambda>t. map (\<lambda>_. t) (filter (\<lambda>s. s = (l, g)) (subscriptions (fst nd) t))) (snd nd))"

fun receivers :: "node list \<Rightarrow> nat \<Rightarrow> layer \<Rightarrow> group \<Rightarrow> (nat \<times> thread_id) list" where
  "receivers nodes src Interthread g = map (Pair src) (subscribers (nodes ! src) Interthread g)"
| "receivers nodes src Interprocess g =
     concat (map (\<lambda>m. map (Pair m) (subscribers (nodes ! m) Interprocess g)) [0..<length nodes])"

text \<open>Every call of a callback that a publication leads to, following at most \<open>hops\<close> publications.\<close>

fun route :: "node list \<Rightarrow> nat \<Rightarrow> nat \<Rightarrow> layer \<Rightarrow> group \<Rightarrow> (nat \<times> thread_id \<times> group) list" where
  "route nodes 0 src l g = []"
| "route nodes (Suc hops) src l g =
     concat (map (\<lambda>(m, t). (m, t, g) #
         concat (map (\<lambda>(l', g'). route nodes hops m l' g') (forward t g)))
       (receivers nodes src l g))"

section \<open>What each thread receives\<close>

lemma concat_map_if: "concat (map (\<lambda>i. if P i then [f i] else []) xs) = map f (filter P xs)"
  by (induction xs) auto

text \<open>An instance with a sensible configuration, and its threads as the launch leaves them.\<close>

definition instance_ok :: "int \<Rightarrow> core_config \<Rightarrow> bool" where
  "instance_ok n cfg \<longleftrightarrow>
     number_of_modems cfg = n \<and> n \<le> NETSIM_MAX_MODEMS \<and> 0 \<le> first_modem_index cfg
     \<and> 0 < local_number_of_modems cfg \<and> first_modem_index cfg + local_number_of_modems cfg \<le> n"

definition local_modems :: "core_config \<Rightarrow> int list" where
  "local_modems cfg =
     [first_modem_index cfg..first_modem_index cfg + local_number_of_modems cfg - 1]"

definition launched :: "core_config \<Rightarrow> thread_id list" where
  "launched cfg =
     (if bridge_cfg cfg = None then [] else [Bridge])
     @ map Processor (local_modems cfg) @ map Detector (rev (local_modems cfg))
     @ map Jack (rev (modems cfg)) @ (if run_logger (logger_cfg cfg) then [Logger] else [])"

lemma set_local_modems [simp]: "i \<in> set (local_modems cfg) \<longleftrightarrow> is_local cfg i"
  by (auto simp: local_modems_def is_local_def)

lemma distinct_local_modems [simp]: "distinct (local_modems cfg)"
  by (simp add: local_modems_def)

lemma set_modems [simp]: "i \<in> set (modems cfg) \<longleftrightarrow> 0 \<le> i \<and> i < number_of_modems cfg"
  by (auto simp: modems_def)

lemma distinct_modems [simp]: "distinct (modems cfg)"
  by (simp add: modems_def)

lemma filter_upto_ge: "a \<le> b \<Longrightarrow> filter (\<lambda>i::int. b \<le> i) [a..c] = [b..c]" 
proof (induction "nat (b - a)" arbitrary: a)
  case 0
  then show ?case by simp
next
  case (Suc n)
  then have ab: "a < b" by linarith
  show ?case
  proof (cases "a \<le> c")
    case True
    from Suc.hyps(1) [of "a + 1"] Suc.hyps(2) ab
    have "filter (\<lambda>i. b \<le> i) [a + 1..c] = [b..c]" by fastforce
    with True ab show ?thesis by (simp add: upto_rec1)
  next
    case False
    with ab show ?thesis by simp
  qed
qed

lemma core_launch_launched:
  assumes "instance_ok n cfg" and "\<forall>i. is_local cfg i \<longrightarrow> starts i"
  shows "core_launch starts cfg = Inr (launched cfg)"
proof -
  let ?f = "first_modem_index cfg" and ?l = "local_number_of_modems cfg"
  have "filter starts [?f..?f + ?l - 1] = local_modems cfg"
    using assms(2) by (auto simp: local_modems_def filter_id_conv is_local_def)
  moreover have "detectors_launched ?f ?l = rev (local_modems cfg)"
    using assms(1) filter_upto_ge [of 0 ?f "?l + ?f - 1"]
    by (auto simp: detectors_launched_def instance_ok_def local_modems_def rev_filter [symmetric]
        Let_def add.commute)
  moreover have "jacks_launched (number_of_modems cfg) = rev (modems cfg)"
    using assms(1) by (auto simp: jacks_launched_def instance_ok_def modems_def)
  moreover have "int (length (local_modems cfg)) = ?l"
    using assms(1) by (simp add: local_modems_def instance_ok_def)
  moreover have "number_of_modems cfg \<le> NETSIM_MAX_MODEMS" using assms(1) by (simp add: instance_ok_def)
  ultimately show ?thesis by (simp add: core_launch_def launched_def Let_def)
qed

lemma subscribers_append:
  "subscribers (cfg, xs @ ys) l g = subscribers (cfg, xs) l g @ subscribers (cfg, ys) l g"
  by (simp add: subscribers_def)

lemma subscribers_Nil [simp]: "subscribers (cfg, []) l g = []"
  by (simp add: subscribers_def)

lemma subscribers_map:
  assumes "\<And>i. i \<in> set is \<Longrightarrow> filter (\<lambda>s. s = (l, g)) (subscriptions cfg (f i)) = (if P i then [(l, g)] else [])"
  shows "subscribers (cfg, map f is) l g = map f (filter P is)"
proof -
  have "concat (map (\<lambda>t. map (\<lambda>_. t) (filter (\<lambda>s. s = (l, g)) (subscriptions cfg t))) (map f is)) =
      concat (map (\<lambda>i. if P i then [f i] else []) is)"
    unfolding map_map by (intro arg_cong [of _ _ concat] map_cong refl) (simp add: assms)
  then show ?thesis by (simp add: subscribers_def concat_map_if)
qed

lemma macro_case_if:
  "macro_case b i x = (if 0 \<le> i \<and> i < b then [x] else [])"
  by (simp add: macro_case_def)

lemma processor_subs_alt:
  "processor_subscriptions cfg to_index = (Interthread, Buffer_Size_Change) #
     map (\<lambda>i. (Interthread, DetectorAudio i))
       (filter (\<lambda>i. i \<noteq> to_index \<and> 0 \<le> i \<and> i < NETSIM_MAX_MODEMS) (modems cfg))"
  unfolding processor_subscriptions_def concat_map_if [symmetric]
  by (intro arg_cong [of _ _ "(#) _"] arg_cong [of _ _ concat] map_cong refl) (simp add: macro_case_def)

lemma jack_subs_alt:
  "jack_subscriptions cfg m = map (\<lambda>i. (Interthread, AudioOut m i))
     (filter (\<lambda>i. 0 \<le> i \<and> i < NETSIM_MAX_MODEMS) (modems cfg))"
  unfolding jack_subscriptions_def concat_map_if [symmetric] macro_case_def ..

lemma bridge_subs_alt:
  "bridge_subscriptions cfg =
     map (\<lambda>i. if is_local cfg i then (Interthread, DetectorAudio i) else (Interprocess, BridgeAudio i))
       (filter (\<lambda>i. 0 \<le> i \<and> i < NETSIM_MAX_MODEMS) (modems cfg))"
  unfolding bridge_subscriptions_def concat_map_if [symmetric] macro_case_def ..

lemma distinct_subs:
  "distinct (processor_subscriptions cfg i)" "distinct (jack_subscriptions cfg i)"
  "distinct (bridge_subscriptions cfg)" "distinct (detector_subscriptions i)"
  by (auto simp: processor_subs_alt jack_subs_alt bridge_subs_alt detector_subscriptions_def
      distinct_map inj_on_def split: if_splits)

lemmas subs_filter = distinct_subs [THEN filter_eq_distinct]

lemma in_subs:
  "s \<in> set (processor_subscriptions cfg t) \<longleftrightarrow> s = (Interthread, Buffer_Size_Change)
     \<or> (\<exists>k. s = (Interthread, DetectorAudio k) \<and> k \<noteq> t \<and> 0 \<le> k \<and> k < NETSIM_MAX_MODEMS
          \<and> k < number_of_modems cfg)"
  "s \<in> set (jack_subscriptions cfg m) \<longleftrightarrow>
     (\<exists>k. s = (Interthread, AudioOut m k) \<and> 0 \<le> k \<and> k < NETSIM_MAX_MODEMS
        \<and> k < number_of_modems cfg)"
  "s \<in> set (bridge_subscriptions cfg) \<longleftrightarrow>
     (\<exists>k. s = (if is_local cfg k then (Interthread, DetectorAudio k) else (Interprocess, BridgeAudio k))
        \<and> 0 \<le> k \<and> k < NETSIM_MAX_MODEMS \<and> k < number_of_modems cfg)"
  "s \<in> set (detector_subscriptions i) \<longleftrightarrow>
     s = (Interthread, AudioIn i) \<or> s = (Interthread, Buffer_Size_Change)"
  by (auto simp: processor_subs_alt jack_subs_alt bridge_subs_alt detector_subscriptions_def)

lemma subscribers_Logger: "set (subscribers (cfg, if b then [Logger] else []) l g) \<subseteq> {Logger}"
  by (auto simp: subscribers_def)

definition loggers :: "core_config \<Rightarrow> layer \<Rightarrow> group \<Rightarrow> thread_id list" where
  "loggers cfg l g = subscribers (cfg, if run_logger (logger_cfg cfg) then [Logger] else []) l g"

lemma subscribers_launched:
  "subscribers (cfg, launched cfg) l g =
     subscribers (cfg, if bridge_cfg cfg = None then [] else [Bridge]) l g
     @ subscribers (cfg, map Processor (local_modems cfg)) l g
     @ subscribers (cfg, map Detector (rev (local_modems cfg))) l g
     @ subscribers (cfg, map Jack (rev (modems cfg))) l g @ loggers cfg l g"
  by (simp add: launched_def subscribers_append loggers_def)

lemma subscribers_DetectorAudio:
  assumes "instance_ok n cfg" and "0 \<le> k" and "k < n"
  shows "subscribers (cfg, launched cfg) Interthread (DetectorAudio k) =
     (if bridge_cfg cfg \<noteq> None \<and> is_local cfg k then [Bridge] else [])
     @ map Processor (filter (\<lambda>i. i \<noteq> k) (local_modems cfg)) @ loggers cfg Interthread (DetectorAudio k)"
proof -
  let ?g = "DetectorAudio k"
  have n: "number_of_modems cfg = n" "n \<le> NETSIM_MAX_MODEMS" using assms(1) by (simp_all add: instance_ok_def)
  have "subscribers (cfg, map Processor (local_modems cfg)) Interthread ?g =
      map Processor (filter (\<lambda>i. i \<noteq> k) (local_modems cfg))"
    using assms n by (intro subscribers_map) (auto simp: subs_filter in_subs)
  moreover have "subscribers (cfg, map Detector (rev (local_modems cfg))) Interthread ?g =
      map Detector (filter (\<lambda>_. False) (rev (local_modems cfg)))"
    by (intro subscribers_map) (auto simp: subs_filter in_subs)
  moreover have "subscribers (cfg, map Jack (rev (modems cfg))) Interthread ?g =
      map Jack (filter (\<lambda>_. False) (rev (modems cfg)))"
    by (intro subscribers_map) (auto simp: subs_filter in_subs)
  moreover have "subscribers (cfg, if bridge_cfg cfg = None then [] else [Bridge]) Interthread ?g =
      (if bridge_cfg cfg \<noteq> None \<and> is_local cfg k then [Bridge] else [])"
    using assms n by (auto simp: subscribers_def subs_filter in_subs split: if_splits)
  ultimately show ?thesis by (simp add: subscribers_launched)
qed

lemma subscribers_BridgeAudio:
  assumes "instance_ok n cfg" and "0 \<le> k" and "k < n"
  shows "subscribers (cfg, launched cfg) Interprocess (BridgeAudio k) =
     (if bridge_cfg cfg \<noteq> None \<and> \<not> is_local cfg k then [Bridge] else [])
     @ loggers cfg Interprocess (BridgeAudio k)"
proof -
  let ?g = "BridgeAudio k"
  have n: "number_of_modems cfg = n" "n \<le> NETSIM_MAX_MODEMS" using assms(1) by (simp_all add: instance_ok_def)
  have "subscribers (cfg, map Processor (local_modems cfg)) Interprocess ?g =
      map Processor (filter (\<lambda>_. False) (local_modems cfg))"
    by (intro subscribers_map) (auto simp: subs_filter in_subs)
  moreover have "subscribers (cfg, map Detector (rev (local_modems cfg))) Interprocess ?g =
      map Detector (filter (\<lambda>_. False) (rev (local_modems cfg)))"
    by (intro subscribers_map) (auto simp: subs_filter in_subs)
  moreover have "subscribers (cfg, map Jack (rev (modems cfg))) Interprocess ?g =
      map Jack (filter (\<lambda>_. False) (rev (modems cfg)))"
    by (intro subscribers_map) (auto simp: subs_filter in_subs)
  moreover have "subscribers (cfg, if bridge_cfg cfg = None then [] else [Bridge]) Interprocess ?g =
      (if bridge_cfg cfg \<noteq> None \<and> \<not> is_local cfg k then [Bridge] else [])"
    using assms n by (auto simp: subscribers_def subs_filter in_subs split: if_splits)
  ultimately show ?thesis by (simp add: subscribers_launched)
qed

lemma subscribers_AudioOut:
  assumes "instance_ok n cfg" and "0 \<le> k" and "k < n" and "0 \<le> i" and "i < n"
  shows "subscribers (cfg, launched cfg) Interthread (AudioOut k i) =
     [Jack k] @ loggers cfg Interthread (AudioOut k i)"
proof -
  let ?g = "AudioOut k i"
  have n: "number_of_modems cfg = n" "n \<le> NETSIM_MAX_MODEMS" using assms(1) by (simp_all add: instance_ok_def)
  have "subscribers (cfg, map Processor (local_modems cfg)) Interthread ?g =
      map Processor (filter (\<lambda>_. False) (local_modems cfg))"
    by (intro subscribers_map) (auto simp: subs_filter in_subs)
  moreover have "subscribers (cfg, map Detector (rev (local_modems cfg))) Interthread ?g =
      map Detector (filter (\<lambda>_. False) (rev (local_modems cfg)))"
    by (intro subscribers_map) (auto simp: subs_filter in_subs)
  moreover have "subscribers (cfg, map Jack (rev (modems cfg))) Interthread ?g =
      map Jack (filter (\<lambda>m. m = k) (rev (modems cfg)))"
    using assms n by (intro subscribers_map) (auto simp: subs_filter in_subs)
  moreover have "filter (\<lambda>m. m = k) (rev (modems cfg)) = [k]"
    using assms n by (subst filter_eq_distinct) auto
  moreover have "subscribers (cfg, if bridge_cfg cfg = None then [] else [Bridge]) Interthread ?g = []"
    by (auto simp: subscribers_def subs_filter in_subs split: if_splits)
  ultimately show ?thesis by (simp add: subscribers_launched)
qed

section \<open>Routing\<close>

fun is_jack :: "thread_id \<Rightarrow> bool" where
  "is_jack (Jack _) = True"
| "is_jack _ = False"

text \<open>The calls that end at a JACK thread.\<close>

definition jack_calls :: "(nat \<times> thread_id \<times> group) list \<Rightarrow> (nat \<times> thread_id \<times> group) list" where
  "jack_calls = filter (\<lambda>(m, t, g). is_jack t)"

definition forwarded_calls ::
    "node list \<Rightarrow> nat \<Rightarrow> group \<Rightarrow> nat \<times> thread_id \<Rightarrow> (nat \<times> thread_id \<times> group) list" where
  "forwarded_calls nodes hops g = (\<lambda>(m, t). (if is_jack t then [(m, t, g)] else [])
     @ concat (map (\<lambda>(l', g'). jack_calls (route nodes hops m l' g')) (forward t g)))"

lemma jack_calls_concat: "jack_calls (concat xss) = concat (map jack_calls xss)"
  by (simp add: jack_calls_def filter_concat)

lemma concat_map_concat: "concat (map f (concat xss)) = concat (map (\<lambda>xs. concat (map f xs)) xss)"
  by (induction xss) auto

lemma jack_calls_route:
  "jack_calls (route nodes (Suc hops) src l g) =
     concat (map (forwarded_calls nodes hops g) (receivers nodes src l g))"
  unfolding route.simps jack_calls_concat map_map
  by (intro arg_cong [of _ _ concat] map_cong refl)
     (auto simp: forwarded_calls_def comp_def jack_calls_def filter_concat split_def)

lemma loggers_silent: "concat (map (forwarded_calls nodes h g) (map (Pair m) (loggers cfg l g'))) = []"
  using subscribers_Logger [of cfg "run_logger (logger_cfg cfg)" l g']
  by (auto simp: loggers_def forwarded_calls_def)

text \<open>
  The instances of one system: they agree on the number of modems, and every modem belongs to one of
  them; an instance without a bridge is alone.
\<close>

definition system_ok :: "int \<Rightarrow> core_config list \<Rightarrow> bool" where
  "system_ok n cfgs \<longleftrightarrow>
     (\<forall>cfg \<in> set cfgs. instance_ok n cfg \<and> (bridge_cfg cfg = None \<longrightarrow> length cfgs = 1))
     \<and> (\<forall>k. 0 \<le> k \<and> k < n \<longrightarrow> (\<exists>m < length cfgs. \<forall>m' < length cfgs. is_local (cfgs ! m') k \<longleftrightarrow> m' = m))"

definition nodes_of :: "core_config list \<Rightarrow> node list" where
  "nodes_of cfgs = map (\<lambda>cfg. (cfg, launched cfg)) cfgs"

lemma nodes_of_nth [simp]: "m < length cfgs \<Longrightarrow> nodes_of cfgs ! m = (cfgs ! m, launched (cfgs ! m))"
  by (simp add: nodes_of_def)

lemma length_nodes_of [simp]: "length (nodes_of cfgs) = length cfgs"
  by (simp add: nodes_of_def)

lemma instance_is_local: "instance_ok n cfg \<Longrightarrow> is_local cfg i \<Longrightarrow> 0 \<le> i \<and> i < n \<and> i < NETSIM_MAX_MODEMS"
  by (auto simp: instance_ok_def is_local_def)

lemma route_AudioOut:
  assumes "m < length cfgs" and "instance_ok n (cfgs ! m)" and "0 \<le> k" "k < n" "0 \<le> i" "i < n"
  shows "jack_calls (route (nodes_of cfgs) (Suc h) m Interthread (AudioOut k i)) =
     [(m, Jack k, AudioOut k i)]"
  unfolding jack_calls_route
  using loggers_silent [of "nodes_of cfgs" h "AudioOut k i" m "cfgs ! m" Interthread "AudioOut k i"]
  by (simp add: assms subscribers_AudioOut [OF assms(2-6)]) (simp add: forwarded_calls_def)

text \<open>What the processors of one instance make of the audio of modem \<open>k\<close>.\<close>

definition echoes :: "nat \<Rightarrow> core_config \<Rightarrow> int \<Rightarrow> (nat \<times> thread_id \<times> group) list" where
  "echoes m cfg k = map (\<lambda>i. (m, Jack k, AudioOut k i)) (filter (\<lambda>i. i \<noteq> k) (local_modems cfg))"

lemma forward_processors:
  assumes "m < length cfgs" and "instance_ok n (cfgs ! m)" and "0 \<le> k" "k < n"
  shows "concat (map (forwarded_calls (nodes_of cfgs) (Suc h) (DetectorAudio k))
      (map (Pair m) (map Processor (filter (\<lambda>i. i \<noteq> k) (local_modems (cfgs ! m))))))
    = echoes m (cfgs ! m) k"
proof -
  have "k < NETSIM_MAX_MODEMS" using assms(2,4) by (simp add: instance_ok_def)
  then have "forwarded_calls (nodes_of cfgs) (Suc h) (DetectorAudio k) (m, Processor i) =
      [(m, Jack k, AudioOut k i)]" if "is_local (cfgs ! m) i" for i
    using instance_is_local [OF assms(2) that] route_AudioOut [OF assms, of i h] assms(3)
    by (simp add: forwarded_calls_def echo_detector_audio_def publish_audio_buffer_def macro_case_def)
  then have "concat (map (forwarded_calls (nodes_of cfgs) (Suc h) (DetectorAudio k))
      (map (Pair m) (map Processor (filter (\<lambda>i. i \<noteq> k) (local_modems (cfgs ! m)))))) =
    concat (map (\<lambda>i. [(m, Jack k, AudioOut k i)]) (filter (\<lambda>i. i \<noteq> k) (local_modems (cfgs ! m))))"
    unfolding map_map by (intro arg_cong [of _ _ concat] map_cong refl) simp
  then show ?thesis by (simp add: echoes_def)
qed

lemma route_remote:
  assumes "m < length cfgs" and "instance_ok n (cfgs ! m)" and "0 \<le> k" "k < n"
    and "\<not> is_local (cfgs ! m) k"
  shows "jack_calls (route (nodes_of cfgs) (Suc (Suc h)) m Interthread (DetectorAudio k)) =
     echoes m (cfgs ! m) k"
  unfolding jack_calls_route [of _ "Suc h"]
  using forward_processors [OF assms(1-4), of h]
    loggers_silent [of "nodes_of cfgs" "Suc h" "DetectorAudio k" m "cfgs ! m" Interthread "DetectorAudio k"]
  by (simp add: assms(1,5) subscribers_DetectorAudio [OF assms(2-4)] del: route.simps)

lemma route_bridge:
  assumes "\<forall>cfg \<in> set cfgs. instance_ok n cfg \<and> bridge_cfg cfg \<noteq> None" and "0 \<le> k" "k < n"
  shows "jack_calls (route (nodes_of cfgs) (Suc (Suc (Suc h))) src Interprocess (BridgeAudio k)) =
     concat (map (\<lambda>m. if is_local (cfgs ! m) k then [] else echoes m (cfgs ! m) k) [0..<length cfgs])"
proof -
  have "concat (map (forwarded_calls (nodes_of cfgs) (Suc (Suc h)) (BridgeAudio k))
        (map (Pair m) (subscribers (nodes_of cfgs ! m) Interprocess (BridgeAudio k)))) =
      (if is_local (cfgs ! m) k then [] else echoes m (cfgs ! m) k)" if m: "m < length cfgs" for m
  proof -
    from assms(1) m have c: "instance_ok n (cfgs ! m)" "bridge_cfg (cfgs ! m) \<noteq> None" by auto
    then have "k < NETSIM_MAX_MODEMS" using assms(3) by (simp add: instance_ok_def)
    with route_remote [OF m c(1) assms(2,3), of h] assms(2) c(2) m
      loggers_silent [of "nodes_of cfgs" "Suc (Suc h)" "BridgeAudio k" m "cfgs ! m" Interprocess "BridgeAudio k"]
    show ?thesis
      by (simp add: subscribers_BridgeAudio [OF c(1) assms(2,3)] del: route.simps)
         (simp add: forwarded_calls_def bridge_in_def macro_case_def del: route.simps)
  qed
  then show ?thesis
    unfolding jack_calls_route [of _ "Suc (Suc h)"] receivers.simps concat_map_concat map_map
      length_nodes_of
    by (intro arg_cong [of _ _ concat] map_cong refl) (simp only: map_map comp_apply set_upt atLeastLessThan_iff)
qed

text \<open>All the calls of JACK threads that the audio detected from modem \<open>k\<close> leads to.\<close>

lemma route_detector:
  assumes "system_ok n cfgs" and "0 \<le> k" "k < n" and a: "a < length cfgs" "is_local (cfgs ! a) k"
  shows "\<exists>calls. jack_calls (route (nodes_of cfgs) (Suc (Suc (Suc (Suc h)))) a Interthread (DetectorAudio k))
             = calls \<and> distinct calls
           \<and> set calls = {(m, Jack k, AudioOut k i) | m i. m < length cfgs \<and> is_local (cfgs ! m) i \<and> i \<noteq> k}"
proof -
  let ?c = "cfgs ! a"
  from assms(1) a have inst: "\<forall>m < length cfgs. instance_ok n (cfgs ! m)" by (auto simp: system_ok_def)
  then have c: "instance_ok n ?c" using a by simp
  have own: "is_local (cfgs ! m) k \<longleftrightarrow> m = a" if "m < length cfgs" for m
    using assms that unfolding system_ok_def by metis
  have "k < NETSIM_MAX_MODEMS" using c assms(3) by (simp add: instance_ok_def)
  let ?remote = "concat (map (\<lambda>m. if is_local (cfgs ! m) k then [] else echoes m (cfgs ! m) k) [0..<length cfgs])"
  let ?calls = "(if bridge_cfg ?c = None then [] else ?remote) @ echoes a ?c k"
  have "?calls = jack_calls (route (nodes_of cfgs) (Suc (Suc (Suc (Suc h)))) a Interthread (DetectorAudio k))"
  proof -
    have "forwarded_calls (nodes_of cfgs) (Suc (Suc (Suc h))) (DetectorAudio k) (a, Bridge) = ?remote"
      if "bridge_cfg ?c \<noteq> None"
    proof -
      have "\<forall>cfg \<in> set cfgs. instance_ok n cfg \<and> bridge_cfg cfg \<noteq> None"
      proof
        fix cfg assume cfg: "cfg \<in> set cfgs"
        have "bridge_cfg cfg \<noteq> None"
        proof
          assume "bridge_cfg cfg = None"
          with cfg assms(1) have "length cfgs = 1" by (auto simp: system_ok_def)
          with cfg a have "cfg = ?c" by (auto simp: length_Suc_conv)
          with that \<open>bridge_cfg cfg = None\<close> show False by simp
        qed
        with cfg assms(1) show "instance_ok n cfg \<and> bridge_cfg cfg \<noteq> None" by (auto simp: system_ok_def)
      qed
      from route_bridge [OF this assms(2,3), of h a] assms(2) \<open>k < NETSIM_MAX_MODEMS\<close> show ?thesis
        by (simp add: forwarded_calls_def bridge_out_def macro_case_def del: route.simps)
    qed
    then show ?thesis
      unfolding jack_calls_route [of _ "Suc (Suc (Suc h))"]
      using forward_processors [OF a(1) c assms(2,3), of "Suc (Suc h)"]
        loggers_silent [of "nodes_of cfgs" "Suc (Suc (Suc h))" "DetectorAudio k" a ?c Interthread "DetectorAudio k"]
      by (simp add: a subscribers_DetectorAudio [OF c assms(2,3)] del: route.simps)
  qed
  moreover have "distinct ?calls"
  proof -
    have d: "distinct (echoes m cfg k)" for m cfg
      by (auto simp: echoes_def distinct_map inj_on_def)
    have "distinct (concat (map (\<lambda>m. if is_local (cfgs ! m) k then [] else echoes m (cfgs ! m) k) ms))"
      if "distinct ms" for ms
      using that d by (induction ms) (auto simp: echoes_def)
    with d show ?thesis using own a by (auto simp: echoes_def)
  qed
  moreover have "set ?calls =
      {(m, Jack k, AudioOut k i) | m i. m < length cfgs \<and> is_local (cfgs ! m) i \<and> i \<noteq> k}"
  proof (cases "bridge_cfg ?c = None")
    case True
    with assms(1) a have "length cfgs = 1" by (metis system_ok_def nth_mem)
    with True a show ?thesis by (auto simp: echoes_def)
  next
    case False
    then show ?thesis using own a by (auto simp: echoes_def split: if_splits)
  qed
  ultimately show ?thesis by metis
qed


section \<open>Properties\<close>

text \<open>
  C12: With a sensible configuration and a processor library that can be loaded and serves its modems, the
  process gets through both wait loops of its launch and starts exactly one processor and one detector for every modem of
  this instance, one JACK thread for every modem of the system, and the bridge and the logger as
  configured.
\<close>

theorem launch_complete:
  assumes "instance_ok n cfg" and "dlopen path = Some h" "dlsym h = Some starts" and "\<forall>i. is_local cfg i \<longrightarrow> starts i"
  shows "\<exists>ts. core_main (Some path) dlopen dlsym cfg = Inr ts \<and> distinct ts
           \<and> (\<forall>i. Processor i \<in> set ts \<longleftrightarrow> is_local cfg i)
           \<and> (\<forall>i. Detector i \<in> set ts \<longleftrightarrow> is_local cfg i)
           \<and> (\<forall>i. Jack i \<in> set ts \<longleftrightarrow> 0 \<le> i \<and> i < n)
           \<and> (Bridge \<in> set ts \<longleftrightarrow> bridge_cfg cfg \<noteq> None)
           \<and> (Logger \<in> set ts \<longleftrightarrow> run_logger (logger_cfg cfg))"
proof -
  have "distinct (launched cfg)"
    by (auto simp: launched_def distinct_map inj_on_def)
  moreover have n: "number_of_modems cfg = n" and "n \<le> NETSIM_MAX_MODEMS"
    using assms(1) by (simp_all add: instance_ok_def)
  moreover have "core_main (Some path) dlopen dlsym cfg = Inr (launched cfg)"
    using core_launch_launched [OF assms(1,4)] calculation(3) assms(2,3) n
    by (simp add: core_main_def core_construct_def)
  ultimately show ?thesis by (auto simp: launched_def)
qed

text \<open>The process ends at once exactly if the library cannot be loaded or the system is too large.\<close>

lemma core_main_not_loaded:
  "core_main lib dlopen dlsym cfg = Inl Die \<longleftrightarrow>
     lib = None \<or> dlopen (the lib) = None \<or> NETSIM_MAX_MODEMS < number_of_modems cfg
     \<or> dlsym (the (dlopen (the lib))) = None"
  by (auto simp: core_main_def core_construct_def core_launch_def Let_def split: option.splits)

text \<open>Two instances with two modems each.\<close>

definition bridged :: "int \<Rightarrow> core_config" where
  "bridged first = (default_core_config 4)
     \<lparr>bridge_cfg := Some \<lparr>bridge_first_modem_index = first, bridge_local_number_of_modems = 2\<rparr>\<rparr>"

lemma bridged_simps [simp]:
  "number_of_modems (bridged first) = 4" "first_modem_index (bridged first) = first"
  "local_number_of_modems (bridged first) = 2"
  "bridge_cfg (bridged first) = Some \<lparr>bridge_first_modem_index = first, bridge_local_number_of_modems = 2\<rparr>"
  by (simp_all add: bridged_def default_core_config_def first_modem_index_def local_number_of_modems_def)

lemma instance_ok_bridged: "0 \<le> first \<Longrightarrow> first \<le> 2 \<Longrightarrow> instance_ok 4 (bridged first)"
  by (simp add: instance_ok_def NETSIM_MAX_MODEMS_def)

theorem launch_complete_witness:
  "\<exists>ts. core_main (Some ''libecho.so'') (\<lambda>path. if path = ''libecho.so'' then Some () else None)
        (\<lambda>_. Some echo_starts) (bridged 2) = Inr ts \<and> distinct ts
     \<and> (\<forall>i. Detector i \<in> set ts \<longleftrightarrow> i = 2 \<or> i = 3)"
proof -
  have "\<forall>i. is_local (bridged 2) i \<longrightarrow> echo_starts i"
    by (auto simp: is_local_def echo_starts_def macro_case_def NETSIM_MAX_MODEMS_def)
  moreover have "instance_ok 4 (bridged 2)" by (simp add: instance_ok_bridged)
  ultimately obtain ts where ts: "core_main (Some ''libecho.so'') (\<lambda>path. if path = ''libecho.so'' then Some () else None)
        (\<lambda>_. Some echo_starts) (bridged 2) = Inr ts" "distinct ts"
      "\<forall>i. Detector i \<in> set ts \<longleftrightarrow> is_local (bridged 2) i"
    using launch_complete [of 4 "bridged 2" "\<lambda>path. if path = ''libecho.so'' then Some () else None" "''libecho.so''" "()"
        "\<lambda>_. Some echo_starts" echo_starts] by auto
  moreover have "is_local (bridged 2) i \<longleftrightarrow> i = 2 \<or> i = 3" for i
    by (auto simp: is_local_def)
  ultimately show ?thesis by metis
qed

text \<open>
  A configuration whose modems of this instance do not fit below \<open>NETSIM_MAX_MODEMS\<close> is not
  rejected: the launch starts no detector at all and waits for them for ever.
\<close>

theorem launch_hangs_beyond_max:
  assumes "number_of_modems cfg \<le> NETSIM_MAX_MODEMS" and "0 < local_number_of_modems cfg"
    and "NETSIM_MAX_MODEMS < first_modem_index cfg + local_number_of_modems cfg"
  shows "core_launch starts cfg = Inl Hang"
  using assms by (simp add: core_launch_def detectors_launched_def Let_def)

theorem launch_hangs_beyond_max_witness:
  "core_launch (\<lambda>_. True) (bridged 15) = Inl Hang"
  by (rule launch_hangs_beyond_max) (simp_all add: NETSIM_MAX_MODEMS_def)

text \<open>
  C11: In a system of bridged instances in which every modem belongs to one instance, audio detected
  from a modem reaches every other modem exactly once and nothing else: following the publication
  through bridges and echo processors, the JACK thread of the transmitter at the instance that owns
  a modem is called once with the audio for that modem, for every modem but the transmitter. The
  number of forwarding steps does not matter, so the bridges do not send anything in circles.
\<close>

theorem audio_reaches_every_other_modem_once:
  assumes "system_ok n cfgs" and "0 \<le> k" "k < n" and "a < length cfgs" "is_local (cfgs ! a) k"
    and "4 \<le> hops"
  defines "calls \<equiv> jack_calls (route (map (\<lambda>cfg. (cfg, launched cfg)) cfgs) hops a Interthread (DetectorAudio k))"
  shows "distinct calls
       \<and> set calls = {(m, Jack k, AudioOut k i) | m i. m < length cfgs \<and> is_local (cfgs ! m) i \<and> i \<noteq> k}"
proof -
  from assms(6) obtain h where "hops = Suc (Suc (Suc (Suc h)))"
    by (metis add_2_eq_Suc le_Suc_ex numeral_Bit0 add.assoc)
  with route_detector [OF assms(1-5), of h] show ?thesis by (simp only: nodes_of_def calls_def) blast
qed

lemma system_ok_bridged: "system_ok 4 [bridged 0, bridged 2]"
proof -
  have "\<exists>m < length [bridged 0, bridged 2]. \<forall>m' < length [bridged 0, bridged 2].
      is_local ([bridged 0, bridged 2] ! m') k \<longleftrightarrow> m' = m" if "0 \<le> k" "k < 4" for k :: int
    using that by (intro exI [of _ "if k < 2 then 0 else 1"]) (auto simp: is_local_def less_Suc_eq)
  then show ?thesis by (auto simp: system_ok_def instance_ok_bridged)
qed

theorem audio_reaches_every_other_modem_once_witness:
  "distinct (jack_calls (route (map (\<lambda>cfg. (cfg, launched cfg)) [bridged 0, bridged 2]) 4 0 Interthread (DetectorAudio 1)))
   \<and> (1, Jack 1, AudioOut 1 3) \<in> set (jack_calls
        (route (map (\<lambda>cfg. (cfg, launched cfg)) [bridged 0, bridged 2]) 4 0 Interthread (DetectorAudio 1)))"
proof -
  have l: "is_local ([bridged 0, bridged 2] ! 0) 1" "is_local ([bridged 0, bridged 2] ! 1) 3"
    by (simp_all add: is_local_def)
  have pre: "0 \<le> (1::int)" "(1::int) < 4" "0 < length [bridged 0, bridged 2]" "4 \<le> (4::nat)" by simp_all
  have "distinct (jack_calls (route (map (\<lambda>cfg. (cfg, launched cfg)) [bridged 0, bridged 2]) 4 0 Interthread (DetectorAudio 1)))
   \<and> set (jack_calls (route (map (\<lambda>cfg. (cfg, launched cfg)) [bridged 0, bridged 2]) 4 0 Interthread (DetectorAudio 1)))
      = {(m, Jack 1, AudioOut 1 i) | m i.
             m < length [bridged 0, bridged 2] \<and> is_local ([bridged 0, bridged 2] ! m) i \<and> i \<noteq> 1}"
    by (rule audio_reaches_every_other_modem_once [OF system_ok_bridged pre(1-3) l(1) pre(4)])
  moreover have "(1::nat) < length [bridged 0, bridged 2]" by simp
  ultimately show ?thesis using l(2) by (simp only: mem_Collect_eq) force
qed

text \<open>
  C21: Different groups are different to the middleware: no two instances of the group templates
  that compile, and no two named groups, have the same name and number. In particular the number of
  \<open>AudioOut<from, to>\<close> determines both modems.
\<close>

theorem group_key_injective:
  assumes "valid_group g" and "valid_group h" and "group_key g = group_key h"
  shows "g = h"
proof (cases "\<exists>i j k l. g = AudioOut i j \<and> h = AudioOut k l")
  case True
  then obtain i j k l where "g = AudioOut i j" and "h = AudioOut k l" by blast
  with assms show ?thesis using mult_add_digits_unique [of i NETSIM_MAX_MODEMS j k l] by simp
next
  case False
  with assms show ?thesis by (cases g; cases h; simp)
qed

theorem group_key_injective_witness: "AudioOut 3 15 \<noteq> AudioOut 4 0 \<and> group_key (AudioOut 3 15) \<noteq> group_key (AudioOut 4 0)"
  using group_key_injective [of "AudioOut 3 15" "AudioOut 4 0"] by (auto simp: NETSIM_MAX_MODEMS_def)

end
