(* ===== verification/Marshal.thy ===== *)
theory Marshal
  imports Audio
begin

text \<open>
  How an audio buffer crosses from one process to another (\<open>src/lib/core/boost_serialization.h\<close>): the
  marshalling scheme of goby on top of a boost archive, and the order in which the members of
  \<open>AudioBuffer\<close> and \<open>TaggedAudioBuffer\<close> go through the archive.

  The archive is boost's \<open>binary_oarchive\<close> and \<open>binary_iarchive\<close>: \<open>archive_ops\<close> holds what they write for a
  value of each type and what they read back, with an exception of the library as \<open>None\<close>; the locale
  \<open>archive\<close> is their documented behaviour, that a value read is the value written. One function
  template \<open>serialize\<close> of the source describes both directions; here \<open>save_\<close> and \<open>load_\<close> are its two
  instances.
\<close>

section \<open>The archive\<close>

record 'b archive_ops =
  put_header :: "'b list"
  get_header :: "'b list \<Rightarrow> 'b list option"
  put_double :: "fp \<Rightarrow> 'b list"
  get_double :: "'b list \<Rightarrow> (fp \<times> 'b list) option"
  put_uint32 :: "32 word \<Rightarrow> 'b list"
  get_uint32 :: "'b list \<Rightarrow> (32 word \<times> 'b list) option"
  put_floats :: "fp list \<Rightarrow> 'b list"
  get_floats :: "'b list \<Rightarrow> (fp list \<times> 'b list) option"
  put_rows :: "fp list list \<Rightarrow> 'b list"
  get_rows :: "'b list \<Rightarrow> (fp list list \<times> 'b list) option"
  put_pointer :: "bool \<Rightarrow> 'b list"
  get_pointer :: "'b list \<Rightarrow> (bool \<times> 'b list) option"
  put_marker :: "marker \<Rightarrow> 'b list"
  get_marker :: "'b list \<Rightarrow> (marker \<times> 'b list) option"

text \<open>The values a \<open>double\<close> and a \<open>float\<close> can have.\<close>

fun fits :: "(rat \<Rightarrow> fp) \<Rightarrow> fp \<Rightarrow> bool" where
  "fits rounded (Fin x) \<longleftrightarrow> rounded x = Fin x"
| "fits rounded _ \<longleftrightarrow> True"

locale archive =
  fixes ar :: "'b archive_ops"
  assumes header: "get_header ar (put_header ar @ r) = Some r"
    and double: "fits d_round x \<Longrightarrow> get_double ar (put_double ar x @ r) = Some (x, r)"
    and uint32: "get_uint32 ar (put_uint32 ar w @ r) = Some (w, r)"
    and floats: "list_all (fits f_round) xs \<Longrightarrow> get_floats ar (put_floats ar xs @ r) = Some (xs, r)"
    and rows: "list_all (list_all (fits f_round)) xss \<Longrightarrow> get_rows ar (put_rows ar xss @ r) = Some (xss, r)"
    and pointer: "get_pointer ar (put_pointer ar p @ r) = Some (p, r)"
    and marker: "get_marker ar (put_marker ar m @ r) = Some (m, r)"

section \<open>The members, in their order\<close>

definition save_audio_buffer :: "'b archive_ops \<Rightarrow> audio_buffer \<Rightarrow> 'b list" where
  "save_audio_buffer ar b =
     put_double ar (buffer_start_time b) @ put_uint32 ar (jack_frame_time b) @ put_floats ar (samples b)"

definition load_audio_buffer :: "'b archive_ops \<Rightarrow> 'b list \<Rightarrow> (audio_buffer \<times> 'b list) option" where
  "load_audio_buffer ar bs =
     Option.bind (get_double ar bs) (\<lambda>(t, bs).
     Option.bind (get_uint32 ar bs) (\<lambda>(f, bs).
     Option.bind (get_floats ar bs) (\<lambda>(ss, bs).
       Some (\<lparr>buffer_start_time = t, jack_frame_time = f, samples = ss\<rparr>, bs))))"

text \<open>A shared pointer goes as a note whether it is null and what it points to.\<close>

definition save_pointer :: "'b archive_ops \<Rightarrow> audio_buffer option \<Rightarrow> 'b list" where
  "save_pointer ar p =
     (case p of None \<Rightarrow> put_pointer ar False | Some b \<Rightarrow> put_pointer ar True @ save_audio_buffer ar b)"

definition load_pointer :: "'b archive_ops \<Rightarrow> 'b list \<Rightarrow> (audio_buffer option \<times> 'b list) option" where
  "load_pointer ar bs =
     Option.bind (get_pointer ar bs) (\<lambda>(p, bs).
       if p then Option.bind (load_audio_buffer ar bs) (\<lambda>(b, bs). Some (Some b, bs)) else Some (None, bs))"

definition save_tagged :: "'b archive_ops \<Rightarrow> tagged_audio_buffer \<Rightarrow> 'b list" where
  "save_tagged ar t = save_pointer ar (tbuffer t) @ put_marker ar (tmarker t) @ put_uint32 ar (packet_id t)"

definition load_tagged :: "'b archive_ops \<Rightarrow> 'b list \<Rightarrow> (tagged_audio_buffer \<times> 'b list) option" where
  "load_tagged ar bs =
     Option.bind (load_pointer ar bs) (\<lambda>(p, bs).
     Option.bind (get_marker ar bs) (\<lambda>(m, bs).
     Option.bind (get_uint32 ar bs) (\<lambda>(i, bs).
       Some (\<lparr>tbuffer = p, tmarker = m, packet_id = i\<rparr>, bs))))"

section \<open>The marshalling scheme\<close>

definition serialize_tagged :: "'b archive_ops \<Rightarrow> tagged_audio_buffer \<Rightarrow> 'b list" where
  "serialize_tagged ar t = put_header ar @ save_tagged ar t"

text \<open>
  The parser reads one message and reports all of the bytes as used (\<open>actual_end\<close>), also those behind
  the message: the second component is what is left for the caller.
\<close>

definition parse_tagged :: "'b archive_ops \<Rightarrow> 'b list \<Rightarrow> (tagged_audio_buffer \<times> 'b list) option" where
  "parse_tagged ar bs =
     Option.bind (get_header ar bs) (\<lambda>bs. Option.bind (load_tagged ar bs) (\<lambda>(t, _). Some (t, [])))"

section \<open>What is read is what was written\<close>

definition storable :: "tagged_audio_buffer \<Rightarrow> bool" where
  "storable t \<longleftrightarrow>
     (case tbuffer t of
        None \<Rightarrow> True
      | Some b \<Rightarrow> fits d_round (buffer_start_time b) \<and> list_all (fits f_round) (samples b))"

context archive
begin

lemmas get_put = header double uint32 floats rows pointer marker

lemma load_audio_buffer:
  assumes "fits d_round (buffer_start_time b)" "list_all (fits f_round) (samples b)"
  shows "load_audio_buffer ar (save_audio_buffer ar b @ r) = Some (b, r)"
  using assms by (simp add: load_audio_buffer_def save_audio_buffer_def get_put)

lemma load_tagged:
  assumes "storable t" shows "load_tagged ar (save_tagged ar t @ r) = Some (t, r)"
proof (cases "tbuffer t")
  case None
  then show ?thesis
    by (simp add: load_tagged_def save_tagged_def load_pointer_def save_pointer_def get_put)
next
  case (Some b)
  with assms have "fits d_round (buffer_start_time b)" "list_all (fits f_round) (samples b)"
    by (simp_all add: storable_def)
  then have "load_audio_buffer ar (save_audio_buffer ar b @ s) = Some (b, s)" for s
    by (rule load_audio_buffer)
  then show ?thesis using Some
    by (cases t) (simp add: load_tagged_def save_tagged_def load_pointer_def save_pointer_def get_put)
qed

lemma parse_serialize: "storable t \<Longrightarrow> parse_tagged ar (serialize_tagged ar t) = Some (t, [])"
  using load_tagged [of t "[]"] by (simp add: parse_tagged_def serialize_tagged_def header)

lemma serialize_inject:
  "storable t \<Longrightarrow> storable u \<Longrightarrow> serialize_tagged ar t = serialize_tagged ar u \<Longrightarrow> t = u"
  by (metis parse_serialize option.inject prod.inject)

end

text \<open>An archive that keeps the values themselves.\<close>

datatype cell = Header | Double fp | Uint32 "32 word" | Floats "fp list" | Rows "fp list list" | Pointer bool | Marker marker

definition cell_archive :: "cell archive_ops" where
  "cell_archive =
     \<lparr>put_header = [Header], get_header = (\<lambda>bs. case bs of Header # r \<Rightarrow> Some r | _ \<Rightarrow> None),
      put_double = (\<lambda>x. [Double x]), get_double = (\<lambda>bs. case bs of Double x # r \<Rightarrow> Some (x, r) | _ \<Rightarrow> None),
      put_uint32 = (\<lambda>w. [Uint32 w]), get_uint32 = (\<lambda>bs. case bs of Uint32 w # r \<Rightarrow> Some (w, r) | _ \<Rightarrow> None),
      put_floats = (\<lambda>xs. [Floats xs]), get_floats = (\<lambda>bs. case bs of Floats xs # r \<Rightarrow> Some (xs, r) | _ \<Rightarrow> None),
      put_rows = (\<lambda>xss. [Rows xss]), get_rows = (\<lambda>bs. case bs of Rows xss # r \<Rightarrow> Some (xss, r) | _ \<Rightarrow> None),
      put_pointer = (\<lambda>p. [Pointer p]), get_pointer = (\<lambda>bs. case bs of Pointer p # r \<Rightarrow> Some (p, r) | _ \<Rightarrow> None),
      put_marker = (\<lambda>m. [Marker m]), get_marker = (\<lambda>bs. case bs of Marker m # r \<Rightarrow> Some (m, r) | _ \<Rightarrow> None)\<rparr>"

interpretation cell: archive cell_archive
  by unfold_locales (simp_all add: cell_archive_def)

text \<open>
  C25: An audio message that crosses to another process arrives as it was sent, a null pointer included,
  for every archive that gives back what it was given; messages that differ have different bytes.
\<close>

theorem audio_survives_marshalling:
  assumes "archive ar" and "storable t"
  shows "parse_tagged ar (serialize_tagged ar t) = Some (t, [])
     \<and> (\<forall>u. storable u \<and> serialize_tagged ar u = serialize_tagged ar t \<longrightarrow> u = t)"
  using archive.parse_serialize [OF assms] archive.serialize_inject [OF assms(1) _ assms(2)] by blast

theorem audio_survives_marshalling_witness:
  "parse_tagged cell_archive (serialize_tagged cell_archive
     \<lparr>tbuffer = Some \<lparr>buffer_start_time = Fin 2, jack_frame_time = 48000, samples = [Fin 0, Fin (1 / 2)]\<rparr>,
      tmarker = START, packet_id = 7\<rparr>) =
   Some (\<lparr>tbuffer = Some \<lparr>buffer_start_time = Fin 2, jack_frame_time = 48000, samples = [Fin 0, Fin (1 / 2)]\<rparr>,
      tmarker = START, packet_id = 7\<rparr>, [])"
proof -
  let ?t = "\<lparr>tbuffer = Some \<lparr>buffer_start_time = Fin 2, jack_frame_time = 48000, samples = [Fin 0, Fin (1 / 2)]\<rparr>,
      tmarker = START, packet_id = 7\<rparr>"
  have "f_round (1 / 2) = Fin (1 / 2)" using fin_round_dyadic [of 24 1 1 127] by simp
  then have "storable ?t" unfolding storable_def by simp
  from audio_survives_marshalling [OF cell.archive_axioms this] show ?thesis by simp
qed

end
