(* ===== verification/Logging.thy ===== *)
theory Logging
  imports Audio Text
begin

text \<open>
  The logger of \<open>netsim_core\<close> (\<open>LoggerThread\<close>, \<open>src/apps/netsim_core/logger.h\<close>): it writes every packet
  a detector publishes (direction IN) and every packet a processor publishes (direction OUT) to a
  file of its own, and tells the other processes when a packet starts and when all the logs of a packet
  are closed.

  \<open>files_\<close> is a map from direction, packet id and modem to an output stream. An entry can hold a
  null pointer: reading \<open>files_[..][..][..]\<close> creates it. The files themselves are \<open>disk\<close>, from
  names to what has been written; opening a file for output truncates it. What is written is
  the start time and the samples in their binary form, here as values.
\<close>

section \<open>State and operations\<close>

datatype direction = IN | OUT

datatype log_item = Start_Time fp | Samples "fp list"

datatype logger_event =
    Packet_Start "32 word" int
  | All_Logs_Closed_For_Packet string string "32 word" int

record logger =
  files :: "direction \<Rightarrow> 32 word \<Rightarrow> int \<rightharpoonup> string option"
  disk :: "string \<rightharpoonup> log_item list"
  log_start_time :: string

definition logger_init :: "string \<Rightarrow> logger" where
  "logger_init start_time =
     \<lparr>files = (\<lambda>_ _. Map.empty), disk = Map.empty, log_start_time = start_time\<rparr>"

definition log_file_name ::
    "core_config \<Rightarrow> string \<Rightarrow> direction \<Rightarrow> 32 word \<Rightarrow> int \<Rightarrow> int \<Rightarrow> string" where
  "log_file_name cfg start_time dir pid from_modem_index to_modem_index =
     log_directory (logger_cfg cfg) @ ''/netsim_'' @ start_time @ ''_''
     @ (if dir = IN then ''in_'' else ''out_'') @ pad0 3 (dec (sint pid)) @ ''_tx''
     @ dec from_modem_index
     @ (if dir = OUT then ''_rx'' @ dec to_modem_index else '''') @ ''.bin''"

definition set_file ::
    "direction \<Rightarrow> 32 word \<Rightarrow> (int \<rightharpoonup> string option) \<Rightarrow> logger \<Rightarrow> logger" where
  "set_file dir pid m l = l\<lparr>files := (files l)(dir := (files l dir)(pid := m))\<rparr>"

definition append_file :: "string \<Rightarrow> log_item \<Rightarrow> logger \<Rightarrow> logger" where
  "append_file name item l =
     l\<lparr>disk := (disk l)(name \<mapsto> (case disk l name of None \<Rightarrow> [] | Some xs \<Rightarrow> xs) @ [item])\<rparr>"

text \<open>The part of \<open>log_audio\<close> for a START message.\<close>

definition open_log ::
    "core_config \<Rightarrow> tagged_audio_buffer \<Rightarrow> int \<Rightarrow> int \<Rightarrow> direction \<Rightarrow> logger
      \<Rightarrow> (logger \<times> logger_event list) res" where
  "open_log cfg t from_modem_index to_modem_index dir l =
     (let modem_index = (if dir = IN then from_modem_index else to_modem_index);
          name = log_file_name cfg (log_start_time l) dir (packet_id t) from_modem_index to_modem_index;
          l1 = (set_file dir (packet_id t) ((files l dir (packet_id t))(modem_index \<mapsto> Some name)) l)
                 \<lparr>disk := (disk l)(name \<mapsto> [])\<rparr>
      in (case tbuffer t of
            None \<Rightarrow> Inl Undefined_Behaviour
          | Some b \<Rightarrow>
              Inr (append_file name (Start_Time (buffer_start_time b)) l1,
                   if dir = IN then [Packet_Start (packet_id t) modem_index] else [])))"

text \<open>
  Every message: its samples go to the file of its key, if one is open; the address of the first
  sample of a null pointer or of an empty buffer is undefined.
\<close>

definition write_log ::
    "tagged_audio_buffer \<Rightarrow> int \<Rightarrow> direction \<Rightarrow> logger \<Rightarrow> logger res" where
  "write_log t modem_index dir l =
     (case files l dir (packet_id t) modem_index of
        None \<Rightarrow> Inr (set_file dir (packet_id t)
                       ((files l dir (packet_id t))(modem_index \<mapsto> None)) l)
      | Some None \<Rightarrow> Inr l
      | Some (Some name) \<Rightarrow>
          (case tbuffer t of
             None \<Rightarrow> Inl Undefined_Behaviour
           | Some b \<Rightarrow>
               if samples b = [] then Inl Undefined_Behaviour
               else Inr (append_file name (Samples (samples b)) l)))"

text \<open>The part of \<open>log_audio\<close> for an END message.\<close>

definition close_log ::
    "core_config \<Rightarrow> tagged_audio_buffer \<Rightarrow> int \<Rightarrow> int \<Rightarrow> direction \<Rightarrow> logger
      \<Rightarrow> logger \<times> logger_event list" where
  "close_log cfg t from_modem_index modem_index dir l =
     (let m = (files l dir (packet_id t))(modem_index := None)
      in (set_file dir (packet_id t) m l,
          if dir = OUT \<and> dom m = {}
          then [All_Logs_Closed_For_Packet (log_directory (logger_cfg cfg)) (log_start_time l)
                  (packet_id t) from_modem_index]
          else []))"

definition log_audio ::
    "core_config \<Rightarrow> tagged_audio_buffer \<Rightarrow> int \<Rightarrow> int \<Rightarrow> direction \<Rightarrow> logger
      \<Rightarrow> (logger \<times> logger_event list) res" where
  "log_audio cfg t from_modem_index to_modem_index dir l =
     (let modem_index = (if dir = IN then from_modem_index else to_modem_index)
      in res_bind (if tmarker t = START then open_log cfg t from_modem_index to_modem_index dir l
                   else Inr (l, []))
           (\<lambda>(l1, out1). res_bind (write_log t modem_index dir l1) (\<lambda>l2.
              if tmarker t = END
              then (case close_log cfg t from_modem_index modem_index dir l2 of
                      (l3, out2) \<Rightarrow> Inr (l3, out1 @ out2))
              else Inr (l2, out1))))"

text \<open>
  The callbacks: the audio of a detector is logged with \<open>-1\<close> as the receiving modem, the audio of a
  processor with both modems.
\<close>

datatype log_message =
    From_Detector int tagged_audio_buffer
  | From_Processor int int tagged_audio_buffer

fun logger_handle :: "core_config \<Rightarrow> (log_message, logger, logger_event) handler" where
  "logger_handle cfg (From_Detector i t) l = log_audio cfg t i (-1) IN l"
| "logger_handle cfg (From_Processor from_i to_i t) l = log_audio cfg t from_i to_i OUT l"

section \<open>File names\<close>

lemma underscore_not_dec [simp]: "CHR ''_'' \<notin> set (dec n)" "CHR ''_'' \<notin> set (pad0 k (dec n))"
  "CHR ''.'' \<notin> set (dec n)"
  using set_dec [of n] set_pad_dec [of k n] by (auto simp: digits_def)

lemma log_file_name_inject:
  assumes "log_file_name cfg s dir pid f t = log_file_name cfg s dir' pid' f' t'"
  shows "dir = dir' \<and> pid = pid' \<and> f = f' \<and> (dir = OUT \<longrightarrow> t = t')"
proof -
  have dir: "dir = dir'"
    using assms by (cases dir; cases dir') (auto simp: log_file_name_def)
  have "pad0 3 (dec (sint pid)) @ CHR ''_'' # ''tx'' @ dec f
        @ (if dir = OUT then ''_rx'' @ dec t else '''') @ ''.bin'' =
      pad0 3 (dec (sint pid')) @ CHR ''_'' # ''tx'' @ dec f'
        @ (if dir = OUT then ''_rx'' @ dec t' else '''') @ ''.bin''"
    using assms dir by (cases dir) (auto simp: log_file_name_def)
  then have "pad0 3 (dec (sint pid)) = pad0 3 (dec (sint pid'))"
    and rest: "dec f @ (if dir = OUT then ''_rx'' @ dec t else '''') @ ''.bin'' =
      dec f' @ (if dir = OUT then ''_rx'' @ dec t' else '''') @ ''.bin''"
    by (subst (asm) append_sep_inject; simp)+
  from this(1) have "sint pid = sint pid'" by (simp only: pad_dec_inject)
  then have "(of_int (sint pid) :: 32 word) = of_int (sint pid')" by (rule arg_cong)
  then have pid: "pid = pid'" by (simp only: of_int_sint scast_id)
  show ?thesis
  proof (cases dir)
    case IN
    with rest have "dec f @ CHR ''.'' # ''bin'' = dec f' @ CHR ''.'' # ''bin''" by simp
    then have "f = f'" by (subst (asm) append_sep_inject) simp_all
    with dir pid IN show ?thesis by simp
  next
    case OUT
    with rest have "dec f @ CHR ''_'' # ''rx'' @ dec t @ ''.bin'' =
        dec f' @ CHR ''_'' # ''rx'' @ dec t' @ ''.bin''" by simp
    then have "f = f'" and "dec t @ CHR ''.'' # ''bin'' = dec t' @ CHR ''.'' # ''bin''"
      by (subst (asm) append_sep_inject; simp)+
    from this(2) have "t = t'" by (subst (asm) append_sep_inject) simp_all
    with dir pid \<open>f = f'\<close> show ?thesis by simp
  qed
qed

section \<open>Messages that can be logged\<close>

fun message_of :: "log_message \<Rightarrow> tagged_audio_buffer" where
  "message_of (From_Detector i t) = t"
| "message_of (From_Processor f i t) = t"

fun log_key :: "log_message \<Rightarrow> direction \<times> 32 word \<times> int" where
  "log_key (From_Detector i t) = (IN, packet_id t, i)"
| "log_key (From_Processor f i t) = (OUT, packet_id t, i)"

fun log_name :: "core_config \<Rightarrow> string \<Rightarrow> log_message \<Rightarrow> string" where
  "log_name cfg s (From_Detector i t) = log_file_name cfg s IN (packet_id t) i (-1)"
| "log_name cfg s (From_Processor f i t) = log_file_name cfg s OUT (packet_id t) f i"

definition loggable :: "log_message \<Rightarrow> bool" where
  "loggable m \<longleftrightarrow> (\<exists>b. tbuffer (message_of m) = Some b \<and> samples b \<noteq> [])"

definition msg_samples :: "log_message \<Rightarrow> fp list" where
  "msg_samples m = (case tbuffer (message_of m) of None \<Rightarrow> [] | Some b \<Rightarrow> samples b)"

fun entry :: "logger \<Rightarrow> direction \<times> 32 word \<times> int \<Rightarrow> string option option" where
  "entry l (dir, pid, modem) = files l dir pid modem"

text \<open>What one message does, once its buffer is there.\<close>

definition opens :: "log_message \<Rightarrow> bool" where
  "opens m \<longleftrightarrow> tmarker (message_of m) = START"

definition closes :: "log_message \<Rightarrow> bool" where
  "closes m \<longleftrightarrow> tmarker (message_of m) = END"

lemma entry_set_file:
  "entry (set_file dir pid f l) (dir', pid', modem) =
     (if dir' = dir \<and> pid' = pid then f modem else files l dir' pid' modem)"
  by (simp add: set_file_def)

lemma files_simps [simp]:
  "files (set_file dir pid f l) = (files l)(dir := (files l dir)(pid := f))"
  "disk (set_file dir pid f l) = disk l"
  "log_start_time (set_file dir pid f l) = log_start_time l"
  "files (append_file name item l) = files l"
  "disk (append_file name item l) =
     (disk l)(name \<mapsto> (case disk l name of None \<Rightarrow> [] | Some xs \<Rightarrow> xs) @ [item])"
  "log_start_time (append_file name item l) = log_start_time l"
  by (simp_all add: set_file_def append_file_def)

lemma log_audio_step:
  fixes dir :: direction and f i :: int and cfg :: core_config and l :: logger
  assumes "tbuffer t = Some b" and "samples b \<noteq> []"
  defines "modem \<equiv> (if dir = IN then f else i)"
  defines "name \<equiv> log_file_name cfg (log_start_time l) dir (packet_id t) f i"
  defines "e \<equiv> (if tmarker t = START then Some name
          else case files l dir (packet_id t) modem of None \<Rightarrow> None | Some x \<Rightarrow> x)"
  shows "\<exists>l' out. log_audio cfg t f i dir l = Inr (l', out)
     \<and> log_start_time l' = log_start_time l
     \<and> files l' = (files l)(dir := (files l dir)(packet_id t := (files l dir (packet_id t))
           (modem := (if tmarker t = END then None else Some e))))
     \<and> disk l' = (case e of None \<Rightarrow> disk l
          | Some nm \<Rightarrow> (disk l)(nm \<mapsto>
              (if tmarker t = START then [Start_Time (buffer_start_time b)]
               else (case disk l nm of None \<Rightarrow> [] | Some xs \<Rightarrow> xs)) @ [Samples (samples b)]))
     \<and> out = (if tmarker t = START \<and> dir = IN then [Packet_Start (packet_id t) modem] else [])
          @ (if tmarker t = END \<and> dir = OUT \<and> dom ((files l dir (packet_id t))(modem := None)) = {}
             then [All_Logs_Closed_For_Packet (log_directory (logger_cfg cfg)) (log_start_time l)
                     (packet_id t) f] else [])"
proof -
  have same: "files l dir pid m = Some x \<Longrightarrow>
      (files l)(dir := (files l dir)(pid := (files l dir pid)(m \<mapsto> x))) = files l" for pid m x
    by (simp add: fun_upd_idem)
  show ?thesis
  proof (cases "tmarker t = START")
    case True
    with assms(1,2) show ?thesis
      by (simp add: Let_def log_audio_def open_log_def write_log_def close_log_def modem_def name_def e_def
          del: dom_fun_upd dom_eq_empty_conv)
  next
    case False
    with assms(1,2) same [of "packet_id t" modem] show ?thesis
      by (cases "files l dir (packet_id t) modem"; cases "the (files l dir (packet_id t) modem)";
          simp add: Let_def log_audio_def write_log_def close_log_def modem_def [symmetric] e_def
            del: dom_fun_upd dom_eq_empty_conv; cases dir; simp del: dom_fun_upd dom_eq_empty_conv)
  qed
qed

section \<open>One message and the invariant\<close>

fun key_name :: "core_config \<Rightarrow> string \<Rightarrow> direction \<times> 32 word \<times> int \<Rightarrow> int \<Rightarrow> string" where
  "key_name cfg s (dir, pid, modem) f =
     (if dir = IN then log_file_name cfg s IN pid modem (-1) else log_file_name cfg s OUT pid f modem)"

text \<open>Every open file has a name made from its key.\<close>

definition names_ok :: "core_config \<Rightarrow> string \<Rightarrow> logger \<Rightarrow> bool" where
  "names_ok cfg s l \<longleftrightarrow> log_start_time l = s
     \<and> (\<forall>k nm. entry l k = Some (Some nm) \<longrightarrow> (\<exists>f. nm = key_name cfg s k f))"

lemma key_name_inject: "key_name cfg s k f = key_name cfg s k' f' \<Longrightarrow> k = k'"
proof -
  assume h: "key_name cfg s k f = key_name cfg s k' f'"
  obtain dir pid m dir' pid' m' where k: "k = (dir, pid, m)" "k' = (dir', pid', m')"
    by (cases k; cases k') blast
  show "k = k'"
    using h unfolding k by (cases dir; cases dir') (auto dest: log_file_name_inject)
qed

lemma log_name_key: "\<exists>f. log_name cfg s m = key_name cfg s (log_key m) f"
  by (cases m) auto

fun transmitter :: "log_message \<Rightarrow> int" where
  "transmitter (From_Detector i t) = i"
| "transmitter (From_Processor f i t) = f"

text \<open>What a message publishes, given the receivers of its packet that are open after it.\<close>

definition events_of :: "core_config \<Rightarrow> string \<Rightarrow> log_message \<Rightarrow> int set \<Rightarrow> logger_event list" where
  "events_of cfg s m open_after =
     (if opens m \<and> fst (log_key m) = IN
      then [Packet_Start (packet_id (message_of m)) (transmitter m)] else [])
     @ (if closes m \<and> fst (log_key m) = OUT \<and> open_after = {}
        then [All_Logs_Closed_For_Packet (log_directory (logger_cfg cfg)) s
                (packet_id (message_of m)) (transmitter m)] else [])"

definition new_entry :: "core_config \<Rightarrow> log_message \<Rightarrow> logger \<Rightarrow> string option" where
  "new_entry cfg m l =
     (if opens m then Some (log_name cfg (log_start_time l) m)
      else case entry l (log_key m) of None \<Rightarrow> None | Some x \<Rightarrow> x)"

definition start_time_of :: "log_message \<Rightarrow> fp" where
  "start_time_of m = (case tbuffer (message_of m) of None \<Rightarrow> NaN | Some b \<Rightarrow> buffer_start_time b)"

lemma handle_step:
  assumes "loggable m"
  shows "\<exists>l' out. logger_handle cfg m l = Inr (l', out)
     \<and> log_start_time l' = log_start_time l
     \<and> entry l' = (entry l)(log_key m := (if closes m then None else Some (new_entry cfg m l)))
     \<and> disk l' = (case new_entry cfg m l of None \<Rightarrow> disk l
          | Some nm \<Rightarrow> (disk l)(nm \<mapsto>
              (if opens m then [Start_Time (start_time_of m)]
               else (case disk l nm of None \<Rightarrow> [] | Some xs \<Rightarrow> xs)) @ [Samples (msg_samples m)]))
     \<and> out = events_of cfg (log_start_time l) m (dom (files l' OUT (packet_id (message_of m))))"
proof -
  define t where "t = message_of m"
  define dir where "dir = fst (log_key m)"
  define i where "i = (case m of From_Detector _ _ \<Rightarrow> - 1 | From_Processor _ i _ \<Rightarrow> i)"
  let ?f = "transmitter m"
  let ?modem = "if dir = IN then ?f else i"
  have key: "log_key m = (dir, packet_id t, ?modem)"
    and name: "log_name cfg s' m = log_file_name cfg s' dir (packet_id t) ?f i"
    and handle: "logger_handle cfg m l = log_audio cfg t ?f i dir l" for s'
    by (cases m; simp add: t_def dir_def i_def)+
  have marker: "opens m \<longleftrightarrow> tmarker t = START" "closes m \<longleftrightarrow> tmarker t = END"
    by (simp_all add: opens_def closes_def t_def)
  from assms obtain b where b: "tbuffer t = Some b" "samples b \<noteq> []"
    by (auto simp: loggable_def t_def)
  then have b': "msg_samples m = samples b" "start_time_of m = buffer_start_time b"
    by (simp_all add: msg_samples_def start_time_of_def t_def [symmetric])
  have new: "new_entry cfg m l =
      (if tmarker t = START then Some (log_file_name cfg (log_start_time l) dir (packet_id t) ?f i)
       else case files l dir (packet_id t) ?modem of None \<Rightarrow> None | Some x \<Rightarrow> x)"
    by (simp only: new_entry_def marker key name entry.simps)
  from log_audio_step [OF b, of cfg ?f i dir l] obtain l' out where
    h: "log_audio cfg t ?f i dir l = Inr (l', out)" and "log_start_time l' = log_start_time l" and
    f: "files l' = (files l)(dir := (files l dir)(packet_id t := (files l dir (packet_id t))
           (?modem := (if tmarker t = END then None else Some (new_entry cfg m l)))))" and
    d: "disk l' = (case new_entry cfg m l of None \<Rightarrow> disk l
          | Some nm \<Rightarrow> (disk l)(nm \<mapsto>
              (if tmarker t = START then [Start_Time (buffer_start_time b)]
               else (case disk l nm of None \<Rightarrow> [] | Some xs \<Rightarrow> xs)) @ [Samples (samples b)]))" and
    o: "out = (if tmarker t = START \<and> dir = IN then [Packet_Start (packet_id t) ?modem] else [])
          @ (if tmarker t = END \<and> dir = OUT \<and> dom ((files l dir (packet_id t))(?modem := None)) = {}
             then [All_Logs_Closed_For_Packet (log_directory (logger_cfg cfg)) (log_start_time l)
                     (packet_id t) ?f] else [])"
    unfolding new by blast
  have "entry l' = (entry l)(log_key m := (if closes m then None else Some (new_entry cfg m l)))"
  proof
    fix k :: "direction \<times> 32 word \<times> int"
    obtain dir' pid' m' where "k = (dir', pid', m')" by (cases k)
    then show "entry l' k = ((entry l)(log_key m := (if closes m then None else Some (new_entry cfg m l)))) k"
      unfolding key marker by (simp add: f)
  qed
  moreover have "tmarker t = END \<and> dir = OUT \<Longrightarrow>
      dom (files l' OUT (packet_id t)) = dom ((files l dir (packet_id t))(?modem := None))"
    by (simp add: f)
  then have "out = events_of cfg (log_start_time l) m (dom (files l' OUT (packet_id (message_of m))))"
    unfolding o events_of_def marker key fst_conv t_def [symmetric] by (simp split: if_split del: dom_fun_upd dom_eq_empty_conv)
  ultimately show ?thesis
    using h d \<open>log_start_time l' = log_start_time l\<close> unfolding handle marker b' by blast
qed

lemma names_ok_init: "names_ok cfg s (logger_init s)"
  by (simp add: names_ok_def logger_init_def)

lemma names_okD: "names_ok cfg s l \<Longrightarrow> entry l k = Some (Some nm) \<Longrightarrow> \<exists>f. nm = key_name cfg s k f"
  unfolding names_ok_def by blast

lemma new_entry_name:
  assumes "names_ok cfg s l" and "new_entry cfg m l = Some nm"
  shows "\<exists>f. nm = key_name cfg s (log_key m) f"
proof (cases "opens m")
  case True
  with assms have "nm = log_name cfg s m" by (simp add: new_entry_def names_ok_def)
  with log_name_key show ?thesis by metis
next
  case False
  with assms(2) have "entry l (log_key m) = Some (Some nm)"
    by (simp add: new_entry_def split: option.splits)
  with assms(1) show ?thesis by (rule names_okD)
qed

lemma names_ok_step:
  assumes "loggable m" and "names_ok cfg s l" and "logger_handle cfg m l = Inr (l', out)"
  shows "names_ok cfg s l'"
proof -
  have "\<exists>f. nm = key_name cfg s k f" if k: "entry l' k = Some (Some nm)" for k nm
  proof (cases "k = log_key m")
    case True
    with k handle_step [OF assms(1), of cfg l] assms(3) have "new_entry cfg m l = Some nm"
      by (auto split: if_splits)
    with True assms(2) show ?thesis by (simp only: new_entry_name)
  next
    case False
    with k handle_step [OF assms(1), of cfg l] assms(3) have "entry l k = Some (Some nm)" by auto
    with assms(2) show ?thesis by (rule names_okD)
  qed
  moreover have "log_start_time l' = s"
    using handle_step [OF assms(1), of cfg l] assms(2,3) by (auto simp: names_ok_def)
  ultimately show ?thesis by (simp only: names_ok_def) blast
qed

interpretation logger: total_component "logger_handle cfg" loggable "names_ok cfg s" for cfg s
proof unfold_locales
  fix m l l' out
  assume "loggable m" "names_ok cfg s l" "logger_handle cfg m l = Inr (l', out)"
  then show "names_ok cfg s l'" by (rule names_ok_step)
next
  fix m l
  assume "loggable m"
  then show "\<exists>l' out. logger_handle cfg m l = Inr (l', out)" using handle_step by blast
qed

text \<open>While a file is open, exactly the messages of its key extend it.\<close>

lemma run_open_file:
  assumes "list_all loggable ms" and "names_ok cfg s l"
    and "entry l k = Some (Some nm)" and "disk l nm = Some items"
    and "\<forall>m \<in> set ms. log_key m = k \<longrightarrow> \<not> opens m \<and> \<not> closes m"
  shows "\<exists>l' evs. run (logger_handle cfg) ms l = Inr (l', evs) \<and> names_ok cfg s l'
     \<and> entry l' k = Some (Some nm)
     \<and> disk l' nm = Some (items @ map (Samples \<circ> msg_samples) (filter (\<lambda>m. log_key m = k) ms))"
  using assms
proof (induction ms arbitrary: l items)
  case Nil
  then show ?case by simp
next
  case (Cons m ms)
  from Cons.prems(1) have lm: "loggable m" and lms: "list_all loggable ms" by simp_all
  from handle_step [OF lm, of cfg l] obtain l1 out where
    h: "logger_handle cfg m l = Inr (l1, out)" and
    e: "entry l1 = (entry l)(log_key m := (if closes m then None else Some (new_entry cfg m l)))" and
    d: "disk l1 = (case new_entry cfg m l of None \<Rightarrow> disk l
          | Some nm \<Rightarrow> (disk l)(nm \<mapsto>
              (if opens m then [Start_Time (start_time_of m)]
               else (case disk l nm of None \<Rightarrow> [] | Some xs \<Rightarrow> xs)) @ [Samples (msg_samples m)]))"
    by blast
  have ok1: "names_ok cfg s l1" by (rule names_ok_step [OF lm Cons.prems(2) h])
  from Cons.prems(2,3) obtain f where nm: "nm = key_name cfg s k f"
    using names_okD by blast
  have "entry l1 k = Some (Some nm)
      \<and> disk l1 nm = Some (items @ (if log_key m = k then [Samples (msg_samples m)] else []))"
  proof (cases "log_key m = k")
    case True
    with Cons.prems(3,5) have "new_entry cfg m l = Some nm" and "\<not> opens m" and "\<not> closes m"
      by (simp_all add: new_entry_def)
    with True e d Cons.prems(4) show ?thesis by simp
  next
    case False
    have "nm' \<noteq> nm" if "new_entry cfg m l = Some nm'" for nm'
    proof -
      from new_entry_name [OF Cons.prems(2) that] obtain f' where "nm' = key_name cfg s (log_key m) f'" by blast
      with nm False show ?thesis using key_name_inject by metis
    qed
    with False e d Cons.prems(3,4) show ?thesis by (auto split: option.splits)
  qed
  from Cons.IH [OF lms ok1 conjunct1 [OF this] conjunct2 [OF this]] Cons.prems(5) h show ?case
    by (auto simp: run_Cons_Inr)
qed

section \<open>When a packet's logs are closed\<close>

text \<open>
  The specification of the events: for every packet id the set of receivers whose log has seen a
  message and not yet an END.
\<close>

fun open_step :: "log_message \<Rightarrow> (32 word \<Rightarrow> int set) \<Rightarrow> (32 word \<Rightarrow> int set)" where
  "open_step (From_Detector i t) R = R"
| "open_step (From_Processor f i t) R =
     R(packet_id t := (if tmarker t = END then R (packet_id t) - {i} else insert i (R (packet_id t))))"

fun logger_spec :: "core_config \<Rightarrow> string \<Rightarrow> log_message list \<Rightarrow> (32 word \<Rightarrow> int set) \<Rightarrow> logger_event list" where
  "logger_spec cfg s [] R = []"
| "logger_spec cfg s (m # ms) R =
     (let R' = open_step m R
      in events_of cfg s m (R' (packet_id (message_of m))) @ logger_spec cfg s ms R')"

lemma handle_open_step:
  assumes "loggable m"
  shows "\<exists>l' out. logger_handle cfg m l = Inr (l', out)
     \<and> log_start_time l' = log_start_time l
     \<and> (\<lambda>pid. dom (files l' OUT pid)) = open_step m (\<lambda>pid. dom (files l OUT pid))
     \<and> out = events_of cfg (log_start_time l) m (dom (files l' OUT (packet_id (message_of m))))"
proof -
  from handle_step [OF assms, of cfg l] obtain l' out where
    h: "logger_handle cfg m l = Inr (l', out)" "log_start_time l' = log_start_time l"
      "out = events_of cfg (log_start_time l) m (dom (files l' OUT (packet_id (message_of m))))" and
    e: "entry l' = (entry l)(log_key m := (if closes m then None else Some (new_entry cfg m l)))"
    by blast
  have f: "files l' OUT pid i = (if log_key m = (OUT, pid, i)
      then (if closes m then None else Some (new_entry cfg m l)) else files l OUT pid i)" for pid i
    using fun_cong [OF e, of "(OUT, pid, i)"] by auto
  have "(\<lambda>pid. dom (files l' OUT pid)) = open_step m (\<lambda>pid. dom (files l OUT pid))"
    by (cases m) (auto simp: fun_eq_iff dom_def f closes_def)
  with h show ?thesis by blast
qed

lemma logger_run_spec:
  assumes "list_all loggable ms" and "log_start_time l = s"
  shows "\<exists>l'. run (logger_handle cfg) ms l =
      Inr (l', logger_spec cfg s ms (\<lambda>pid. dom (files l OUT pid)))"
  using assms
proof (induction ms arbitrary: l)
  case Nil
  then show ?case by simp
next
  case (Cons m ms)
  from Cons.prems(1) have "loggable m" and ms: "list_all loggable ms" by simp_all
  from handle_open_step [OF this(1), of cfg l] obtain l1 out where
    "logger_handle cfg m l = Inr (l1, out)" and s: "log_start_time l1 = s" and
    R: "open_step m (\<lambda>pid. dom (files l OUT pid)) = (\<lambda>pid. dom (files l1 OUT pid))" and
    "out = events_of cfg s m (dom (files l1 OUT (packet_id (message_of m))))"
    using Cons.prems(2) by metis
  with Cons.IH [OF ms s] show ?case by (auto simp: Let_def)
qed

section \<open>Properties\<close>

definition burst :: "marker \<Rightarrow> rat \<Rightarrow> tagged_audio_buffer" where
  "burst m x = \<lparr>tbuffer = Some \<lparr>buffer_start_time = Fin x, jack_frame_time = 0, samples = [Fin x]\<rparr>,
                tmarker = m, packet_id = 0\<rparr>"

lemma burst_simps [simp]:
  "tmarker (burst m x) = m" "packet_id (burst m x) = 0"
  "tbuffer (burst m x) = Some \<lparr>buffer_start_time = Fin x, jack_frame_time = 0, samples = [Fin x]\<rparr>"
  by (simp_all add: burst_def)

lemma loggable_burst [simp]:
  "loggable (From_Detector i (burst m x))" "loggable (From_Processor f i (burst m x))"
  by (simp_all add: loggable_def)

lemma opens_burst [simp]:
  "opens (From_Detector i (burst m x)) = (m = START)" "closes (From_Detector i (burst m x)) = (m = END)"
  "opens (From_Processor f i (burst m x)) = (m = START)" "closes (From_Processor f i (burst m x)) = (m = END)"
  by (simp_all add: opens_def closes_def)

text \<open>
  C22: Whatever else is logged at the same time, the log file of a packet holds, from its START to its
  END, the start time of the first buffer and then the samples of exactly the messages with the same
  direction, packet id and modem, in order; then the file is closed. This holds after any messages
  logged before.
\<close>

theorem packet_is_logged:
  assumes "list_all loggable (before @ [first] @ mid @ [final])"
    and "opens first" and "closes final" and "log_key final = log_key first"
    and "\<forall>m \<in> set mid. log_key m = log_key first \<longrightarrow> \<not> opens m \<and> \<not> closes m"
  shows "\<exists>l evs. run (logger_handle cfg) (before @ [first] @ mid @ [final]) (logger_init s) = Inr (l, evs)
     \<and> disk l (log_name cfg s first) =
         Some (Start_Time (start_time_of first)
           # map (Samples \<circ> msg_samples)
               ([first] @ filter (\<lambda>m. log_key m = log_key first) mid @ [final]))
     \<and> entry l (log_key first) = None"
proof -
  let ?nm = "log_name cfg s first" and ?k = "log_key first"
  have ok: "list_all loggable before" "loggable first" "list_all loggable mid" "loggable final"
    using assms(1) by simp_all
  from logger.run_total [OF ok(1) names_ok_init [of cfg s]] obtain l0 e0
    where r0: "run (logger_handle cfg) before (logger_init s) = Inr (l0, e0)" and n0: "names_ok cfg s l0"
    by blast
  from assms(2) have "\<not> closes first" by (simp add: opens_def closes_def)
  moreover from n0 assms(2) have "new_entry cfg first l0 = Some ?nm"
    by (simp add: new_entry_def names_ok_def)
  ultimately obtain l1 e1 where h1: "logger_handle cfg first l0 = Inr (l1, e1)"
    and "entry l1 ?k = Some (Some ?nm)"
    and "disk l1 ?nm = Some [Start_Time (start_time_of first), Samples (msg_samples first)]"
    using handle_step [OF ok(2), of cfg l0] assms(2) by auto
  from run_open_file [OF ok(3) names_ok_step [OF ok(2) n0 h1] this(2,3) assms(5)] obtain l2 e2
    where r2: "run (logger_handle cfg) mid l1 = Inr (l2, e2)" and l2: "entry l2 ?k = Some (Some ?nm)"
      "disk l2 ?nm = Some ([Start_Time (start_time_of first), Samples (msg_samples first)]
          @ map (Samples \<circ> msg_samples) (filter (\<lambda>m. log_key m = ?k) mid))" by blast
  from assms(3) have "\<not> opens final" by (simp add: opens_def closes_def)
  with l2 assms(3,4) obtain l3 e3 where "logger_handle cfg final l2 = Inr (l3, e3)" and "entry l3 ?k = None"
    and "disk l3 ?nm = Some ([Start_Time (start_time_of first), Samples (msg_samples first)]
          @ map (Samples \<circ> msg_samples) (filter (\<lambda>m. log_key m = ?k) mid) @ [Samples (msg_samples final)])"
    using handle_step [OF ok(4), of cfg l2] by (auto simp: new_entry_def)
  with r0 h1 r2 show ?thesis by (auto simp: run_append)
qed

theorem packet_is_logged_witness:
  "\<exists>l evs. run (logger_handle (default_core_config 2))
       ([] @ [From_Processor 0 1 (burst START 1)]
        @ [From_Processor 1 0 (burst START 5), From_Processor 0 1 (burst MIDDLE 2)]
        @ [From_Processor 0 1 (burst END 3)]) (logger_init ''t'') = Inr (l, evs)
     \<and> disk l ''./netsim_t_out_000_tx0_rx1.bin'' =
         Some [Start_Time (Fin 1), Samples [Fin 1], Samples [Fin 2], Samples [Fin 3]]"
proof -
  have "log_name (default_core_config 2) ''t'' (From_Processor 0 1 (burst START 1)) = ''./netsim_t_out_000_tx0_rx1.bin''"
    by (simp add: log_file_name_def default_core_config_def dec_def dec_nat.simps digit_def pad0_def
        eval_nat_numeral)
  then show ?thesis
    using packet_is_logged [of "[]" "From_Processor 0 1 (burst START 1)"
        "[From_Processor 1 0 (burst START 5), From_Processor 0 1 (burst MIDDLE 2)]"
        "From_Processor 0 1 (burst END 3)" "default_core_config 2" "''t''"]
    by (auto simp: start_time_of_def msg_samples_def)
qed

text \<open>
  C23: As long as no message has a null or an empty buffer the logger never faults, and the events it
  publishes are those of the specification: PACKET_START for the START of a detected packet, and
  ALL_LOGS_CLOSED at exactly those END messages of a processor after which no receiver of that
  packet id has seen a message without an END.
\<close>

theorem logger_events_follow_spec:
  assumes "list_all loggable ms"
  shows "\<exists>l. run (logger_handle cfg) ms (logger_init s) = Inr (l, logger_spec cfg s ms (\<lambda>_. {}))"
proof -
  have "(\<lambda>pid. dom (files (logger_init s) OUT pid)) = (\<lambda>_. {})" by (simp add: logger_init_def)
  with logger_run_spec [OF assms, of "logger_init s" s cfg] show ?thesis
    by (simp add: logger_init_def)
qed

theorem logger_events_follow_spec_witness:
  "\<exists>l. run (logger_handle (default_core_config 3))
       [From_Detector 0 (burst START 1), From_Processor 0 1 (burst START 1),
        From_Processor 0 2 (burst START 1), From_Processor 0 1 (burst END 2),
        From_Processor 0 2 (burst END 3)] (logger_init ''t'')
     = Inr (l, [Packet_Start 0 0, All_Logs_Closed_For_Packet ''.'' ''t'' 0 0])"
proof -
  let ?ms = "[From_Detector 0 (burst START 1), From_Processor 0 1 (burst START 1),
        From_Processor 0 2 (burst START 1), From_Processor 0 1 (burst END 2),
        From_Processor 0 2 (burst END 3)]"
  have "logger_spec (default_core_config 3) ''t'' ?ms (\<lambda>_. {}) =
      [Packet_Start 0 0, All_Logs_Closed_For_Packet ''.'' ''t'' 0 0]"
    by (simp add: events_of_def Let_def insert_Diff_if del: Diff_eq_empty_iff)
       (simp add: default_core_config_def)
  moreover have "list_all loggable ?ms" by simp
  ultimately show ?thesis
    using logger_events_follow_spec [of ?ms "default_core_config 3" "''t''"] by (simp only:)
qed

text \<open>
  With one transmitter, the end of all logs of a packet is announced too early and more than once
  when the audio for one receiver ends before the audio for another one starts: here the packet is
  announced as closed before anything has been logged for receiver 2.
\<close>

theorem logs_closed_announced_early:
  "\<exists>l l'. run (logger_handle cfg) [From_Processor 0 1 (burst START 1), From_Processor 0 1 (burst END 2)]
         (logger_init s)
       = Inr (l, [All_Logs_Closed_For_Packet (log_directory (logger_cfg cfg)) s 0 0])
     \<and> run (logger_handle cfg) [From_Processor 0 2 (burst START 1), From_Processor 0 2 (burst END 2)] l
       = Inr (l', [All_Logs_Closed_For_Packet (log_directory (logger_cfg cfg)) s 0 0])"
  by (simp add: log_audio_def open_log_def write_log_def close_log_def Let_def logger_init_def)

text \<open>
  The keys of the open files do not have the transmitter, but packet ids are counted per
  transmitter: when two modems transmit packets with the same id to one receiver at the same time, the
  second START takes over the entry, the rest of the first packet goes to the file of the second
  transmitter, and the END of the first packet closes it.
\<close>

theorem transmitters_share_a_log:
  "\<exists>l evs. run (logger_handle cfg)
       [From_Processor 0 2 (burst START 1), From_Processor 1 2 (burst START 5),
        From_Processor 0 2 (burst END 2), From_Processor 1 2 (burst MIDDLE 6)] (logger_init s) = Inr (l, evs)
     \<and> disk l (log_file_name cfg s OUT 0 0 2) = Some [Start_Time (Fin 1), Samples [Fin 1]]
     \<and> disk l (log_file_name cfg s OUT 0 1 2) =
         Some [Start_Time (Fin 5), Samples [Fin 5], Samples [Fin 2]]
     \<and> evs = [All_Logs_Closed_For_Packet (log_directory (logger_cfg cfg)) s 0 0]"
proof -
  have "log_file_name cfg s OUT 0 0 2 \<noteq> log_file_name cfg s OUT 0 1 2"
    by (auto dest: log_file_name_inject)
  then show ?thesis
    by (simp add: log_audio_def open_log_def write_log_def close_log_def Let_def logger_init_def)
qed

end
