(* ===== verification/Tcp.thy ===== *)
theory Tcp
  imports Text
begin

text \<open>
  The TCP link between the simulator and its clients (\<open>src/lib/tcp\<close>): a session sends and receives
  protobuf messages as lines of the form \<open>NETSIM|name|data\<close>, the data in base 64; the server
  accepts sessions and writes to the one with a given remote endpoint.

  Base 64 (from DCCL), protobuf serialisation and the sockets are not part of the repository. The
  first two are the arguments \<open>codec\<close> of the definitions, with their documented behaviour as the
  locale \<open>wire_codec\<close>; a socket delivers the bytes of a stream in pieces of any length.
\<close>

section \<open>Sessions\<close>

record 'm codec =
  full_name :: "'m \<Rightarrow> string"
  serialize :: "'m \<Rightarrow> string"
  parse :: "string \<Rightarrow> string \<Rightarrow> 'm"
  b64_encode :: "string \<Rightarrow> string"
  b64_decode :: "string \<Rightarrow> string"

definition end_of_line :: char where "end_of_line = CHR 10"
definition delimiter :: char where "delimiter = CHR ''|''"
definition preamble :: string where "preamble = ''NETSIM''"

text \<open>
  \<open>rx_callbacks\<close>: the subscribers to one message type, by name; \<open>rx_all\<close>: those to all messages. A
  subscriber is known by a number; a typed one is posted the parsed message.
\<close>

datatype 'm post = Parsed nat 'm | Unparsed nat string string

record session =
  rx_callbacks :: "(string \<times> nat) list"
  rx_all :: "nat list"
  buffer :: string
  connected :: bool

definition session_init :: session where
  "session_init = \<lparr>rx_callbacks = [], rx_all = [], buffer = [], connected = False\<rparr>"

definition read_callback :: "string \<Rightarrow> nat \<Rightarrow> session \<Rightarrow> session" where
  "read_callback name f s = s\<lparr>rx_callbacks := rx_callbacks s @ [(name, f)]\<rparr>"

definition read_callback_all :: "nat \<Rightarrow> session \<Rightarrow> session" where
  "read_callback_all f s = s\<lparr>rx_all := rx_all s @ [f]\<rparr>"

definition start :: "session \<Rightarrow> session" where
  "start s = s\<lparr>connected := True\<rparr>"

definition disconnect :: "session \<Rightarrow> session" where
  "disconnect s = s\<lparr>connected := False\<rparr>"

definition wire :: "'m codec \<Rightarrow> 'm \<Rightarrow> string" where
  "wire codec m =
     preamble @ [delimiter] @ full_name codec m @ [delimiter]
     @ filter (\<lambda>c. c \<noteq> end_of_line) (b64_encode codec (serialize codec m)) @ [end_of_line]"

definition post_all :: "'m codec \<Rightarrow> session \<Rightarrow> string \<Rightarrow> string \<Rightarrow> 'm post list" where
  "post_all codec s pb_name pb_data =
     map (\<lambda>(_, f). Parsed f (parse codec pb_name pb_data))
       (filter (\<lambda>(name, _). name = pb_name) (rx_callbacks s))
     @ map (\<lambda>f. Unparsed f pb_name pb_data) (rx_all s)"

text \<open>
  The handler of \<open>async_read_until\<close>, called when the buffer has a complete line: three \<open>getline\<close>s on
  the buffer. The preamble is read and not looked at.
\<close>

definition read_line :: "'m codec \<Rightarrow> session \<Rightarrow> session \<times> 'm post list" where
  "read_line codec s =
     (case getline delimiter (buffer s, True) of (_, is1) \<Rightarrow>
      case getline delimiter is1 of (pb_name, is2) \<Rightarrow>
      case getline end_of_line is2 of (pb_data_b64, is3) \<Rightarrow>
        (s\<lparr>buffer := fst is3\<rparr>, post_all codec s pb_name (b64_decode codec pb_data_b64)))"

lemma read_line_session: "fst (read_line codec s) = s\<lparr>buffer := buffer (fst (read_line codec s))\<rparr>"
  by (simp add: read_line_def split: prod.splits)

lemma read_line_shrinks:
  assumes "end_of_line \<in> set (buffer s)"
  shows "length (buffer (fst (read_line codec s))) < length (buffer s)"
proof -
  obtain p is1 where g1: "getline delimiter (buffer s, True) = (p, is1)" by (rule prod.exhaust)
  obtain n is2 where g2: "getline delimiter is1 = (n, is2)" by (rule prod.exhaust)
  obtain d is3 where g3: "getline end_of_line is2 = (d, is3)" by (rule prod.exhaust)
  have "buffer s \<noteq> []" using assms by auto
  then have "length (fst is1) < length (buffer s)"
    using getline_shrinks [of delimiter "buffer s" True] by (simp only: g1) simp
  moreover have "length (fst is2) \<le> length (fst is1)"
    using getline_le [of delimiter "fst is1" "snd is1"] by (simp only: prod.collapse g2 fst_conv snd_conv)
  moreover have "length (fst is3) \<le> length (fst is2)"
    using getline_le [of end_of_line "fst is2" "snd is2"] by (simp only: prod.collapse g3 fst_conv snd_conv)
  moreover have "buffer (fst (read_line codec s)) = fst is3"
    unfolding read_line_def g1 prod.case g2 g3 by simp
  ultimately show ?thesis by simp
qed

text \<open>\<open>read()\<close> calls itself until no complete line is left in the buffer.\<close>

function read_lines :: "'m codec \<Rightarrow> session \<Rightarrow> session \<times> 'm post list" where
  "read_lines codec s =
     (if end_of_line \<in> set (buffer s) then
        (case read_line codec s of (s', posts) \<Rightarrow>
           (case read_lines codec s' of (s'', posts') \<Rightarrow> (s'', posts @ posts')))
      else (s, []))"
  by pat_completeness auto
termination
  by (relation "measure (\<lambda>(codec, s). length (buffer s))")
     (simp, metis fst_conv in_measure old.prod.case read_line_shrinks)

declare read_lines.simps [simp del]

datatype session_event = Bytes string | Read_Error | Write_Error

text \<open>A closed session does not read any more.\<close>

fun session_handle ::
    "'m codec \<Rightarrow> (session_event, session, 'm post) handler" where
  "session_handle codec (Bytes bs) s =
     (if connected s then Inr (read_lines codec (s\<lparr>buffer := buffer s @ bs\<rparr>)) else Inr (s, []))"
| "session_handle codec Read_Error s = Inr (disconnect s, [])"
| "session_handle codec Write_Error s = Inr (disconnect s, [])"

text \<open>
  \<open>tcp_client::connect\<close>: a new socket is connected; on success the session starts, else the handler
  throws the error. The buffer of the session is not touched.
\<close>

definition client_connect :: "bool \<Rightarrow> session \<Rightarrow> session res" where
  "client_connect success s = (if success then Inr (start s) else Inl (Runtime_Error ''connect''))"

section \<open>The contract of the codec\<close>

text \<open>
  What the link relies on: base 64 data survives the removal of line ends, parsing inverts
  serialisation, and the full name of a message type (identifiers and dots) has no delimiter.
\<close>

locale wire_codec =
  fixes codec :: "'m codec" and valid :: "'m \<Rightarrow> bool"
  assumes b64: "b64_decode codec (filter (\<lambda>c. c \<noteq> end_of_line) (b64_encode codec x)) = x"
    and parse_serialize: "valid m \<Longrightarrow> parse codec (full_name codec m) (serialize codec m) = m"
    and name_clean: "valid m \<Longrightarrow> delimiter \<notin> set (full_name codec m) \<and> end_of_line \<notin> set (full_name codec m)"
begin

definition link_posts :: "session \<Rightarrow> 'm \<Rightarrow> 'm post list" where
  "link_posts s m =
     map (\<lambda>(_, f). Parsed f m) (filter (\<lambda>(name, _). name = full_name codec m) (rx_callbacks s))
     @ map (\<lambda>f. Unparsed f (full_name codec m) (serialize codec m)) (rx_all s)"

lemma chars [simp]: "delimiter \<noteq> end_of_line" "end_of_line \<noteq> delimiter"
  "delimiter \<notin> set preamble" "end_of_line \<notin> set preamble"
  by (simp_all add: delimiter_def end_of_line_def preamble_def)

lemma wire_eol: "\<exists>w. wire codec m = w @ [end_of_line] \<and> (valid m \<longrightarrow> end_of_line \<notin> set w)"
  using name_clean [of m]
  by (intro exI [of _ "preamble @ [delimiter] @ full_name codec m @ [delimiter]
     @ filter (\<lambda>c. c \<noteq> end_of_line) (b64_encode codec (serialize codec m))"]) (auto simp: wire_def)

lemma read_line_wire:
  assumes "valid m" and "buffer s = p @ [delimiter] @ drop (Suc (length preamble)) (wire codec m) @ rest"
    and "delimiter \<notin> set p"
  shows "read_line codec s = (s\<lparr>buffer := rest\<rparr>, link_posts s m)"
proof -
  let ?d = "filter (\<lambda>c. c \<noteq> end_of_line) (b64_encode codec (serialize codec m))"
  have "buffer s = p @ delimiter # full_name codec m @ delimiter # ?d @ end_of_line # rest"
    using assms(2) by (simp add: wire_def)
  moreover have "end_of_line \<notin> set ?d" by simp
  ultimately show ?thesis
    using assms(3) name_clean [OF assms(1)]
    by (simp add: read_line_def post_all_def link_posts_def b64 parse_serialize [OF assms(1)] del: set_filter)
qed

lemma wire_split: "wire codec m = preamble @ [delimiter] @ drop (Suc (length preamble)) (wire codec m)"
  by (simp add: wire_def)

lemma read_lines_wires:
  "\<forall>m \<in> set ms. valid m \<Longrightarrow> end_of_line \<notin> set rest
    \<Longrightarrow> buffer s = concat (map (wire codec) ms) @ rest
    \<Longrightarrow> read_lines codec s = (s\<lparr>buffer := rest\<rparr>, concat (map (link_posts s) ms))"
proof (induction ms arbitrary: s)
  case Nil
  then show ?case by (subst read_lines.simps) simp
next
  case (Cons m ms)
  let ?s1 = "s\<lparr>buffer := concat (map (wire codec) ms) @ rest\<rparr>"
  have "read_line codec s = (?s1, link_posts s m)"
  proof (rule read_line_wire [of _ _ preamble])
    have "buffer s = wire codec m @ concat (map (wire codec) ms) @ rest" using Cons.prems(3) by simp
    then show "buffer s = preamble @ [delimiter] @ drop (Suc (length preamble)) (wire codec m)
        @ concat (map (wire codec) ms) @ rest"
      by (subst (asm) wire_split) simp
  qed (use Cons.prems(1) in simp_all)
  moreover have "end_of_line \<in> set (buffer s)"
    using wire_eol [of m] Cons.prems(3) by auto
  moreover have "read_lines codec ?s1 = (?s1\<lparr>buffer := rest\<rparr>, concat (map (link_posts ?s1) ms))"
    using Cons.prems by (intro Cons.IH) simp_all
  moreover have "link_posts ?s1 = link_posts s" by (simp add: link_posts_def fun_eq_iff)
  ultimately show ?case by (subst read_lines.simps) simp
qed

text \<open>A prefix of the stream is some complete lines and the beginning of the next one.\<close>

lemma split_stream:
  "\<forall>m \<in> set ms. valid m \<Longrightarrow> t @ u = concat (map (wire codec) ms)
    \<Longrightarrow> \<exists>ms1 ms2 r. ms = ms1 @ ms2 \<and> t = concat (map (wire codec) ms1) @ r
          \<and> end_of_line \<notin> set r \<and> r @ u = concat (map (wire codec) ms2)"
proof (induction ms arbitrary: t)
  case Nil
  then show ?case by auto
next
  case (Cons m ms)
  obtain w where w: "wire codec m = w @ [end_of_line]" "end_of_line \<notin> set w"
    using wire_eol [of m] Cons.prems(1) by auto
  have tu: "t @ u = (w @ [end_of_line]) @ concat (map (wire codec) ms)"
    using Cons.prems(2) w by simp
  show ?case
  proof (cases "length t \<le> length w")
    case True
    then have "t = take (length t) w"
      using arg_cong [OF tu, of "take (length t)"] by simp
    then have "end_of_line \<notin> set t" using w(2) by (metis in_set_takeD)
    with Cons.prems(2) show ?thesis
      by (intro exI [of _ "[]"] exI [of _ "m # ms"] exI [of _ t]) simp
  next
    case False
    then have "take (length (wire codec m)) t = wire codec m"
      using arg_cong [OF tu, of "take (length (wire codec m))"] w by simp
    then obtain t' where t': "t = wire codec m @ t'" by (metis append_take_drop_id)
    with Cons.prems(2) have "t' @ u = concat (map (wire codec) ms)" by simp
    with Cons.IH [of t'] Cons.prems(1) obtain ms1 ms2 r where
      "ms = ms1 @ ms2" "t' = concat (map (wire codec) ms1) @ r" "end_of_line \<notin> set r"
      "r @ u = concat (map (wire codec) ms2)" by auto
    with t' show ?thesis by (intro exI [of _ "m # ms1"] exI [of _ ms2] exI [of _ r]) simp
  qed
qed

lemma run_segments:
  "\<forall>m \<in> set ms. valid m \<Longrightarrow> connected s \<Longrightarrow> end_of_line \<notin> set (buffer s)
    \<Longrightarrow> buffer s @ concat chunks = concat (map (wire codec) ms)
    \<Longrightarrow> run (session_handle codec) (map Bytes chunks) s
          = Inr (s\<lparr>buffer := []\<rparr>, concat (map (link_posts s) ms))"
proof (induction chunks arbitrary: s ms)
  case Nil
  have "ms = []"
  proof (rule ccontr)
    assume "ms \<noteq> []"
    then obtain m ms' where "ms = m # ms'" by (cases ms) auto
    with Nil wire_eol [of m] show False by auto
  qed
  with Nil show ?case by simp
next
  case (Cons c cs)
  from Cons.prems(4) have "(buffer s @ c) @ concat cs = concat (map (wire codec) ms)" by simp
  from split_stream [OF Cons.prems(1) this] obtain ms1 ms2 r where
    ms: "ms = ms1 @ ms2" and r: "buffer s @ c = concat (map (wire codec) ms1) @ r" "end_of_line \<notin> set r"
      "r @ concat cs = concat (map (wire codec) ms2)" by blast
  have d: "link_posts (s\<lparr>buffer := b\<rparr>) = link_posts s" for b by (simp add: link_posts_def fun_eq_iff)
  have "session_handle codec (Bytes c) s = Inr (s\<lparr>buffer := r\<rparr>, concat (map (link_posts s) ms1))"
    using read_lines_wires [of ms1 r "s\<lparr>buffer := buffer s @ c\<rparr>"] Cons.prems(1,2) ms r(1,2)
    by (simp add: d)
  moreover have "run (session_handle codec) (map Bytes cs) (s\<lparr>buffer := r\<rparr>)
      = Inr ((s\<lparr>buffer := r\<rparr>)\<lparr>buffer := []\<rparr>, concat (map (link_posts (s\<lparr>buffer := r\<rparr>)) ms2))"
    using Cons.prems(1,2) ms r by (intro Cons.IH) simp_all
  ultimately show ?case by (simp add: ms d)
qed

end

section \<open>Base 64\<close>

text \<open>
  The encoding of RFC 4648, line ends after every 72 characters included, as a program: it shows that
  the contract can hold, and the closed theorems evaluate on it. A message is its type name and its
  serialised form.
\<close>

fun char_bits :: "char \<Rightarrow> bool list" where
  "char_bits (Char b0 b1 b2 b3 b4 b5 b6 b7) = [b7, b6, b5, b4, b3, b2, b1, b0]"

fun bits_char :: "bool list \<Rightarrow> char" where
  "bits_char [b7, b6, b5, b4, b3, b2, b1, b0] = Char b0 b1 b2 b3 b4 b5 b6 b7"
| "bits_char _ = CHR 0x00"

fun groups :: "nat \<Rightarrow> bool list \<Rightarrow> bool list list" where
  "groups n bs = (if n = 0 \<or> length bs < n then [] else take n bs # groups n (drop n bs))"

declare groups.simps [simp del]

fun bits_nat :: "bool list \<Rightarrow> nat" where
  "bits_nat [] = 0"
| "bits_nat (b # bs) = of_bool b * 2 ^ length bs + bits_nat bs"

fun nat_bits :: "nat \<Rightarrow> nat \<Rightarrow> bool list" where
  "nat_bits 0 n = []"
| "nat_bits (Suc k) n = (2 ^ k \<le> n) # nat_bits k (if 2 ^ k \<le> n then n - 2 ^ k else n)"

definition alphabet :: string where
  "alphabet = ''ABCDEFGHIJKLMNOPQRSTUVWXYZabcdefghijklmnopqrstuvwxyz0123456789+/''"

fun index_of :: "char \<Rightarrow> string \<Rightarrow> nat" where
  "index_of c [] = 0"
| "index_of c (x # xs) = (if x = c then 0 else Suc (index_of c xs))"

definition zeros_for :: "nat \<Rightarrow> nat" where
  "zeros_for n = (if n mod 6 = 0 then 0 else 6 - n mod 6)"

definition base64_chars :: "string \<Rightarrow> string" where
  "base64_chars s =
     (let bs = concat (map char_bits s)
      in map (\<lambda>g. alphabet ! bits_nat g) (groups 6 (bs @ replicate (zeros_for (length bs)) False))
         @ replicate ((3 - length s mod 3) mod 3) CHR ''='')"

function line_wrap :: "string \<Rightarrow> string" where
  "line_wrap s = (if length s \<le> 72 then s else take 72 s @ [end_of_line] @ line_wrap (drop 72 s))"
  by pat_completeness auto
termination by (relation "measure length") auto

declare line_wrap.simps [simp del]

definition base64_encode :: "string \<Rightarrow> string" where
  "base64_encode s = line_wrap (base64_chars s)"

definition base64_decode :: "string \<Rightarrow> string" where
  "base64_decode s = map bits_char (groups 8
     (concat (map (\<lambda>c. nat_bits 6 (index_of c alphabet)) (filter (\<lambda>c. c \<in> set alphabet) s))))"

lemma bits_char_bits [simp]: "bits_char (char_bits c) = c"
  by (cases c) simp

lemma length_char_bits [simp]: "length (char_bits c) = 8"
  by (cases c) simp

lemma groups_append: "length g = n \<Longrightarrow> 0 < n \<Longrightarrow> groups n (g @ bs) = g # groups n bs"
  by (subst groups.simps) simp

lemma groups_short: "length bs < n \<Longrightarrow> groups n bs = []"
  by (subst groups.simps) simp

lemma groups_char_bits: "length r < 8 \<Longrightarrow> groups 8 (concat (map char_bits s) @ r) = map char_bits s"
  by (induction s) (simp_all add: groups_short groups_append)

lemma concat_groups: "0 < n \<Longrightarrow> length bs mod n = 0 \<Longrightarrow> concat (groups n bs) = bs"
proof (induction n bs rule: groups.induct)
  case (1 n bs)
  show ?case
  proof (cases "length bs < n")
    case True
    with 1 have "bs = []" by simp
    then show ?thesis by (simp add: groups_short 1)
  next
    case False
    then have "(length bs - n) mod n = 0" using 1 by (simp add: le_mod_geq)
    with False 1 show ?thesis by (subst groups.simps) simp
  qed
qed

lemma groups_length: "g \<in> set (groups n bs) \<Longrightarrow> length g = n"
proof (induction n bs rule: groups.induct)
  case (1 n bs)
  then show ?case by (subst (asm) (2) groups.simps) (auto split: if_splits)
qed

lemma bits_nat_less: "bits_nat bs < 2 ^ length bs"
  by (induction bs) auto

lemma nat_bits_nat [simp]: "nat_bits (length bs) (bits_nat bs) = bs"
proof (induction bs)
  case Nil
  then show ?case by simp
next
  case (Cons b bs)
  with bits_nat_less [of bs] show ?case by (cases b) auto
qed

lemma index_of_nth: "distinct xs \<Longrightarrow> n < length xs \<Longrightarrow> index_of (xs ! n) xs = n"
proof (induction xs arbitrary: n)
  case Nil
  then show ?case by simp
next
  case (Cons x xs)
  then show ?case by (cases n) (auto simp: nth_mem)
qed

lemma alphabet: "distinct alphabet" "length alphabet = 64" "CHR ''='' \<notin> set alphabet" "end_of_line \<notin> set alphabet"
  by (simp_all add: alphabet_def end_of_line_def)

lemma filter_line_wrap: "end_of_line \<notin> set s \<Longrightarrow> filter (\<lambda>c. c \<noteq> end_of_line) (line_wrap s) = s"
proof (induction s rule: line_wrap.induct)
  case (1 s)
  then have "filter (\<lambda>c. c \<noteq> end_of_line) (take 72 s) = take 72 s"
    by (auto simp: filter_id_conv dest: in_set_takeD)
  moreover have "end_of_line \<notin> set (drop 72 s)" using 1(2) by (auto dest: in_set_dropD)
  ultimately show ?case using 1
    by (cases "length s \<le> 72"; subst line_wrap.simps) (simp_all add: filter_id_conv)
qed

lemma group_index:
  assumes "g \<in> set (groups 6 bs)"
  shows "alphabet ! bits_nat g \<in> set alphabet" "nat_bits 6 (index_of (alphabet ! bits_nat g) alphabet) = g"
proof -
  have g: "length g = 6" using assms by (rule groups_length)
  then have "bits_nat g < length alphabet" using bits_nat_less [of g] by (simp add: alphabet)
  then show "alphabet ! bits_nat g \<in> set alphabet"
    and "nat_bits 6 (index_of (alphabet ! bits_nat g) alphabet) = g"
    using nat_bits_nat [of g] g by (simp_all add: index_of_nth alphabet)
qed

lemma zeros_for: "(n + zeros_for n) mod 6 = 0" "zeros_for n < 8"
  by (auto simp: zeros_for_def) presburger

lemma base64_roundtrip: "base64_decode (base64_chars s) = s"
proof -
  let ?bs = "concat (map char_bits s)"
  let ?gs = "groups 6 (?bs @ replicate (zeros_for (length ?bs)) False)"
  have a: "filter (\<lambda>c. c \<in> set alphabet) (map (\<lambda>g. alphabet ! bits_nat g) ?gs) = map (\<lambda>g. alphabet ! bits_nat g) ?gs"
    using group_index(1) by (auto simp: filter_id_conv)
  have "filter (\<lambda>c. c \<in> set alphabet) (base64_chars s) = map (\<lambda>g. alphabet ! bits_nat g) ?gs"
    using a by (simp add: base64_chars_def Let_def alphabet filter_replicate)
  moreover have "map (\<lambda>g. nat_bits 6 (index_of (alphabet ! bits_nat g) alphabet)) ?gs = ?gs"
    using group_index(2) by (intro map_idI) blast
  moreover have "concat ?gs = ?bs @ replicate (zeros_for (length ?bs)) False"
    by (intro concat_groups) (simp_all add: zeros_for)
  ultimately have "base64_decode (base64_chars s) =
      map bits_char (groups 8 (?bs @ replicate (zeros_for (length ?bs)) False))"
    by (simp add: base64_decode_def comp_def)
  then show ?thesis by (simp add: groups_char_bits zeros_for comp_def)
qed

lemma base64_no_eol: "end_of_line \<notin> set (base64_chars s)"
proof -
  have "c \<in> set alphabet \<or> c = CHR ''=''" if "c \<in> set (base64_chars s)" for c
    using that group_index(1) by (auto simp: base64_chars_def Let_def split: if_splits)
  then show ?thesis using alphabet(4) by (auto simp: end_of_line_def)
qed

definition base64_codec :: "(string \<times> string) codec" where
  "base64_codec = \<lparr>full_name = fst, serialize = snd, parse = Pair,
                   b64_encode = base64_encode, b64_decode = base64_decode\<rparr>"

definition clean_name :: "string \<times> string \<Rightarrow> bool" where
  "clean_name m \<longleftrightarrow> delimiter \<notin> set (fst m) \<and> end_of_line \<notin> set (fst m)"

interpretation base64: wire_codec base64_codec clean_name
  by unfold_locales
     (simp_all add: base64_codec_def base64_encode_def filter_line_wrap [OF base64_no_eol]
       base64_roundtrip clean_name_def)

section \<open>The server\<close>

text \<open>
  \<open>sessions_\<close> holds weak pointers, by remote endpoint; a session lives as long as it is connected,
  because only its own \<open>self_\<close> keeps it. A new session gets one subscriber to all messages, which posts
  them to the server's subscribers with the endpoint it came from.
\<close>

record 'e tcp_server =
  sessions :: "'e \<rightharpoonup> nat"
  alive :: "nat \<rightharpoonup> session"
  next_session :: nat
  server_callbacks :: "(string \<times> nat) list"

datatype ('e, 'm) server_event =
    Accept "'e option" | On_Session nat session_event | Write 'm 'e

datatype ('e, 'm) server_output = Sent nat string | Posted nat 'm 'e

definition server_init :: "'e tcp_server" where
  "server_init = \<lparr>sessions = Map.empty, alive = Map.empty, next_session = 0, server_callbacks = []\<rparr>"

definition server_read_callback :: "string \<Rightarrow> nat \<Rightarrow> 'e tcp_server \<Rightarrow> 'e tcp_server" where
  "server_read_callback name f v = v\<lparr>server_callbacks := server_callbacks v @ [(name, f)]\<rparr>"

text \<open>\<open>None\<close>: the accept failed. \<open>std::map::insert\<close> leaves an existing entry alone.\<close>

definition server_accept :: "'e option \<Rightarrow> 'e tcp_server \<Rightarrow> 'e tcp_server" where
  "server_accept ep v =
     (case ep of
        None \<Rightarrow> v
      | Some e \<Rightarrow>
          v\<lparr>sessions := (if sessions v e = None then (sessions v)(e \<mapsto> next_session v) else sessions v),
             alive := (alive v)(next_session v \<mapsto> start (read_callback_all 0 session_init)),
             next_session := Suc (next_session v)\<rparr>)"

definition server_write ::
    "'m codec \<Rightarrow> 'm \<Rightarrow> 'e \<Rightarrow> 'e tcp_server \<Rightarrow> 'e tcp_server \<times> ('e, 'm) server_output list" where
  "server_write codec m ep v =
     (case sessions v ep of
        None \<Rightarrow> (v, [])
      | Some i \<Rightarrow>
          if alive v i \<noteq> None then (v, [Sent i (wire codec m)])
          else (v\<lparr>sessions := (sessions v)(ep := None)\<rparr>, []))"

text \<open>
  The remote endpoint a session reports with a message is the one it was accepted with; \<open>ep\<close> gives
  it for every session.
\<close>

fun server_post ::
    "'m codec \<Rightarrow> 'e tcp_server \<Rightarrow> 'e \<Rightarrow> 'm post \<Rightarrow> ('e, 'm) server_output list" where
  "server_post codec v e (Unparsed f pb_name pb_data) =
     map (\<lambda>(_, f). Posted f (parse codec pb_name pb_data) e)
       (filter (\<lambda>(name, _). name = pb_name) (server_callbacks v))"
| "server_post codec v e (Parsed f m) = []"

fun server_handle ::
    "'m codec \<Rightarrow> (nat \<Rightarrow> 'e) \<Rightarrow> (('e, 'm) server_event, 'e tcp_server, ('e, 'm) server_output) handler" where
  "server_handle codec ep (Accept e) v = Inr (server_accept e v, [])"
| "server_handle codec ep (Write m e) v = Inr (server_write codec m e v)"
| "server_handle codec ep (On_Session i ev) v =
     (case alive v i of
        None \<Rightarrow> Inr (v, [])
      | Some s \<Rightarrow>
          (case session_handle codec ev s of
             Inl f \<Rightarrow> Inl f
           | Inr (s', posts) \<Rightarrow>
               Inr (v\<lparr>alive := (alive v)(i := (if connected s' then Some s' else None))\<rparr>,
                    concat (map (server_post codec v (ep i)) posts))))"

text \<open>The abstract server: which session, if any, an endpoint is connected by.\<close>

definition connection :: "'e tcp_server \<Rightarrow> 'e \<rightharpoonup> nat" where
  "connection v e =
     (case sessions v e of None \<Rightarrow> None | Some i \<Rightarrow> if alive v i = None then None else Some i)"

definition server_inv :: "'e tcp_server \<Rightarrow> bool" where
  "server_inv v \<longleftrightarrow>
     (\<forall>e i. sessions v e = Some i \<longrightarrow> i < next_session v)
     \<and> (\<forall>i s. alive v i = Some s \<longrightarrow> i < next_session v \<and> connected s)"

lemma read_lines_session:
  "fst (read_lines codec s) = s\<lparr>buffer := buffer (fst (read_lines codec s))\<rparr>"
proof (induction codec s rule: read_lines.induct)
  case (1 codec s)
  show ?case
  proof (cases "end_of_line \<in> set (buffer s)")
    case True
    obtain s1 p1 where r: "read_line codec s = (s1, p1)" by (rule prod.exhaust)
    have "s1 = s\<lparr>buffer := buffer s1\<rparr>" using read_line_session [of codec s] by (simp add: r)
    then obtain b where s1: "s1 = s\<lparr>buffer := b\<rparr>" by blast
    from 1 [OF True r [symmetric]]
    have "fst (read_lines codec s1) = s1\<lparr>buffer := buffer (fst (read_lines codec s1))\<rparr>" .
    then have "fst (read_lines codec s1) = s\<lparr>buffer := buffer (fst (read_lines codec s1))\<rparr>"
      by (simp add: s1)
    moreover have "fst (read_lines codec s) = fst (read_lines codec s1)"
      by (subst read_lines.simps) (simp add: True r split: prod.split)
    ultimately show ?thesis by simp
  next
    case False
    then show ?thesis by (subst (1 2) read_lines.simps) simp
  qed
qed

lemma session_handle_connected:
  "session_handle codec (Bytes bs) s = Inr (s', posts) \<Longrightarrow> connected s \<Longrightarrow> connected s'"
  using read_lines_session [of codec "s\<lparr>buffer := buffer s @ bs\<rparr>"]
  by (auto dest!: arg_cong [of _ _ connected])

interpretation tcp_server: component "server_handle codec ep" "\<lambda>_. True" server_inv for codec ep
proof unfold_locales
  fix ev v v' out
  assume inv: "server_inv v" and h: "server_handle codec ep ev v = Inr (v', out)"
  show "server_inv v'"
  proof (cases ev)
    case (Accept e)
    with inv h show ?thesis
      by (cases e) (auto simp: server_inv_def server_accept_def start_def less_Suc_eq split: if_splits)
  next
    case (On_Session i e)
    with inv h show ?thesis
      by (auto simp: server_inv_def split: option.splits sum.splits prod.splits if_splits)
  next
    case (Write m e)
    with inv h show ?thesis
      by (auto simp: server_inv_def server_write_def split: option.splits if_splits)
  qed
qed

section \<open>Properties\<close>

text \<open>What a session posts for one message of its peer.\<close>

definition posts_of :: "'m codec \<Rightarrow> session \<Rightarrow> 'm \<Rightarrow> 'm post list" where
  "posts_of codec s m =
     map (\<lambda>(_, f). Parsed f m) (filter (\<lambda>(name, _). name = full_name codec m) (rx_callbacks s))
     @ map (\<lambda>f. Unparsed f (full_name codec m) (serialize codec m)) (rx_all s)"

lemma link_posts_posts_of: "wire_codec codec valid \<Longrightarrow> wire_codec.link_posts codec = posts_of codec"
  by (simp add: wire_codec.link_posts_def posts_of_def fun_eq_iff)

definition listener :: session where
  "listener = start (read_callback_all 7 (read_callback ''A.B'' 3 session_init))"

lemma listener_simps [simp]:
  "connected listener" "buffer listener = []" "rx_callbacks listener = [(''A.B'', 3)]" "rx_all listener = [7]"
  by (simp_all add: listener_def start_def read_callback_all_def read_callback_def session_init_def)

lemma clean_AB [simp]: "clean_name (''A.B'', d)" "full_name base64_codec m = fst m" "serialize base64_codec m = snd m"
  by (simp_all add: clean_name_def delimiter_def end_of_line_def base64_codec_def)

text \<open>
  C24: The link delivers what was sent, however TCP cuts the stream into pieces: for any segmentation
  of the lines of some messages, a connected session posts exactly these messages, in order and each
  once to each subscriber of its type and to each subscriber of all messages, and its buffer is empty
  afterwards.
\<close>

theorem messages_survive_segmentation:
  assumes "wire_codec codec valid" and "\<forall>m \<in> set ms. valid m" and "connected s" and "buffer s = []"
    and "concat chunks = concat (map (wire codec) ms)"
  shows "run (session_handle codec) (map Bytes chunks) s = Inr (s, concat (map (posts_of codec s) ms))"
proof -
  have "run (session_handle codec) (map Bytes chunks) s
      = Inr (s\<lparr>buffer := []\<rparr>, concat (map (wire_codec.link_posts codec s) ms))"
    using assms by (intro wire_codec.run_segments [OF assms(1)]) simp_all
  with assms(4) show ?thesis by (simp add: link_posts_posts_of [OF assms(1)])
qed

theorem messages_survive_segmentation_witness:
  "run (session_handle base64_codec)
     (map Bytes [take 3 (wire base64_codec (''A.B'', ''hi'')),
                 drop 3 (wire base64_codec (''A.B'', ''hi'')) @ wire base64_codec (''C'', ''yo'')]) listener
   = Inr (listener, [Parsed 3 (''A.B'', ''hi''), Unparsed 7 ''A.B'' ''hi'', Unparsed 7 ''C'' ''yo''])"
proof -
  have "clean_name (''C'', ''yo'')" by (simp add: clean_name_def delimiter_def end_of_line_def)
  then show ?thesis
    using messages_survive_segmentation [OF base64.wire_codec_axioms,
      of "[(''A.B'', ''hi''), (''C'', ''yo'')]" listener
         "[take 3 (wire base64_codec (''A.B'', ''hi'')),
           drop 3 (wire base64_codec (''A.B'', ''hi'')) @ wire base64_codec (''C'', ''yo'')]"]
    by (simp add: posts_of_def)
qed

text \<open>
  The preamble that marks a line of this protocol is not checked: a line with any other text in
  front of the first delimiter is taken as the message.
\<close>

theorem preamble_not_checked:
  assumes "wire_codec codec valid" and "valid m" and "delimiter \<notin> set p"
    and "buffer s = p @ [delimiter] @ drop (Suc (length preamble)) (wire codec m) @ rest"
  shows "read_line codec s = (s\<lparr>buffer := rest\<rparr>, posts_of codec s m)"
  using wire_codec.read_line_wire [OF assms(1,2,4,3)] by (simp add: link_posts_posts_of [OF assms(1)])

theorem preamble_not_checked_witness:
  "read_line base64_codec (listener\<lparr>buffer := ''GET '' @ [delimiter]
       @ drop (Suc (length preamble)) (wire base64_codec (''A.B'', ''x''))\<rparr>)
     = (listener, [Parsed 3 (''A.B'', ''x''), Unparsed 7 ''A.B'' ''x''])"
  using preamble_not_checked [OF base64.wire_codec_axioms, of "(''A.B'', ''x'')" "''GET ''"
      "listener\<lparr>buffer := ''GET '' @ [delimiter]
       @ drop (Suc (length preamble)) (wire base64_codec (''A.B'', ''x''))\<rparr>" "[]"]
  by (simp add: posts_of_def) (simp add: delimiter_def)

text \<open>
  A line that has one delimiter only takes the next line with it when both are in the buffer: no
  subscriber of the type of the next message is posted, and a subscriber of all messages gets one
  message with a name made of both lines.
\<close>

theorem malformed_line_swallows_next:
  assumes "delimiter \<notin> set a" "end_of_line \<notin> set a" "delimiter \<notin> set b" "end_of_line \<notin> set b"
    and "buffer s = a @ [delimiter] @ b @ [end_of_line] @ wire codec m" and "valid m"
    and "wire_codec codec valid"
  shows "\<exists>data. read_lines codec s =
           (s\<lparr>buffer := []\<rparr>, post_all codec s (b @ [end_of_line] @ preamble) data)"
proof -
  define d where "d = full_name codec m @ [delimiter]
      @ filter (\<lambda>c. c \<noteq> end_of_line) (b64_encode codec (serialize codec m))"
  define n where "n = b @ [end_of_line] @ preamble"
  note L = wire_codec.chars [OF assms(7)]
  have b: "buffer s = a @ delimiter # n @ delimiter # d @ end_of_line # []"
    using assms(5) by (simp add: wire_def n_def d_def)
  have clean: "end_of_line \<notin> set d" "delimiter \<notin> set n"
    using wire_codec.name_clean [OF assms(7,6)] L assms(3) by (simp_all add: d_def n_def)
  have "read_line codec s = (s\<lparr>buffer := []\<rparr>, post_all codec s n (b64_decode codec d))"
    using assms(1) clean by (simp add: read_line_def b)
  moreover have "end_of_line \<in> set (buffer s)" by (simp add: b)
  moreover have "read_lines codec (s\<lparr>buffer := []\<rparr>) = (s\<lparr>buffer := []\<rparr>, [])"
    by (subst read_lines.simps) simp
  ultimately have "read_lines codec s = (s\<lparr>buffer := []\<rparr>, post_all codec s n (b64_decode codec d))"
    by (subst read_lines.simps) simp
  then show ?thesis unfolding n_def by blast
qed

theorem malformed_line_swallows_next_witness:
  "\<exists>data. read_lines base64_codec (listener\<lparr>buffer :=
       ''x'' @ [delimiter] @ ''y'' @ [end_of_line] @ wire base64_codec (''A.B'', ''hi'')\<rparr>)
     = (listener, [Unparsed 7 (''y'' @ [end_of_line] @ preamble) data])"
proof -
  let ?s = "listener\<lparr>buffer := ''x'' @ [delimiter] @ ''y'' @ [end_of_line] @ wire base64_codec (''A.B'', ''hi'')\<rparr>"
  have "\<exists>data. read_lines base64_codec ?s =
      (?s\<lparr>buffer := []\<rparr>, post_all base64_codec ?s (''y'' @ [end_of_line] @ preamble) data)"
    by (rule malformed_line_swallows_next [where a = "''x''" and b = "''y''" and m = "(''A.B'', ''hi'')",
          OF _ _ _ _ _ _ base64.wire_codec_axioms])
       (simp_all add: delimiter_def end_of_line_def)
  then show ?thesis by (auto simp: post_all_def end_of_line_def)
qed



text \<open>
  A client that comes back from the same endpoint before the server has written to it again is
  not reachable: the new session is connected, but the table keeps the dead one; the first message
  only removes that entry, and no message is sent after that.
\<close>

theorem returning_client_unreachable:
  assumes "sessions v e = Some i" and "alive v i = None" and "i < next_session v"
  shows "\<exists>v'. run (server_handle codec ep) (Accept (Some e) # map (\<lambda>m. Write m e) ms) v = Inr (v', [])
           \<and> alive v' (next_session v) \<noteq> None"
proof -
  let ?v1 = "server_accept (Some e) v"
  have v1: "sessions ?v1 e = Some i" "alive ?v1 i = None" "alive ?v1 (next_session v) \<noteq> None"
    using assms by (simp_all add: server_accept_def)
  have gone: "sessions w e = None \<Longrightarrow> run (server_handle codec ep) (map (\<lambda>m. Write m e) ms) w = Inr (w, [])"
    for w ms by (induction ms) (simp_all add: server_write_def)
  have "\<exists>v'. run (server_handle codec ep) (map (\<lambda>m. Write m e) ms) ?v1 = Inr (v', [])
      \<and> alive v' (next_session v) \<noteq> None"
  proof (cases ms)
    case Nil
    with v1 show ?thesis by simp
  next
    case (Cons m ms')
    let ?v2 = "?v1\<lparr>sessions := (sessions ?v1)(e := None)\<rparr>"
    have "server_handle codec ep (Write m e) ?v1 = Inr (?v2, [])" using v1 by (simp add: server_write_def)
    with Cons gone [of ?v2 ms'] v1(3) show ?thesis by simp
  qed
  then show ?thesis by auto
qed

theorem returning_client_unreachable_witness:
  "\<exists>v'. run (server_handle base64_codec (\<lambda>_. ''p'')) (Accept (Some ''p'') # map (\<lambda>m. Write m ''p'') [(''A'', ''1''), (''A'', ''2'')])
       (server_init\<lparr>sessions := [''p'' \<mapsto> 0], next_session := 1\<rparr>) = Inr (v', []) \<and> alive v' 1 \<noteq> None"
  using returning_client_unreachable [of "server_init\<lparr>sessions := [''p'' \<mapsto> 0], next_session := 1\<rparr>" "''p''" 0
      base64_codec "\<lambda>_. ''p''" "[(''A'', ''1''), (''A'', ''2'')]"]
  by (simp add: server_init_def)


text \<open>
  A client that connects again after the connection was lost in the middle of a line loses the
  first message of the new connection: \<open>connect\<close> makes a new socket and keeps the buffer, and the
  old half of a line is joined to the first new one.
\<close>

theorem reconnect_garbles_first_message:
  assumes "delimiter \<notin> set a" "delimiter \<notin> set b"
    and "buffer s = a @ [delimiter] @ b" and "valid m" and "wire_codec codec valid"
  shows "\<exists>s1 data. client_connect True s = Inr s1
           \<and> session_handle codec (Bytes (wire codec m)) s1 =
               Inr (s1\<lparr>buffer := []\<rparr>, post_all codec s (b @ preamble) data)"
proof -
  define d where "d = full_name codec m @ [delimiter]
      @ filter (\<lambda>c. c \<noteq> end_of_line) (b64_encode codec (serialize codec m))"
  define n where "n = b @ preamble"
  note L = wire_codec.chars [OF assms(5)]
  let ?s = "(start s)\<lparr>buffer := buffer s @ wire codec m\<rparr>"
  have b: "buffer ?s = a @ delimiter # n @ delimiter # d @ end_of_line # []"
    using assms(3) by (simp add: wire_def d_def n_def)
  have "end_of_line \<notin> set d" "delimiter \<notin> set n"
    using wire_codec.name_clean [OF assms(5,4)] L assms(2) by (simp_all add: d_def n_def)
  then have "read_line codec ?s = ((start s)\<lparr>buffer := []\<rparr>, post_all codec s n (b64_decode codec d))"
    unfolding read_line_def b using assms(1) by (simp add: post_all_def start_def)
  moreover have "end_of_line \<in> set (buffer ?s)" by (simp only: b) simp
  moreover have "read_lines codec ((start s)\<lparr>buffer := []\<rparr>) = ((start s)\<lparr>buffer := []\<rparr>, [])"
    by (subst read_lines.simps) simp
  ultimately have "read_lines codec ?s =
      ((start s)\<lparr>buffer := []\<rparr>, post_all codec s n (b64_decode codec d))"
    by (subst read_lines.simps) simp
  then show ?thesis by (auto simp: client_connect_def start_def n_def)
qed

theorem reconnect_garbles_first_message_witness:
  "\<exists>s1 data. client_connect True (disconnect (listener\<lparr>buffer := ''NETSIM'' @ [delimiter] @ ''A.''\<rparr>)) = Inr s1
     \<and> session_handle base64_codec (Bytes (wire base64_codec (''A.B'', ''hi''))) s1 =
         Inr (listener, [Unparsed 7 ''A.NETSIM'' data])"
proof -
  let ?s = "disconnect (listener\<lparr>buffer := ''NETSIM'' @ [delimiter] @ ''A.''\<rparr>)"
  have "\<exists>s1 data. client_connect True ?s = Inr s1
     \<and> session_handle base64_codec (Bytes (wire base64_codec (''A.B'', ''hi''))) s1 =
         Inr (s1\<lparr>buffer := []\<rparr>, post_all base64_codec ?s (''A.'' @ preamble) data)"
    by (rule reconnect_garbles_first_message [where a = "''NETSIM''", OF _ _ _ _ base64.wire_codec_axioms])
       (simp_all add: delimiter_def disconnect_def)
  moreover have "client_connect True ?s = Inr s1 \<Longrightarrow> s1\<lparr>buffer := []\<rparr> = listener" for s1
    by (auto simp: client_connect_def disconnect_def listener_def start_def read_callback_all_def
        read_callback_def session_init_def)
  ultimately show ?thesis
    by (fastforce simp: post_all_def disconnect_def preamble_def)
qed

end
