(* ===== verification/Gps.thy ===== *)
theory Gps
  imports Ieee Text
begin

text \<open>
  The GPS output of \<open>netsim_manager\<close> (\<open>write_gps_out\<close>, \<open>src/apps/netsim_manager/manager.cpp\<close>): a
  position becomes the degrees, minutes and ten-thousandths of minutes of a \<open>$GPRMC\<close> sentence, in
  double precision arithmetic.

  The clock, the decimal form of a \<open>double\<close> with one digit after the point (\<open>boost::format\<close>) and the
  NMEA sentence with its checksum (goby) are not part of the repository: \<open>gps_env\<close>.
\<close>

record nav_update =
  nav_modem_tcp_port :: int
  nav_time :: fp
  nav_lat :: fp
  nav_lon :: fp
  nav_depth :: fp
  nav_speed :: fp
  nav_heading :: fp
  nav_initialized :: bool

record clock =
  clk_hours :: int
  clk_minutes :: int
  clk_seconds :: int
  clk_fractional_seconds :: int
  clk_ticks_per_second :: int
  clk_day :: int
  clk_month :: int
  clk_year :: int

record gps_env =
  gps_clock :: clock
  fixed1 :: "fp \<Rightarrow> string"
  nmea_message_cr_nl :: "string list \<Rightarrow> string"

definition minutes_of :: "fp \<Rightarrow> int \<Rightarrow> fp" where
  "minutes_of x degrees = d_mul (d_sub x (d_of_int degrees)) (Fin 60)"

definition split_degrees :: "fp \<Rightarrow> (int \<times> int \<times> int) res" where
  "split_degrees position =
     (let x = fp_abs position
      in res_bind (to_int32 (fp_floor x)) (\<lambda>degrees.
         res_bind (to_int32 (fp_floor (minutes_of x degrees))) (\<lambda>minutes.
         res_bind (to_int32 (fp_floor (d_mul (d_sub (minutes_of x degrees) (d_of_int minutes)) (Fin 10000))))
           (\<lambda>ten_thousandth_minutes. Inr (degrees, minutes, ten_thousandth_minutes)))))"

text \<open>\<open>%02d%02d.%04d\<close> for the latitude, \<open>%03d%02d.%04d\<close> for the longitude.\<close>

definition degrees_field :: "nat \<Rightarrow> int \<times> int \<times> int \<Rightarrow> string" where
  "degrees_field width = (\<lambda>(degrees, minutes, ten_thousandth_minutes).
     pad0 width (dec degrees) @ pad0 2 (dec minutes) @ ''.'' @ pad0 4 (dec ten_thousandth_minutes))"

definition time_field :: "clock \<Rightarrow> string" where
  "time_field c =
     pad0 2 (dec (clk_hours c)) @ pad0 2 (dec (clk_minutes c)) @ pad0 2 (dec (clk_seconds c)) @ ''.''
     @ pad0 6 (dec (clk_fractional_seconds c * 1000000 div clk_ticks_per_second c))"

definition date_field :: "clock \<Rightarrow> string" where
  "date_field c =
     pad0 2 (dec (clk_day c)) @ pad0 2 (dec (clk_month c))
     @ pad0 2 (dec (clk_year c - clk_year c div 100 * 100))"

definition meters_per_second_to_knots :: fp where
  "meters_per_second_to_knots = d_round (194384 / 100000)"

text \<open>The index and the data of the message for the serial port.\<close>

definition write_gps_out :: "gps_env \<Rightarrow> nav_update \<Rightarrow> (int \<times> string) res" where
  "write_gps_out env nav =
     res_bind (split_degrees (nav_lat nav)) (\<lambda>lat.
     res_bind (split_degrees (nav_lon nav)) (\<lambda>lon.
       Inr (nav_modem_tcp_port nav,
            nmea_message_cr_nl env
              [''$GPRMC'', time_field (gps_clock env), ''A'',
               degrees_field 2 lat, if nav_lat nav < Fin 0 then ''S'' else ''N'',
               degrees_field 3 lon, if nav_lon nav < Fin 0 then ''W'' else ''E'',
               fixed1 env (d_mul (nav_speed nav) meters_per_second_to_knots),
               fixed1 env (nav_heading nav), date_field (gps_clock env), ''000.0'', ''E''])))"

lemma d_round_fin:
  assumes "\<bar>rnd 53 1023 x\<bar> < 2 ^ 53"
  shows "d_round x = Fin (rnd 53 1023 x)"
proof -
  have "(2::rat) ^ 53 \<le> 2 powi (1023 + 1)" using powi_mono2 [of "int 53" "1023 + 1"] by simp
  with assms have "rnd 53 1023 x < 2 powi (1023 + 1)" and "- (2 powi (1023 + 1)) < rnd 53 1023 x"
    by linarith+
  then show ?thesis by (auto simp: fin_round_def Let_def)
qed

lemma d_round_exact:
  assumes "representable 53 1023 x" and "\<bar>x\<bar> < 2 ^ 53"
  shows "d_round x = Fin x"
  using d_round_fin [of x] binary64.rnd_exact [OF assms(1)] assms(2) by simp

lemma rnd_error_below:
  assumes "0 \<le> x" and "x < 2 powi k" and "- 1000 \<le> k"
  shows "\<bar>rnd 53 1023 x - x\<bar> \<le> 2 powi (k - 53) / 2"
proof (cases "x = 0")
  case True
  then show ?thesis by simp
next
  case False
  with assms have "ilog2 x < k" by (intro ilog2_less) simp_all
  then have "ulp_exp 53 1023 x \<le> k - 53" using assms(1,3) by (simp add: ulp_exp_def)
  from powi_mono2 [OF this] rnd_error [OF False, of 53 1023] show ?thesis by linarith
qed

lemma representable_minus:
  assumes "representable p emax x"
  shows "representable p emax (- x)"
proof -
  from assms obtain m k where "x = of_int m * 2 powi k" "\<bar>m\<bar> < 2 ^ p" "2 - emax - int p \<le> k"
    unfolding representable_def by blast
  then have "- x = of_int (- m) * 2 powi k \<and> \<bar>- m\<bar> < 2 ^ p \<and> 2 - emax - int p \<le> k" by simp
  then show ?thesis unfolding representable_def by blast
qed

lemma to_int32_floor: "- (2 ^ 31) \<le> \<lfloor>x\<rfloor> \<Longrightarrow> \<lfloor>x\<rfloor> < 2 ^ 31 \<Longrightarrow> to_int32 (fp_floor (Fin x)) = Inr \<lfloor>x\<rfloor>"
  by (simp add: rat_trunc_def)

lemma split_degrees_spec:
  assumes rep: "representable 53 1023 a" and "\<bar>a\<bar> < 2 ^ 31"
  shows "\<exists>d m t. split_degrees (Fin a) = Inr (d, m, t) \<and> d = \<lfloor>\<bar>a\<bar>\<rfloor>
     \<and> 0 \<le> m \<and> m \<le> 59 \<and> 0 \<le> t \<and> t \<le> 9999
     \<and> 60 * \<bar>a\<bar> - 1 / 10000 - 1 / 10 ^ 9 < 60 * of_int d + of_int m + of_int t / 10000
     \<and> 60 * of_int d + of_int m + of_int t / 10000 < 60 * \<bar>a\<bar> + 1 / 10 ^ 9"
proof -
  define x where "x = \<bar>a\<bar>"
  have x: "0 \<le> x" "x < 2 ^ 31" using assms(2) by (simp_all add: x_def)
  have repx: "representable 53 1023 x"
    using rep representable_minus [OF rep] by (simp add: x_def abs_if)
  define d where "d = \<lfloor>x\<rfloor>"
  have d: "0 \<le> d" "d < 2 ^ 31" using x by (simp_all add: d_def floor_less_iff)
  have od: "d_of_int d = Fin (of_int d)" using d d_round_int [of d] by (simp add: fp_of_int_def)
  define f where "f = x - of_int d"
  have f: "0 \<le> f" "f < 1" unfolding f_def d_def by linarith+
  have repf: "representable 53 1023 f"
    unfolding f_def d_def by (rule representable_frac [OF repx x(1)])
  have sub1: "d_sub (Fin x) (d_of_int d) = Fin f"
    using d_round_exact [OF repf] f by (simp add: fp_sub_def od f_def)
  define v where "v = rnd 53 1023 (f * 60)"
  have v: "0 \<le> v" "v < 60"
    using scaled_fraction_below [OF repf f, of 60] binary64.rnd_nonneg [of "f * 60"] f
    by (simp_all add: v_def)
  have mul1: "minutes_of (Fin x) d = Fin v"
    using d_round_fin [of "f * 60"] v by (simp add: minutes_of_def sub1 v_def [symmetric])
  define m where "m = \<lfloor>v\<rfloor>"
  have m: "0 \<le> m" "m \<le> 59" using v by (simp_all add: m_def floor_le_iff)
  have om: "d_of_int m = Fin (of_int m)" using m d_round_int [of m] by (simp add: fp_of_int_def)
  define w where "w = v - of_int m"
  have w: "0 \<le> w" "w < 1" unfolding w_def m_def by linarith+
  have repw: "representable 53 1023 w"
    unfolding w_def m_def
    by (rule representable_frac) (use v(1) rnd_representable [of 53 1023 "f * 60"] in \<open>simp_all add: v_def\<close>)
  have sub2: "d_sub (Fin v) (d_of_int m) = Fin w"
    using d_round_exact [OF repw] w by (simp add: fp_sub_def om w_def)
  define z where "z = rnd 53 1023 (w * 10000)"
  have z: "0 \<le> z" "z < 10000"
    using scaled_fraction_below [OF repw w, of 10000] binary64.rnd_nonneg [of "w * 10000"] w
    by (simp_all add: z_def)
  have mul2: "d_mul (Fin w) (Fin 10000) = Fin z"
    using d_round_fin [of "w * 10000"] z by (simp add: z_def [symmetric])
  define t where "t = \<lfloor>z\<rfloor>"
  have t: "0 \<le> t" "t \<le> 9999" using z by (simp_all add: t_def floor_le_iff)
  have "to_int32 (fp_floor (Fin x)) = Inr d" "to_int32 (fp_floor (Fin v)) = Inr m"
    "to_int32 (fp_floor (Fin z)) = Inr t"
    using d m t unfolding d_def m_def t_def by (intro to_int32_floor; simp)+
  then have split: "split_degrees (Fin a) = Inr (d, m, t)"
    by (simp only: split_degrees_def Let_def fp_abs.simps x_def [symmetric] res_bind_Inr mul1 sub2 mul2)
  have "\<bar>v - f * 60\<bar> \<le> 2 powi (6 - 53) / 2"
    unfolding v_def using f by (intro rnd_error_below) simp_all
  also have "\<dots> \<le> 1 / 10 ^ 12" by (simp add: power_int_def inverse_eq_divide power_divide)
  finally have ev: "\<bar>v - f * 60\<bar> \<le> 1 / 10 ^ 12" .
  have "\<bar>z - w * 10000\<bar> \<le> 2 powi (14 - 53) / 2"
    unfolding z_def using w by (intro rnd_error_below) simp_all
  also have "\<dots> \<le> 1 / 10 ^ 10" by (simp add: power_int_def inverse_eq_divide power_divide)
  finally have ez: "\<bar>z - w * 10000\<bar> \<le> 1 / 10 ^ 10" .
  have tz: "of_int t \<le> z" "z < of_int t + 1" unfolding t_def by linarith+
  have "60 * x - 1 / 10000 - 1 / 10 ^ 9 < 60 * of_int d + of_int m + of_int t / 10000"
    and "60 * of_int d + of_int m + of_int t / 10000 < 60 * x + 1 / 10 ^ 9"
    using abs_le_D1 [OF ev] abs_le_D2 [OF ev] abs_le_D1 [OF ez] abs_le_D2 [OF ez] tz
    unfolding w_def f_def by (simp_all add: field_simps)
  then show ?thesis
    using split d_def m t by (intro exI [of _ d] exI [of _ m] exI [of _ t]) (simp add: x_def)
qed


section \<open>Properties\<close>

text \<open>
  C27: Every finite position a \<open>double\<close> holds below \<open>10 ^ width\<close> degrees is written without undefined
  behaviour and in the fixed format of the sentence: the double precision roundings never carry the
  minutes to 60 or the ten-thousandths to 10000, so the field has \<open>width + 7\<close> characters, and it
  stands for the position to within a ten-thousandth of a minute (plus \<open>10 ^ -9\<close> minutes of rounding).
\<close>

theorem gps_field_correct:
  assumes "representable 53 1023 a" and "\<bar>a\<bar> < 10 ^ width" and "0 < width" and "width \<le> 9"
  shows "\<exists>d m t. split_degrees (Fin a) = Inr (d, m, t)
     \<and> length (degrees_field width (d, m, t)) = width + 7
     \<and> d = \<lfloor>\<bar>a\<bar>\<rfloor> \<and> 0 \<le> m \<and> m \<le> 59 \<and> 0 \<le> t \<and> t \<le> 9999
     \<and> 60 * \<bar>a\<bar> - 1 / 10000 - 1 / 10 ^ 9 < 60 * of_int d + of_int m + of_int t / 10000
     \<and> 60 * of_int d + of_int m + of_int t / 10000 < 60 * \<bar>a\<bar> + 1 / 10 ^ 9"
proof -
  have "(10::rat) ^ width \<le> 10 ^ 9" using assms(4) by (rule power_increasing) simp
  with assms(2) have a: "\<bar>a\<bar> < 2 ^ 31" by simp
  from split_degrees_spec [OF assms(1) a] obtain d m t where
    s: "split_degrees (Fin a) = Inr (d, m, t)" "d = \<lfloor>\<bar>a\<bar>\<rfloor>" "0 \<le> m" "m \<le> 59" "0 \<le> t" "t \<le> 9999"
     "60 * \<bar>a\<bar> - 1 / 10000 - 1 / 10 ^ 9 < 60 * of_int d + of_int m + of_int t / 10000"
     "60 * of_int d + of_int m + of_int t / 10000 < 60 * \<bar>a\<bar> + 1 / 10 ^ 9" by blast
  have "of_int d < (of_int (10 ^ width) :: rat)"
    using assms(2) of_int_floor_le [of "\<bar>a\<bar>"] unfolding s(2) by (simp only: of_int_power of_int_numeral)
  then have "d < 10 ^ width" by (simp only: of_int_less_iff)
  moreover have "0 \<le> d" using s(2) by simp
  ultimately have "length (pad0 width (dec d)) = width" using assms(3) by (intro length_pad_dec)
  moreover have "length (pad0 2 (dec m)) = 2" "length (pad0 4 (dec t)) = 4"
    using s(3-6) by (simp_all add: length_pad_dec)
  ultimately have "length (degrees_field width (d, m, t)) = width + 7"
    by (simp add: degrees_field_def)
  with s show ?thesis by (intro exI [of _ d] exI [of _ m] exI [of _ t]) (simp only: simp_thms)
qed

theorem gps_field_correct_witness:
  "\<exists>m t. split_degrees (Fin (- (85 / 2))) = Inr (42, m, t)
     \<and> 60 * (85 / 2) - 1 / 10000 - 1 / 10 ^ 9 < 60 * 42 + of_int m + of_int t / (10000 :: rat)"
proof -
  have "representable 53 1023 (- (85 / 2))"
    unfolding representable_def by (intro exI [of _ "- 85"] exI [of _ "- 1"]) (simp add: power_int_minus)
  from gps_field_correct [OF this, of 2] obtain d m t where
    "split_degrees (Fin (- (85 / 2))) = Inr (d, m, t)" and d: "d = \<lfloor>\<bar>- (85 / 2) :: rat\<bar>\<rfloor>"
    and "60 * \<bar>- (85 / 2)\<bar> - 1 / 10000 - 1 / 10 ^ 9 < 60 * of_int d + of_int m + of_int t / (10000 :: rat)"
    by auto
  moreover have "d = 42" unfolding d by (simp add: floor_eq_iff)
  ultimately show ?thesis by auto
qed

end
