(* ===== verification/Messages.thy ===== *)
theory Messages
  imports Ieee
begin

text \<open>
  The messages between the simulator's processes (\<open>src/lib/messages/netsim.proto\<close>), with the fields the
  modelled programs read or write. A \<open>oneof\<close> of a string and an integer id is the string, empty
  where the id is set, which is what the accessors the programs use return.
\<close>

record impulse_request =
  ireq_source :: string
  ireq_receiver :: string
  ireq_request_id :: int
  ireq_request_time :: fp

record raytrace =
  amplitude :: fp
  surface_bounces :: int
  bottom_bounces :: int
  element_delays :: "fp list"

record impulse_response =
  irsp_source :: string
  irsp_receiver :: string
  raytraces :: "raytrace list"

record objfunc_request =
  oreq_contact :: string
  oreq_requestor :: string
  oreq_receivers :: "string list"
  oreq_request_id :: int
  oreq_request_time :: fp

record objfunc_receiver =
  orsp_node :: string
  orsp_mpp :: fp

record objfunc_response =
  orsp_contact :: string
  orsp_receivers :: "objfunc_receiver list"

text \<open>The request for a sound speed profile or ray trace, by the vehicle it is for.\<close>

record bellhop_request =
  breq_ownship :: string
  breq_payload :: string

end
