(* ===== verification/Manager.thy ===== *)
theory Manager
  imports Gps Messages
begin

text \<open>
  The process that stands between the simulated vehicles and the environments (\<open>NetSimManager\<close>,
  \<open>src/apps/netsim_manager/manager.cpp\<close>): it checks the positions a vehicle reports over TCP against
  its configuration, passes them on to the environment and the GPS output, and routes the requests of
  the other processes to the environment of their source.

  \<open>goby::util::as<int>\<close>, which turns the name of a source into a number, is the argument \<open>as_int\<close>.
\<close>

section \<open>Configuration and state\<close>

record sim_environment_pair =
  sim_modem_tcp_port :: int
  endpoint_ip_address :: string
  sim_environment_id :: int

record environment_bounds =
  bound_environment_id :: int
  lat_min :: fp
  lon_min :: fp
  lat_max :: fp
  lon_max :: fp
  depth_min :: fp
  depth_max :: fp

record manager_config =
  sim_env_pairs :: "sim_environment_pair list"
  cfg_env_bounds :: "environment_bounds list"

record manager =
  env_cfg :: "int \<rightharpoonup> sim_environment_pair"
  env_bounds :: "int \<rightharpoonup> environment_bounds"

fun add_bounds :: "environment_bounds list \<Rightarrow> manager \<Rightarrow> manager res" where
  "add_bounds [] s = Inr s"
| "add_bounds (b # bs) s =
     (if env_bounds s (bound_environment_id b) \<noteq> None then Inl Die
      else add_bounds bs (s\<lparr>env_bounds := (env_bounds s)(bound_environment_id b \<mapsto> b)\<rparr>))"

fun add_sim_envs :: "sim_environment_pair list \<Rightarrow> manager \<Rightarrow> manager res" where
  "add_sim_envs [] s = Inr s"
| "add_sim_envs (e # es) s =
     (if env_cfg s (sim_modem_tcp_port e) \<noteq> None then Inl Die
      else if env_bounds s (sim_environment_id e) = None then Inl Die
      else add_sim_envs es (s\<lparr>env_cfg := (env_cfg s)(sim_modem_tcp_port e \<mapsto> e)\<rparr>))"

definition process_configuration :: "manager_config \<Rightarrow> manager res" where
  "process_configuration cfg =
     res_bind (add_bounds (cfg_env_bounds cfg) \<lparr>env_cfg = Map.empty, env_bounds = Map.empty\<rparr>)
       (add_sim_envs (sim_env_pairs cfg))"

section \<open>Requests of the vehicles\<close>

datatype status =
    UPDATE_ACCEPTED | UPDATE_FAILED_INVALID_MODEM_TCP_PORT | UPDATE_FAILED_INVALID_SOURCE_ADDRESS
  | UPDATE_FAILED_OUT_OF_DEFINED_REGION

type_synonym endpoint = "string \<times> nat"

text \<open>
  The statistics of a modem are a message of another repository; here is what the code reads of it.
  \<open>mse_scaled\<close>: the error of the equaliser, brought from the interval from -15 to 0 to that from 0 to 255 in
  the type that field has.
\<close>

record mm_statistics =
  receive_good :: bool
  mse_scaled :: fp
  number_bad_frames :: int
  number_frames :: int

record receive_stats =
  stat_modem_tcp_port :: int
  stat_tx_modem_tcp_port :: int
  packet_success :: bool
  mm_stats :: "mm_statistics option"

record manager_request =
  request_id :: int
  request_nav :: "nav_update list"
  request_stats :: "receive_stats list"

record manager_response =
  response_request_id :: int
  response_status :: status

datatype manager_output =
    Pub_Env_Nav_Update int nav_update
  | Pub_Gps_Line_Out int string
  | Pub_Receive_Stats receive_stats
  | Tcp_Write manager_response endpoint
  | Pub_Env_Impulse_Req int impulse_request
  | Pub_Env_Performance_Req int objfunc_request
  | Pub_Env_Bellhop_Req int bellhop_request
  | Pub_Configuration manager_config

definition out_of_bounds :: "environment_bounds \<Rightarrow> nav_update \<Rightarrow> bool" where
  "out_of_bounds b nav \<longleftrightarrow>
     nav_lat nav < lat_min b \<or> lat_max b < nav_lat nav
     \<or> nav_lon nav < lon_min b \<or> lon_max b < nav_lon nav
     \<or> nav_depth nav < depth_min b \<or> depth_max b < nav_depth nav"

text \<open>The body of the loop over the positions: a status other than accepted leaves the loop.\<close>

definition check_nav :: "manager \<Rightarrow> endpoint \<Rightarrow> nav_update \<Rightarrow> (status \<times> int) res" where
  "check_nav s ep nav =
     (case env_cfg s (nav_modem_tcp_port nav) of
        None \<Rightarrow> Inr (UPDATE_FAILED_INVALID_MODEM_TCP_PORT, 0)
      | Some e \<Rightarrow>
          if fst ep \<noteq> endpoint_ip_address e then Inr (UPDATE_FAILED_INVALID_SOURCE_ADDRESS, 0)
          else
            (case env_bounds s (sim_environment_id e) of
               None \<Rightarrow> Inl Out_Of_Range
             | Some b \<Rightarrow>
                 if out_of_bounds b nav then Inr (UPDATE_FAILED_OUT_OF_DEFINED_REGION, 0)
                 else Inr (UPDATE_ACCEPTED, sim_environment_id e)))"

fun process_navs ::
    "gps_env \<Rightarrow> manager \<Rightarrow> endpoint \<Rightarrow> nav_update list \<Rightarrow> (status \<times> manager_output list) res" where
  "process_navs env s ep [] = Inr (UPDATE_ACCEPTED, [])"
| "process_navs env s ep (nav # navs) =
     res_bind (check_nav s ep nav) (\<lambda>(st, i).
       if st \<noteq> UPDATE_ACCEPTED then Inr (st, [])
       else
         res_bind (if nav_initialized nav
                   then res_bind (write_gps_out env nav)
                          (\<lambda>(index, data). Inr [Pub_Env_Nav_Update i nav, Pub_Gps_Line_Out index data])
                   else Inr [])
           (\<lambda>out. res_bind (process_navs env s ep navs) (\<lambda>(st', out'). Inr (st', out @ out'))))"

definition process_request ::
    "gps_env \<Rightarrow> manager \<Rightarrow> manager_request \<Rightarrow> endpoint \<Rightarrow> manager_output list res" where
  "process_request env s req ep =
     res_bind (process_navs env s ep (request_nav req)) (\<lambda>(st, out).
       Inr (out @ map Pub_Receive_Stats (request_stats req)
            @ [Tcp_Write \<lparr>response_request_id = request_id req, response_status = st\<rparr> ep]))"

section \<open>Requests of the other processes\<close>

definition handle_impulse_request ::
    "(string \<Rightarrow> int) \<Rightarrow> manager \<Rightarrow> impulse_request \<Rightarrow> manager_output list" where
  "handle_impulse_request as_int s req =
     (case env_cfg s (as_int (ireq_source req)) of
        None \<Rightarrow> [] | Some e \<Rightarrow> [Pub_Env_Impulse_Req (sim_environment_id e) req])"

definition handle_performance_request ::
    "(string \<Rightarrow> int) \<Rightarrow> manager \<Rightarrow> objfunc_request \<Rightarrow> manager_output list" where
  "handle_performance_request as_int s req =
     (case env_cfg s (as_int (oreq_contact req)) of
        None \<Rightarrow> [] | Some e \<Rightarrow> [Pub_Env_Performance_Req (sim_environment_id e) req])"

definition handle_bellhop_request ::
    "(string \<Rightarrow> int) \<Rightarrow> manager \<Rightarrow> bellhop_request \<Rightarrow> manager_output list" where
  "handle_bellhop_request as_int s req =
     (case env_cfg s (as_int (breq_ownship req)) of
        None \<Rightarrow> [] | Some e \<Rightarrow> [Pub_Env_Bellhop_Req (sim_environment_id e) req])"

datatype manager_event =
    Request manager_request endpoint
  | Impulse_Request impulse_request
  | Performance_Request objfunc_request
  | Bellhop_Request bellhop_request
  | Config_Request

text \<open>The subscriptions of the constructor. Nothing changes the state after the configuration.\<close>

fun manager_handle ::
    "manager_config \<Rightarrow> gps_env \<Rightarrow> (string \<Rightarrow> int) \<Rightarrow> (manager_event, manager, manager_output) handler" where
  "manager_handle cfg env as_int (Request req ep) s =
     res_bind (process_request env s req ep) (\<lambda>out. Inr (s, out))"
| "manager_handle cfg env as_int (Impulse_Request req) s = Inr (s, handle_impulse_request as_int s req)"
| "manager_handle cfg env as_int (Performance_Request req) s =
     Inr (s, handle_performance_request as_int s req)"
| "manager_handle cfg env as_int (Bellhop_Request req) s = Inr (s, handle_bellhop_request as_int s req)"
| "manager_handle cfg env as_int Config_Request s = Inr (s, [Pub_Configuration cfg])"

section \<open>The configuration\<close>

lemma add_bounds_eq:
  "add_bounds bs s =
     (if distinct (map bound_environment_id bs)
         \<and> (\<forall>b \<in> set bs. env_bounds s (bound_environment_id b) = None)
      then Inr (s\<lparr>env_bounds := env_bounds s ++ map_of (map (\<lambda>b. (bound_environment_id b, b)) bs)\<rparr>)
      else Inl Die)"
proof (induction bs arbitrary: s)
  case Nil
  then show ?case by simp
next
  case (Cons b bs)
  show ?case
  proof (cases "env_bounds s (bound_environment_id b) = None")
    case True
    let ?s = "s\<lparr>env_bounds := (env_bounds s)(bound_environment_id b \<mapsto> b)\<rparr>"
    have first: "add_bounds (b # bs) s = add_bounds bs ?s" using True by simp
    show ?thesis
    proof (cases "bound_environment_id b \<in> bound_environment_id ` set bs")
      case dup: True
      then have "\<not> (\<forall>b \<in> set bs. env_bounds ?s (bound_environment_id b) = None)" by auto
      with dup show ?thesis unfolding first Cons.IH by auto
    next
      case False
      define m where "m = map_of (map (\<lambda>b. (bound_environment_id b, b)) (b # bs))"
      have eq: "env_bounds ?s ++ map_of (map (\<lambda>b. (bound_environment_id b, b)) bs) = env_bounds s ++ m"
        using False by (simp add: m_def upd_map_add_left image_image)
      have eq': "(\<forall>c \<in> set bs. env_bounds ?s (bound_environment_id c) = None)
          = (\<forall>c \<in> set bs. env_bounds s (bound_environment_id c) = None)"
        using False by (intro ball_cong) (auto simp: image_iff)
      show ?thesis unfolding first Cons.IH eq eq' m_def [symmetric] using False True by simp
    qed
  qed simp
qed

lemma add_sim_envs_eq:
  "add_sim_envs es s =
     (if distinct (map sim_modem_tcp_port es)
         \<and> (\<forall>e \<in> set es. env_cfg s (sim_modem_tcp_port e) = None
              \<and> env_bounds s (sim_environment_id e) \<noteq> None)
      then Inr (s\<lparr>env_cfg := env_cfg s ++ map_of (map (\<lambda>e. (sim_modem_tcp_port e, e)) es)\<rparr>)
      else Inl Die)"
proof (induction es arbitrary: s)
  case Nil
  then show ?case by simp
next
  case (Cons e es)
  show ?case
  proof (cases "env_cfg s (sim_modem_tcp_port e) = None \<and> env_bounds s (sim_environment_id e) \<noteq> None")
    case True
    let ?s = "s\<lparr>env_cfg := (env_cfg s)(sim_modem_tcp_port e \<mapsto> e)\<rparr>"
    have first: "add_sim_envs (e # es) s = add_sim_envs es ?s" using True by auto
    show ?thesis
    proof (cases "sim_modem_tcp_port e \<in> sim_modem_tcp_port ` set es")
      case dup: True
      then have "\<not> (\<forall>c \<in> set es. env_cfg ?s (sim_modem_tcp_port c) = None
          \<and> env_bounds ?s (sim_environment_id c) \<noteq> None)" by auto
      with dup show ?thesis unfolding first Cons.IH by auto
    next
      case False
      define m where "m = map_of (map (\<lambda>e. (sim_modem_tcp_port e, e)) (e # es))"
      have eq: "env_cfg ?s ++ map_of (map (\<lambda>e. (sim_modem_tcp_port e, e)) es) = env_cfg s ++ m"
        using False by (simp add: m_def upd_map_add_left image_image)
      have eq': "(\<forall>c \<in> set es. env_cfg ?s (sim_modem_tcp_port c) = None
            \<and> env_bounds ?s (sim_environment_id c) \<noteq> None)
          = (\<forall>c \<in> set es. env_cfg s (sim_modem_tcp_port c) = None
            \<and> env_bounds s (sim_environment_id c) \<noteq> None)"
        using False by (intro ball_cong) (auto simp: image_iff)
      show ?thesis unfolding first Cons.IH eq eq' m_def [symmetric] using False True by simp
    qed
  next
    case False
    then show ?thesis by auto
  qed
qed

text \<open>What the configuration establishes.\<close>

definition manager_inv :: "manager \<Rightarrow> bool" where
  "manager_inv s \<longleftrightarrow>
     (\<forall>p e. env_cfg s p = Some e \<longrightarrow>
        sim_modem_tcp_port e = p \<and> env_bounds s (sim_environment_id e) \<noteq> None)"

lemma process_configuration_eq:
  "process_configuration cfg =
     (if distinct (map bound_environment_id (cfg_env_bounds cfg))
         \<and> distinct (map sim_modem_tcp_port (sim_env_pairs cfg))
         \<and> sim_environment_id ` set (sim_env_pairs cfg) \<subseteq> bound_environment_id ` set (cfg_env_bounds cfg)
      then Inr \<lparr>env_cfg = map_of (map (\<lambda>e. (sim_modem_tcp_port e, e)) (sim_env_pairs cfg)),
                env_bounds = map_of (map (\<lambda>b. (bound_environment_id b, b)) (cfg_env_bounds cfg))\<rparr>
      else Inl Die)"
proof -
  have "(map_of (map (\<lambda>b. (bound_environment_id b, b)) bs) i \<noteq> None) = (i \<in> bound_environment_id ` set bs)"
    for bs :: "environment_bounds list" and i by (auto simp: map_of_eq_None_iff image_image)
  then have "(\<forall>e \<in> set es. \<exists>y. map_of (map (\<lambda>b. (bound_environment_id b, b)) bs) (sim_environment_id e) = Some y)
      = (sim_environment_id ` set es \<subseteq> bound_environment_id ` set bs)"
    for es :: "sim_environment_pair list" and bs :: "environment_bounds list"
    by auto
  then show ?thesis by (auto simp: process_configuration_def add_bounds_eq add_sim_envs_eq)
qed

lemma process_configuration_inv: "process_configuration cfg = Inr s \<Longrightarrow> manager_inv s"
  unfolding process_configuration_eq manager_inv_def
  by (clarsimp simp: map_of_eq_None_iff image_image simp del: not_None_eq split: if_splits
      dest!: map_of_SomeD) (use image_iff in blast)

section \<open>Checking positions\<close>

text \<open>The decision on a position, for a configured manager: a failure, or the environment.\<close>

definition verdict :: "manager \<Rightarrow> endpoint \<Rightarrow> nav_update \<Rightarrow> status" where
  "verdict s ep nav =
     (case env_cfg s (nav_modem_tcp_port nav) of
        None \<Rightarrow> UPDATE_FAILED_INVALID_MODEM_TCP_PORT
      | Some e \<Rightarrow>
          if fst ep \<noteq> endpoint_ip_address e then UPDATE_FAILED_INVALID_SOURCE_ADDRESS
          else if out_of_bounds (the (env_bounds s (sim_environment_id e))) nav
          then UPDATE_FAILED_OUT_OF_DEFINED_REGION else UPDATE_ACCEPTED)"

definition environment_of :: "manager \<Rightarrow> nav_update \<Rightarrow> int" where
  "environment_of s nav = sim_environment_id (the (env_cfg s (nav_modem_tcp_port nav)))"

lemma check_nav_verdict:
  assumes "manager_inv s"
  shows "\<exists>i. check_nav s ep nav = Inr (verdict s ep nav, i)
     \<and> (verdict s ep nav = UPDATE_ACCEPTED \<longrightarrow> i = environment_of s nav)"
proof (cases "env_cfg s (nav_modem_tcp_port nav)")
  case None
  then show ?thesis by (simp add: check_nav_def verdict_def)
next
  case (Some e)
  with assms obtain b where "env_bounds s (sim_environment_id e) = Some b"
    unfolding manager_inv_def by blast
  with Some show ?thesis by (simp add: check_nav_def verdict_def environment_of_def)
qed

text \<open>A position whose GPS sentence is defined: finite numbers a \<open>double\<close> holds.\<close>

definition writable :: "nav_update \<Rightarrow> bool" where
  "writable nav \<longleftrightarrow>
     (\<exists>a b. nav_lat nav = Fin a \<and> nav_lon nav = Fin b \<and> representable 53 1023 a
        \<and> representable 53 1023 b \<and> \<bar>a\<bar> < 2 ^ 31 \<and> \<bar>b\<bar> < 2 ^ 31)"

lemma write_gps_out_total:
  assumes "writable nav" shows "\<exists>data. write_gps_out env nav = Inr (nav_modem_tcp_port nav, data)"
proof -
  from assms obtain a b where "nav_lat nav = Fin a" "nav_lon nav = Fin b"
    "representable 53 1023 a" "representable 53 1023 b" "\<bar>a\<bar> < 2 ^ 31" "\<bar>b\<bar> < 2 ^ 31"
    by (auto simp: writable_def)
  with split_degrees_spec [of a] split_degrees_spec [of b] show ?thesis
    by (auto simp: write_gps_out_def)
qed

definition updates :: "gps_env \<Rightarrow> manager \<Rightarrow> nav_update \<Rightarrow> manager_output list" where
  "updates env s nav =
     (if nav_initialized nav
      then [Pub_Env_Nav_Update (environment_of s nav) nav,
            (case write_gps_out env nav of Inl f \<Rightarrow> Pub_Gps_Line_Out 0 '''' | Inr (i, d) \<Rightarrow> Pub_Gps_Line_Out i d)]
      else [])"

lemma process_navs_eq:
  assumes "manager_inv s" and "\<forall>nav \<in> set navs. nav_initialized nav \<longrightarrow> writable nav"
  shows "process_navs env s ep navs =
     Inr (case dropWhile (\<lambda>nav. verdict s ep nav = UPDATE_ACCEPTED) navs of
            [] \<Rightarrow> UPDATE_ACCEPTED | nav # _ \<Rightarrow> verdict s ep nav,
          concat (map (updates env s) (takeWhile (\<lambda>nav. verdict s ep nav = UPDATE_ACCEPTED) navs)))"
  using assms(2)
proof (induction navs)
  case Nil
  then show ?case by simp
next
  case (Cons nav navs)
  from check_nav_verdict [OF assms(1), of ep nav] obtain i
    where c: "check_nav s ep nav = Inr (verdict s ep nav, i)"
      and i: "verdict s ep nav = UPDATE_ACCEPTED \<longrightarrow> i = environment_of s nav" by blast
  show ?case
  proof (cases "verdict s ep nav = UPDATE_ACCEPTED")
    case False
    with c show ?thesis by simp
  next
    case True
    have "(if nav_initialized nav
           then res_bind (write_gps_out env nav)
                  (\<lambda>(index, data). Inr [Pub_Env_Nav_Update i nav, Pub_Gps_Line_Out index data])
           else Inr []) = Inr (updates env s nav)"
      using Cons.prems write_gps_out_total [of nav env] True i by (auto simp: updates_def)
    with True c Cons show ?thesis by simp
  qed
qed

fun admissible :: "manager_event \<Rightarrow> bool" where
  "admissible (Request req ep) = (\<forall>nav \<in> set (request_nav req). nav_initialized nav \<longrightarrow> writable nav)"
| "admissible _ = True"

interpretation manager: total_component "manager_handle cfg env as_int" admissible manager_inv
  for cfg env as_int
proof unfold_locales
  fix ev s s' out
  assume "manager_inv s" "manager_handle cfg env as_int ev s = Inr (s', out)"
  then show "manager_inv s'" by (cases ev) (auto simp: res_bind_eq_Inr)
next
  fix ev s
  assume "admissible ev" "manager_inv s"
  then show "\<exists>s' out. manager_handle cfg env as_int ev s = Inr (s', out)"
    by (cases ev) (simp_all add: process_request_def process_navs_eq)
qed

text \<open>What is published as a position has passed the checks.\<close>

lemma process_navs_checked:
  "process_navs env s ep navs = Inr (st, outs) \<Longrightarrow> Pub_Env_Nav_Update i nav \<in> set outs \<Longrightarrow>
     \<exists>e b. nav \<in> set navs \<and> env_cfg s (nav_modem_tcp_port nav) = Some e
       \<and> endpoint_ip_address e = fst ep \<and> i = sim_environment_id e
       \<and> env_bounds s i = Some b \<and> \<not> out_of_bounds b nav"
proof (induction navs arbitrary: st outs)
  case Nil
  then show ?case by simp
next
  case (Cons n navs)
  then show ?case
    by (fastforce simp: res_bind_eq_Inr check_nav_def split: if_splits option.splits)
qed

lemma published_checked:
  assumes "process_request env s req ep = Inr out" and "Pub_Env_Nav_Update i nav \<in> set out"
  shows "\<exists>e b. nav \<in> set (request_nav req) \<and> env_cfg s (nav_modem_tcp_port nav) = Some e
     \<and> endpoint_ip_address e = fst ep \<and> i = sim_environment_id e
     \<and> env_bounds s i = Some b \<and> \<not> out_of_bounds b nav"
  using assms by (fastforce simp: process_request_def res_bind_eq_Inr dest: process_navs_checked)

lemma process_navs_configuration:
  "process_navs env s ep navs = Inr (st, outs) \<Longrightarrow> Pub_Configuration c \<notin> set outs"
  by (induction navs arbitrary: st outs) (fastforce simp: res_bind_eq_Inr split: if_splits)+

text \<open>The state of a manager never changes.\<close>

lemma manager_handle_state: "manager_handle cfg env as_int ev s = Inr (s', out) \<Longrightarrow> s' = s"
  by (cases ev) (auto simp: res_bind_eq_Inr)

text \<open>What a manager publishes, and which event it comes from.\<close>

lemma run_manager_published:
  "run (manager_handle cfg env as_int) evs s = Inr (s', out) \<Longrightarrow> x \<in> set out
    \<Longrightarrow> \<exists>ev pubs. ev \<in> set evs \<and> manager_handle cfg env as_int ev s = Inr (s, pubs) \<and> x \<in> set pubs"
proof (induction evs arbitrary: out)
  case Nil
  then show ?case by simp
next
  case (Cons ev evs)
  then obtain s1 out1 out2 where h: "manager_handle cfg env as_int ev s = Inr (s1, out1)"
    and r: "run (manager_handle cfg env as_int) evs s1 = Inr (s', out2)" and out: "out = out1 @ out2"
    by (auto simp only: run_Cons_Inr)
  from manager_handle_state [OF h] have s1: "s1 = s" .
  show ?case
  proof (cases "x \<in> set out1")
    case True
    with h s1 show ?thesis by auto
  next
    case False
    with Cons.IH [of out2] Cons.prems(2) r s1 out show ?thesis by auto
  qed
qed

section \<open>Properties\<close>

definition sim1 :: sim_environment_pair where
  "sim1 = \<lparr>sim_modem_tcp_port = 62000, endpoint_ip_address = ''127.0.0.1'', sim_environment_id = 1\<rparr>"

definition bounds1 :: environment_bounds where
  "bounds1 = \<lparr>bound_environment_id = 1, lat_min = Fin 41, lon_min = Fin (- 71), lat_max = Fin 43,
              lon_max = Fin (- 70), depth_min = Fin 0, depth_max = Fin 100\<rparr>"

definition cfg1 :: manager_config where
  "cfg1 = \<lparr>sim_env_pairs = [sim1], cfg_env_bounds = [bounds1]\<rparr>"

definition manager1 :: manager where
  "manager1 = \<lparr>env_cfg = [62000 \<mapsto> sim1], env_bounds = [1 \<mapsto> bounds1]\<rparr>"

definition nav1 :: "fp \<Rightarrow> nav_update" where
  "nav1 lat = \<lparr>nav_modem_tcp_port = 62000, nav_time = Fin 0, nav_lat = lat, nav_lon = Fin (- 70),
               nav_depth = Fin 10, nav_speed = Fin 0, nav_heading = Fin 0, nav_initialized = True\<rparr>"

definition gps1 :: gps_env where
  "gps1 = \<lparr>gps_clock = \<lparr>clk_hours = 1, clk_minutes = 2, clk_seconds = 3, clk_fractional_seconds = 0,
             clk_ticks_per_second = 1000000, clk_day = 1, clk_month = 2, clk_year = 2020\<rparr>,
           fixed1 = (\<lambda>_. ''0.0''), nmea_message_cr_nl = concat\<rparr>"

lemma process_cfg1: "process_configuration cfg1 = Inr manager1"
  by (simp add: process_configuration_def cfg1_def manager1_def sim1_def bounds1_def)

lemma manager1_inv: "manager_inv manager1"
  using process_cfg1 by (rule process_configuration_inv)

lemma writable_nav1: "writable (nav1 (Fin 42))"
  using representable_int [of 42 53 1023] representable_int [of "- 70" 53 1023]
  by (simp add: writable_def nav1_def)

text \<open>
  C28: The start-up accepts exactly the configurations in which no environment has two bounds, no modem
  port occurs twice and every vehicle's environment has bounds; it then holds exactly the configured
  entries, and for any other configuration the process ends.
\<close>

theorem configuration_validated:
  "process_configuration cfg =
     (if distinct (map bound_environment_id (cfg_env_bounds cfg))
         \<and> distinct (map sim_modem_tcp_port (sim_env_pairs cfg))
         \<and> sim_environment_id ` set (sim_env_pairs cfg) \<subseteq> bound_environment_id ` set (cfg_env_bounds cfg)
      then Inr \<lparr>env_cfg = map_of (map (\<lambda>e. (sim_modem_tcp_port e, e)) (sim_env_pairs cfg)),
                env_bounds = map_of (map (\<lambda>b. (bound_environment_id b, b)) (cfg_env_bounds cfg))\<rparr>
      else Inl Die)"
  by (rule process_configuration_eq)

text \<open>
  C29: After an accepted configuration the manager never faults, whatever requests arrive, as long as
  every complete position in them has a finite latitude and longitude below \<open>2 ^ 31\<close> degrees; in
  particular the lookup of the bounds never throws. Its tables never change.
\<close>

theorem manager_never_faults:
  assumes "process_configuration cfg = Inr s" and "list_all admissible evs"
  shows "\<exists>s' out. run (manager_handle cfg env as_int) evs s = Inr (s', out) \<and> manager_inv s'"
  by (rule manager.run_total [OF assms(2) process_configuration_inv [OF assms(1)]])

theorem manager_never_faults_witness:
  "\<exists>s' out. run (manager_handle cfg1 gps1 (\<lambda>_. 62000))
       [Request \<lparr>request_id = 4, request_nav = [nav1 (Fin 42)], request_stats = []\<rparr> (''127.0.0.1'', 5),
        Config_Request] manager1 = Inr (s', out) \<and> manager_inv s'"
  by (rule manager_never_faults [OF process_cfg1]) (simp add: writable_nav1)

text \<open>
  C30: A request is answered once, with its id. The positions up to the first one that fails a check are
  passed on, each to the environment of its modem and to the GPS output, and none after it; the
  statistics are always published; the status is that of the first failure, or accepted if every
  position passes.
\<close>

theorem request_processed_up_to_first_failure:
  fixes ep :: endpoint
  assumes "manager_inv s" and "\<forall>nav \<in> set (request_nav req). nav_initialized nav \<longrightarrow> writable nav"
  defines "good \<equiv> takeWhile (\<lambda>nav. verdict s ep nav = UPDATE_ACCEPTED) (request_nav req)"
    and "rest \<equiv> dropWhile (\<lambda>nav. verdict s ep nav = UPDATE_ACCEPTED) (request_nav req)"
  shows "process_request env s req ep =
     Inr (concat (map (updates env s) good) @ map Pub_Receive_Stats (request_stats req)
       @ [Tcp_Write \<lparr>response_request_id = request_id req,
                     response_status = (case rest of [] \<Rightarrow> UPDATE_ACCEPTED | nav # _ \<Rightarrow> verdict s ep nav)\<rparr> ep])"
  using assms(1,2) by (simp add: process_request_def process_navs_eq good_def rest_def)

theorem request_processed_up_to_first_failure_witness:
  "\<exists>out. process_request gps1 manager1
       \<lparr>request_id = 4, request_nav = [nav1 (Fin 42), nav1 (Fin 42)\<lparr>nav_modem_tcp_port := 1\<rparr>],
        request_stats = []\<rparr> (''127.0.0.1'', 5)
     = Inr (out @ [Tcp_Write \<lparr>response_request_id = 4,
              response_status = UPDATE_FAILED_INVALID_MODEM_TCP_PORT\<rparr> (''127.0.0.1'', 5)])
     \<and> Pub_Env_Nav_Update 1 (nav1 (Fin 42)) \<in> set out"
proof -
  let ?r = "\<lparr>request_id = 4, request_nav = [nav1 (Fin 42), nav1 (Fin 42)\<lparr>nav_modem_tcp_port := 1\<rparr>],
      request_stats = []\<rparr>"
  have "writable (nav1 (Fin 42)\<lparr>nav_modem_tcp_port := 1\<rparr>)" using writable_nav1 by (simp add: writable_def)
  then have "\<forall>nav \<in> set (request_nav ?r). nav_initialized nav \<longrightarrow> writable nav" using writable_nav1 by simp
  from request_processed_up_to_first_failure [OF manager1_inv this, of gps1 "(''127.0.0.1'', 5)"]
  show ?thesis
    by (simp add: verdict_def manager1_def sim1_def bounds1_def nav1_def out_of_bounds_def updates_def
        environment_of_def)
qed

text \<open>
  A latitude that is not a number passes the check against the bounds, because every comparison with
  it is false: the position is accepted, and converting it for the GPS output is undefined behaviour.
\<close>

theorem nan_position_accepted:
  assumes "env_cfg s (nav_modem_tcp_port nav) = Some e" and "fst ep = endpoint_ip_address e"
    and "env_bounds s (sim_environment_id e) = Some b" and "nav_lat nav = NaN" and "nav_initialized nav"
    and "lon_min b \<le> nav_lon nav" "nav_lon nav \<le> lon_max b"
    and "depth_min b \<le> nav_depth nav" "nav_depth nav \<le> depth_max b"
  shows "check_nav s ep nav = Inr (UPDATE_ACCEPTED, sim_environment_id e)
     \<and> process_request env s \<lparr>request_id = r, request_nav = [nav], request_stats = []\<rparr> ep = Inl Undefined_Behaviour"
proof -
  have "\<not> nav_lat nav < x" "\<not> x < nav_lat nav" for x using assms(4) by (cases x; simp)+
  moreover have "\<not> nav_lon nav < lon_min b" "\<not> lon_max b < nav_lon nav"
    "\<not> nav_depth nav < depth_min b" "\<not> depth_max b < nav_depth nav"
    using assms(6-9) by (simp_all add: fp_le_not_less)
  ultimately have "\<not> out_of_bounds b nav" by (simp add: out_of_bounds_def)
  with assms(1-3) have c: "check_nav s ep nav = Inr (UPDATE_ACCEPTED, sim_environment_id e)"
    by (simp add: check_nav_def)
  moreover have "write_gps_out env nav = Inl Undefined_Behaviour"
    using assms(4) by (simp add: write_gps_out_def split_degrees_def)
  ultimately show ?thesis using assms(5) by (simp add: process_request_def)
qed

theorem nan_position_accepted_witness:
  "process_request gps1 manager1 \<lparr>request_id = 4, request_nav = [nav1 NaN], request_stats = []\<rparr>
     (''127.0.0.1'', 5) = Inl Undefined_Behaviour"
  using nan_position_accepted [of manager1 "nav1 NaN" sim1 "(''127.0.0.1'', 5)" bounds1 gps1 4]
  by (simp add: manager1_def nav1_def sim1_def bounds1_def)

end
