(* ===== verification/Service.thy ===== *)
theory Service
  imports Tcp Manager
begin

text \<open>
  The manager behind its TCP server: the constructor of \<open>NetSimManager\<close>
  (\<open>src/apps/netsim_manager/manager.cpp\<close>) registers \<open>process_request\<close> as the callback of the server
  (\<open>src/lib/tcp/tcp_server.h\<close>), and \<open>process_request\<close> writes its response to the server. This theory joins
  Manager.thy and Tcp.thy the way the code does.

  As in Tcp.thy, what a session is given to write is sent whole and in order: \<open>write\<close> starts an asynchronous
  operation on a local string, which is only right if the socket takes it at once.

  \<open>service_api\<close>: the conversion between the messages of the codec and the requests and responses, which the
  generated protobuf classes do.
\<close>

section \<open>The composition\<close>

record 'm service_api =
  request_name :: string
  from_request :: "manager_request \<Rightarrow> 'm"
  as_request :: "'m \<Rightarrow> manager_request"
  from_response :: "manager_response \<Rightarrow> 'm"

datatype service_output = Socket nat string | Published manager_output

text \<open>The server of a manager that has just started.\<close>

definition service_init :: "'m service_api \<Rightarrow> endpoint tcp_server" where
  "service_init api = server_read_callback (request_name api) 0 server_init"

fun to_socket :: "(endpoint, 'm) server_output \<Rightarrow> service_output list" where
  "to_socket (Sent i bs) = [Socket i bs]"
| "to_socket (Posted f m e) = []"

fun publish_all ::
    "'m codec \<Rightarrow> 'm service_api \<Rightarrow> manager_output list \<Rightarrow> endpoint tcp_server
      \<Rightarrow> endpoint tcp_server \<times> service_output list" where
  "publish_all codec api [] v = (v, [])"
| "publish_all codec api (Tcp_Write r e # out) v =
     (case server_write codec (from_response api r) e v of (v1, sent) \<Rightarrow>
      case publish_all codec api out v1 of (v2, out2) \<Rightarrow> (v2, concat (map to_socket sent) @ out2))"
| "publish_all codec api (x # out) v =
     (case publish_all codec api out v of (v1, out1) \<Rightarrow> (v1, Published x # out1))"

text \<open>What the server posts goes to \<open>process_request\<close>, one message after the other.\<close>

fun serve_all ::
    "'m codec \<Rightarrow> 'm service_api \<Rightarrow> gps_env \<Rightarrow> manager \<Rightarrow> (endpoint, 'm) server_output list \<Rightarrow> endpoint tcp_server
      \<Rightarrow> (endpoint tcp_server \<times> service_output list) res" where
  "serve_all codec api env s [] v = Inr (v, [])"
| "serve_all codec api env s (Sent i bs # out) v =
     res_bind (serve_all codec api env s out v) (\<lambda>(v1, out1). Inr (v1, Socket i bs # out1))"
| "serve_all codec api env s (Posted f m e # out) v =
     res_bind (process_request env s (as_request api m) e) (\<lambda>pubs.
       case publish_all codec api pubs v of (v1, out1) \<Rightarrow>
         res_bind (serve_all codec api env s out v1) (\<lambda>(v2, out2). Inr (v2, out1 @ out2)))"

definition service_handle ::
    "'m codec \<Rightarrow> 'm service_api \<Rightarrow> gps_env \<Rightarrow> manager \<Rightarrow> (nat \<Rightarrow> endpoint)
      \<Rightarrow> ((endpoint, 'm) server_event, endpoint tcp_server, service_output) handler" where
  "service_handle codec api env s ep ev v =
     res_bind (server_handle codec ep ev v) (\<lambda>(v1, out). serve_all codec api env s out v1)"

section \<open>One client among others\<close>

text \<open>What is sent to a session, and what is published.\<close>

fun sent_to :: "nat \<Rightarrow> service_output list \<Rightarrow> string" where
  "sent_to i [] = []"
| "sent_to i (Socket j bs # out) = (if j = i then bs else []) @ sent_to i out"
| "sent_to i (Published x # out) = sent_to i out"

lemma sent_to_append [simp]: "sent_to i (xs @ ys) = sent_to i xs @ sent_to i ys"
  by (induction i xs rule: sent_to.induct) simp_all

definition answer :: "manager \<Rightarrow> endpoint \<Rightarrow> manager_request \<Rightarrow> manager_response" where
  "answer s e req =
     \<lparr>response_request_id = request_id req,
      response_status =
        (case dropWhile (\<lambda>nav. verdict s e nav = UPDATE_ACCEPTED) (request_nav req) of
           [] \<Rightarrow> UPDATE_ACCEPTED | nav # _ \<Rightarrow> verdict s e nav)\<rparr>"

definition sane :: "manager_request \<Rightarrow> bool" where
  "sane req \<longleftrightarrow> (\<forall>nav \<in> set (request_nav req). nav_initialized nav \<longrightarrow> writable nav)"

text \<open>The client of interest: session \<open>i\<close>, the only one at endpoint \<open>e\<close>, is in state \<open>c\<close>.\<close>

definition serves :: "'m service_api \<Rightarrow> endpoint \<Rightarrow> nat \<Rightarrow> session \<Rightarrow> endpoint tcp_server \<Rightarrow> bool" where
  "serves api e i c v \<longleftrightarrow>
     (\<forall>e'. sessions v e' = Some i \<longleftrightarrow> e' = e) \<and> i < next_session v \<and> alive v i = Some c \<and> connected c
     \<and> rx_all c = [0] \<and> rx_callbacks c = [] \<and> server_callbacks v = [(request_name api, 0)]"

text \<open>Events of other clients, and the bytes of this one.\<close>

fun elsewhere :: "(nat \<Rightarrow> endpoint) \<Rightarrow> endpoint \<Rightarrow> nat \<Rightarrow> (endpoint, 'm) server_event \<Rightarrow> bool" where
  "elsewhere ep e i (Accept a) \<longleftrightarrow> a \<noteq> Some e"
| "elsewhere ep e i (Write m e') \<longleftrightarrow> e' \<noteq> e"
| "elsewhere ep e i (On_Session j x) \<longleftrightarrow> j \<noteq> i \<and> ep j \<noteq> e"

fun bytes_of :: "nat \<Rightarrow> (endpoint, 'm) server_event \<Rightarrow> string" where
  "bytes_of i (On_Session j (Bytes c)) = (if j = i then c else [])"
| "bytes_of i ev = []"

lemma process_request_answer:
  assumes "manager_inv s" "sane req"
  shows "\<exists>pubs. process_request env s req e = Inr (pubs @ [Tcp_Write (answer s e req) e])
     \<and> (\<forall>r e'. Tcp_Write r e' \<notin> set pubs)"
proof -
  let ?good = "takeWhile (\<lambda>nav. verdict s e nav = UPDATE_ACCEPTED) (request_nav req)"
  let ?pubs = "concat (map (updates env s) ?good) @ map Pub_Receive_Stats (request_stats req)"
  have "process_request env s req e = Inr (?pubs @ [Tcp_Write (answer s e req) e])"
    using assms by (simp add: process_request_def process_navs_eq sane_def answer_def)
  moreover have "\<forall>r e'. Tcp_Write r e' \<notin> set ?pubs"
    by (auto simp: updates_def split: sum.splits if_splits)
  ultimately show ?thesis by blast
qed

lemma publish_all_append:
  "\<forall>r e. Tcp_Write r e \<notin> set xs \<Longrightarrow>
     publish_all codec api (xs @ ys) v =
       (case publish_all codec api ys v of (v', out) \<Rightarrow> (v', map Published xs @ out))"
proof (induction xs)
  case (Cons x xs)
  then show ?case by (cases x) (auto split: prod.splits)
qed (simp split: prod.split)

lemma sent_to_Published [simp]: "sent_to i (map Published xs) = []"
  by (induction xs) simp_all

lemma serves_session: "serves api e i c v \<Longrightarrow> sessions v e' = Some i \<longleftrightarrow> e' = e"
  unfolding serves_def by blast

text \<open>Answers go to the session of the client, and change nothing.\<close>

lemma publish_answer:
  assumes "serves api e i c v" and "\<forall>r e'. Tcp_Write r e' \<notin> set pubs"
  shows "publish_all codec api (pubs @ [Tcp_Write r e]) v
    = (v, map Published pubs @ [Socket i (wire codec (from_response api r))])"
proof -
  have "sessions v e = Some i" "alive v i = Some c"
    using assms(1) by (simp_all only: serves_session) (simp add: serves_def)
  then have "server_write codec (from_response api r) e v = (v, [Sent i (wire codec (from_response api r))])"
    by (simp add: server_write_def)
  then show ?thesis by (simp add: publish_all_append [OF assms(2)])
qed

lemma serve_requests:
  assumes "manager_inv s" and "serves api e i c v"
    and "\<forall>r \<in> set reqs. sane r \<and> as_request api (from_request api r) = r"
  shows "\<exists>out. serve_all codec api env s (map (\<lambda>r. Posted 0 (from_request api r) e) reqs) v = Inr (v, out)
     \<and> sent_to i out = concat (map (\<lambda>r. wire codec (from_response api (answer s e r))) reqs)"
  using assms(3)
proof (induction reqs)
  case Nil
  then show ?case by simp
next
  case (Cons r reqs)
  then obtain out where IH:
    "serve_all codec api env s (map (\<lambda>r. Posted 0 (from_request api r) e) reqs) v = Inr (v, out)"
    "sent_to i out = concat (map (\<lambda>r. wire codec (from_response api (answer s e r))) reqs)" by auto
  obtain pubs where "process_request env s r e = Inr (pubs @ [Tcp_Write (answer s e r) e])"
    "\<forall>r e'. Tcp_Write r e' \<notin> set pubs"
    using process_request_answer [OF assms(1), of r env e] Cons.prems by auto
  with publish_answer [OF assms(2)] IH Cons.prems show ?case by simp
qed

text \<open>What other clients cause leaves the client alone.\<close>

lemma server_write_elsewhere:
  assumes "serves api e i c v" "e' \<noteq> e" "server_write codec m e' v = (v', sent)"
  shows "serves api e i c v' \<and> sent_to i (concat (map to_socket sent)) = [] \<and> (\<forall>x \<in> set sent. \<exists>j bs. x = Sent j bs \<and> j \<noteq> i)"
proof -
  have j: "sessions v e' \<noteq> Some i" using serves_session [OF assms(1)] assms(2) by blast
  have "serves api e i c (v\<lparr>sessions := (sessions v)(e' := None)\<rparr>)"
    using assms(1,2) unfolding serves_def by simp
  with assms j show ?thesis
    by (auto simp: server_write_def split: option.splits if_splits)
qed

lemma publish_all_elsewhere:
  "serves api e i c v \<Longrightarrow> \<forall>r e'. Tcp_Write r e' \<in> set pubs \<longrightarrow> e' \<noteq> e
    \<Longrightarrow> publish_all codec api pubs v = (v', out) \<Longrightarrow> serves api e i c v' \<and> sent_to i out = []"
proof (induction pubs arbitrary: v v' out)
  case Nil
  then show ?case by simp
next
  case (Cons x pubs)
  show ?case
  proof (cases "\<exists>r e'. x = Tcp_Write r e'")
    case True
    then obtain r e' where x: "x = Tcp_Write r e'" by blast
    obtain v1 sent where w: "server_write codec (from_response api r) e' v = (v1, sent)"
      by (rule prod.exhaust)
    obtain v2 out2 where p: "publish_all codec api pubs v1 = (v2, out2)" by (rule prod.exhaust)
    have "e' \<noteq> e" using spec [OF spec [OF Cons.prems(2), of r], of e'] x by simp
    from server_write_elsewhere [OF Cons.prems(1) this w]
    have "serves api e i c v1" "sent_to i (concat (map to_socket sent)) = []" by simp_all
    with Cons.IH [OF _ _ p] Cons.prems w p x show ?thesis by auto
  next
    case False
    obtain v1 out1 where p: "publish_all codec api pubs v = (v1, out1)" by (rule prod.exhaust)
    from Cons.IH [OF Cons.prems(1) _ p] Cons.prems(2) have "serves api e i c v1 \<and> sent_to i out1 = []" by auto
    moreover have "v' = v1 \<and> out = Published x # out1" using Cons.prems(3) p False by (cases x) auto
    ultimately show ?thesis by simp
  qed
qed

fun posted_elsewhere :: "endpoint \<Rightarrow> nat \<Rightarrow> (endpoint, 'm) server_output \<Rightarrow> bool" where
  "posted_elsewhere e i (Sent j bs) \<longleftrightarrow> j \<noteq> i"
| "posted_elsewhere e i (Posted f m e') \<longleftrightarrow> e' \<noteq> e"

lemma serve_all_elsewhere:
  assumes "manager_inv s" and "\<forall>m. sane (as_request api m)"
  shows "serves api e i c v \<Longrightarrow> list_all (posted_elsewhere e i) outs
    \<Longrightarrow> \<exists>v' out. serve_all codec api env s outs v = Inr (v', out) \<and> serves api e i c v' \<and> sent_to i out = []"
proof (induction outs arbitrary: v)
  case Nil
  then show ?case by simp
next
  case (Cons x outs)
  show ?case
  proof (cases x)
    case (Sent j bs)
    with Cons show ?thesis by force
  next
    case (Posted f m e')
    obtain pubs where p: "process_request env s (as_request api m) e'
        = Inr (pubs @ [Tcp_Write (answer s e' (as_request api m)) e'])" "\<forall>r e'. Tcp_Write r e' \<notin> set pubs"
      using process_request_answer [OF assms(1), of "as_request api m" env e'] assms(2) by auto
    obtain v1 out1 where q: "publish_all codec api (pubs @ [Tcp_Write (answer s e' (as_request api m)) e']) v
        = (v1, out1)" by (rule prod.exhaust)
    have "serves api e i c v1 \<and> sent_to i out1 = []"
      using Posted Cons.prems p(2) by (intro publish_all_elsewhere [OF Cons.prems(1) _ q]) auto
    with Cons.IH [of v1] Cons.prems(2) p(1) q Posted show ?thesis by fastforce
  qed
qed

lemma server_handle_elsewhere:
  assumes "serves api e i c v" and "elsewhere ep e i ev"
  shows "\<exists>v' out. server_handle codec ep ev v = Inr (v', out) \<and> serves api e i c v'
    \<and> list_all (posted_elsewhere e i) out"
proof (cases ev)
  case (Accept a)
  with assms show ?thesis
    by (cases a) (auto simp: server_accept_def serves_def)
next
  case (Write m e')
  obtain v' sent where w: "server_write codec m e' v = (v', sent)" by (rule prod.exhaust)
  from server_write_elsewhere [OF assms(1) _ w] assms(2) Write w show ?thesis
    by (fastforce simp: list_all_iff)
next
  case (On_Session j x)
  with assms(2) have j: "j \<noteq> i" "ep j \<noteq> e" by simp_all
  show ?thesis
  proof (cases "alive v j")
    case None
    with assms On_Session show ?thesis by simp
  next
    case (Some d)
    obtain d' posts where h: "session_handle codec x d = Inr (d', posts)"
      by (cases x; cases "connected d") (auto simp: prod_eq_iff)
    have "list_all (posted_elsewhere e i) (server_post codec v (ep j) q)" for q
      using j(2) by (cases q) (auto simp: list_all_iff)
    then have "list_all (posted_elsewhere e i) (concat (map (server_post codec v (ep j)) posts))"
      by (auto simp: list_all_iff)
    with Some h j(1) assms(1) On_Session show ?thesis by (auto simp: serves_def)
  qed
qed

lemma service_handle_elsewhere:
  assumes "manager_inv s" "\<forall>m. sane (as_request api m)" "serves api e i c v" "elsewhere ep e i ev"
  shows "\<exists>v' out. service_handle codec api env s ep ev v = Inr (v', out) \<and> serves api e i c v'
    \<and> sent_to i out = []"
proof -
  from server_handle_elsewhere [OF assms(3,4)] obtain v1 outs where
    "server_handle codec ep ev v = Inr (v1, outs)" "serves api e i c v1" "list_all (posted_elsewhere e i) outs"
    by blast
  with serve_all_elsewhere [OF assms(1,2), of e i c v1 outs] show ?thesis
    by (simp add: service_handle_def)
qed

text \<open>The bytes of the client itself: complete lines are answered.\<close>

lemma posts_of_request:
  assumes "wire_codec codec valid" "valid m" "full_name codec m = request_name api"
    and "rx_all c = [0]" "rx_callbacks c = []" "server_callbacks v = [(request_name api, 0)]"
  shows "concat (map (server_post codec v e) (posts_of codec c m)) = [Posted 0 m e]"
  using assms(3-6) wire_codec.parse_serialize [OF assms(1,2)] by (simp add: posts_of_def)

lemma service_handle_client:
  assumes "wire_codec codec valid" "manager_inv s" "serves api e i c v" "ep i = e"
    and "buffer c @ x = concat (map (\<lambda>r. wire codec (from_request api r)) reqs) @ rest" "end_of_line \<notin> set rest"
    and "\<forall>r \<in> set reqs. sane r \<and> as_request api (from_request api r) = r \<and> valid (from_request api r)
           \<and> full_name codec (from_request api r) = request_name api"
  shows "\<exists>v' out. service_handle codec api env s ep (On_Session i (Bytes x)) v = Inr (v', out)
     \<and> serves api e i (c\<lparr>buffer := rest\<rparr>) v'
     \<and> sent_to i out = concat (map (\<lambda>r. wire codec (from_response api (answer s e r))) reqs)"
proof -
  let ?c = "c\<lparr>buffer := rest\<rparr>" and ?v = "v\<lparr>alive := (alive v)(i \<mapsto> c\<lparr>buffer := rest\<rparr>)\<rparr>"
  have c: "alive v i = Some c" "connected c" "rx_all c = [0]" "rx_callbacks c = []"
    "server_callbacks v = [(request_name api, 0)]" and v: "serves api e i ?c ?v"
    using assms(3) unfolding serves_def by simp_all
  have lp: "wire_codec.link_posts codec = posts_of codec" by (rule link_posts_posts_of [OF assms(1)])
  have "read_lines codec (c\<lparr>buffer := buffer c @ x\<rparr>)
      = (?c, concat (map (posts_of codec c) (map (from_request api) reqs)))"
    using wire_codec.read_lines_wires [OF assms(1), of "map (from_request api) reqs" rest "c\<lparr>buffer := buffer c @ x\<rparr>"]
      assms(5-7) by (simp add: lp comp_def) (simp add: posts_of_def)
  moreover have "concat (map (server_post codec v e) (concat (map (posts_of codec c) (map (from_request api) reqs))))
      = map (\<lambda>r. Posted 0 (from_request api r) e) reqs"
    using assms(7) by (induction reqs) (simp_all add: posts_of_request [OF assms(1) _ _ c(3,4,5)])
  ultimately have "server_handle codec ep (On_Session i (Bytes x)) v
      = Inr (?v, map (\<lambda>r. Posted 0 (from_request api r) e) reqs)"
    using c assms(4) by simp
  with serve_requests [OF assms(2) v, of reqs codec env] assms(7) v show ?thesis
    by (auto simp: service_handle_def)
qed

lemma requests_in_stream:
  assumes "wire_codec codec valid" "\<forall>r \<in> set reqs. valid (f r)"
    and "t @ u = concat (map (\<lambda>r. wire codec (f r)) reqs)"
  shows "\<exists>r1 r2 rest. reqs = r1 @ r2 \<and> t = concat (map (\<lambda>r. wire codec (f r)) r1) @ rest
     \<and> end_of_line \<notin> set rest \<and> rest @ u = concat (map (\<lambda>r. wire codec (f r)) r2)"
proof -
  from wire_codec.split_stream [OF assms(1), of "map f reqs" t u] assms(2,3) obtain m1 m2 rest where
    m: "map f reqs = m1 @ m2" and r: "t = concat (map (wire codec) m1) @ rest" "end_of_line \<notin> set rest"
      "rest @ u = concat (map (wire codec) m2)" by (auto simp: comp_def)
  from m obtain r1 r2 where "reqs = r1 @ r2" "m1 = map f r1" "m2 = map f r2"
    by (auto simp: map_eq_append_conv)
  with r show ?thesis by (intro exI [of _ r1] exI [of _ r2] exI [of _ rest]) (simp add: comp_def)
qed

lemma clients_answered:
  assumes "wire_codec codec valid" "manager_inv s" "\<forall>m. sane (as_request api m)" "ep i = e"
  shows "serves api e i c v
    \<Longrightarrow> \<forall>ev \<in> set es. elsewhere ep e i ev \<or> (\<exists>x. ev = On_Session i (Bytes x))
    \<Longrightarrow> \<forall>r \<in> set reqs. as_request api (from_request api r) = r \<and> valid (from_request api r)
           \<and> full_name codec (from_request api r) = request_name api
    \<Longrightarrow> end_of_line \<notin> set (buffer c)
    \<Longrightarrow> buffer c @ concat (map (bytes_of i) es) = concat (map (\<lambda>r. wire codec (from_request api r)) reqs)
    \<Longrightarrow> \<exists>v' out. run (service_handle codec api env s ep) es v = Inr (v', out)
          \<and> serves api e i (c\<lparr>buffer := []\<rparr>) v'
          \<and> sent_to i out = concat (map (\<lambda>r. wire codec (from_response api (answer s e r))) reqs)"
proof (induction es arbitrary: c v reqs)
  case Nil
  have "reqs = []"
  proof (rule ccontr)
    assume "reqs \<noteq> []"
    then obtain r rs where "reqs = r # rs" by (cases reqs) auto
    with Nil.prems(4,5) wire_codec.wire_eol [OF assms(1), of "from_request api r"] show False by auto
  qed
  moreover from this have "c\<lparr>buffer := []\<rparr> = c" using Nil.prems(5) by (cases c) simp
  ultimately show ?case using Nil.prems(1) by simp
next
  case (Cons ev es)
  show ?case
  proof (cases "elsewhere ep e i ev")
    case True
    then have b: "bytes_of i ev = []" by (cases "(i, ev)" rule: bytes_of.cases) auto
    from service_handle_elsewhere [OF assms(2,3) Cons.prems(1) True] obtain v1 out1 where
      1: "service_handle codec api env s ep ev v = Inr (v1, out1)" "serves api e i c v1" "sent_to i out1 = []"
      by blast
    have "\<exists>v' out. run (service_handle codec api env s ep) es v1 = Inr (v', out)
          \<and> serves api e i (c\<lparr>buffer := []\<rparr>) v'
          \<and> sent_to i out = concat (map (\<lambda>r. wire codec (from_response api (answer s e r))) reqs)"
      using Cons.prems b by (intro Cons.IH [OF 1(2)]) simp_all
    with 1 show ?thesis by auto
  next
    case False
    with Cons.prems(2) obtain x where ev: "ev = On_Session i (Bytes x)" by auto
    have "(buffer c @ x) @ concat (map (bytes_of i) es) = concat (map (\<lambda>r. wire codec (from_request api r)) reqs)"
      using Cons.prems(5) ev by simp
    from requests_in_stream [OF assms(1) _ this] Cons.prems(3) obtain r1 r2 rest where
      r: "reqs = r1 @ r2" "buffer c @ x = concat (map (\<lambda>r. wire codec (from_request api r)) r1) @ rest"
        "end_of_line \<notin> set rest"
        "rest @ concat (map (bytes_of i) es) = concat (map (\<lambda>r. wire codec (from_request api r)) r2)" by blast
    have "\<forall>r \<in> set r1. sane r \<and> as_request api (from_request api r) = r \<and> valid (from_request api r)
           \<and> full_name codec (from_request api r) = request_name api"
      using Cons.prems(3) r(1) assms(3) by (metis Un_iff set_append)
    from service_handle_client [where ep = ep and i = i and valid = valid,
        OF assms(1,2) Cons.prems(1) assms(4) r(2,3) this] obtain v1 out1 where
      1: "service_handle codec api env s ep ev v = Inr (v1, out1)" "serves api e i (c\<lparr>buffer := rest\<rparr>) v1"
        "sent_to i out1 = concat (map (\<lambda>r. wire codec (from_response api (answer s e r))) r1)"
      unfolding ev by blast
    have "\<exists>v' out. run (service_handle codec api env s ep) es v1 = Inr (v', out)
          \<and> serves api e i ((c\<lparr>buffer := rest\<rparr>)\<lparr>buffer := []\<rparr>) v'
          \<and> sent_to i out = concat (map (\<lambda>r. wire codec (from_response api (answer s e r))) r2)"
      using Cons.prems r by (intro Cons.IH [OF 1(2)]) simp_all
    with 1 r(1) show ?thesis by auto
  qed
qed

section \<open>From the start of the manager\<close>

text \<open>Before the client connects: its endpoint is not in the table of the server.\<close>

definition awaits :: "'m service_api \<Rightarrow> endpoint \<Rightarrow> endpoint tcp_server \<Rightarrow> bool" where
  "awaits api e v \<longleftrightarrow> server_inv v \<and> server_callbacks v = [(request_name api, 0)] \<and> sessions v e = None"

lemma server_write_awaits:
  "awaits api e v \<Longrightarrow> server_write codec m e' v = (v', sent) \<Longrightarrow> awaits api e v'"
  by (auto simp: awaits_def server_write_def server_inv_def split: option.splits if_splits)

lemma publish_all_awaits: "awaits api e v \<Longrightarrow> publish_all codec api pubs v = (v', out) \<Longrightarrow> awaits api e v'"
  by (induction codec api pubs v arbitrary: v' out rule: publish_all.induct)
     (auto split: prod.splits dest: server_write_awaits)

lemma serve_all_awaits: "awaits api e v \<Longrightarrow> serve_all codec api env s outs v = Inr (v', out) \<Longrightarrow> awaits api e v'"
proof (induction outs arbitrary: v v' out)
  case Nil
  then show ?case by simp
next
  case (Cons x outs)
  show ?case
  proof (cases x)
    case (Sent i bs)
    with Cons show ?thesis by (auto simp: res_bind_eq_Inr)
  next
    case (Posted f m e')
    with Cons.prems(2) obtain pubs where "process_request env s (as_request api m) e' = Inr pubs"
      by (auto simp: res_bind_eq_Inr)
    moreover obtain v1 out1 where p: "publish_all codec api pubs v = (v1, out1)" by (rule prod.exhaust)
    ultimately obtain out2 where "serve_all codec api env s outs v1 = Inr (v', out2)"
      using Cons.prems(2) Posted by (auto simp: res_bind_eq_Inr)
    with Cons.IH publish_all_awaits [OF Cons.prems(1) p] show ?thesis by blast
  qed
qed

lemma server_handle_awaits:
  assumes "awaits api e v" "ev \<noteq> Accept (Some e)" "server_handle codec ep ev v = Inr (v', out)"
  shows "awaits api e v'"
proof (cases ev)
  case (Accept a)
  have "server_inv v'" using assms tcp_server.inv_step unfolding awaits_def by blast
  with Accept assms show ?thesis by (cases a) (auto simp: awaits_def server_accept_def)
next
  case (Write m e')
  with assms show ?thesis by (simp add: server_write_awaits)
next
  case (On_Session j x)
  have "server_inv v'" using assms tcp_server.inv_step unfolding awaits_def by blast
  with On_Session assms show ?thesis
    by (auto simp: awaits_def split: option.splits sum.splits prod.splits)
qed

interpretation service: component "service_handle codec api env s ep" "\<lambda>ev. ev \<noteq> Accept (Some e)" "awaits api e"
  for codec api env s ep e
  by unfold_locales
     (auto simp: service_handle_def res_bind_eq_Inr dest: server_handle_awaits serve_all_awaits)

lemma awaits_init: "awaits api e (service_init api)"
  by (simp add: awaits_def service_init_def server_read_callback_def server_init_def server_inv_def)

lemma accept_serves:
  assumes "awaits api e v"
  shows "serves api e (next_session v) (start (read_callback_all 0 session_init)) (server_accept (Some e) v)"
proof -
  have "sessions v e' \<noteq> Some (next_session v)" for e'
    using assms unfolding awaits_def server_inv_def by (metis less_irrefl)
  with assms show ?thesis
    unfolding serves_def awaits_def
    by (simp add: server_accept_def start_def read_callback_all_def session_init_def)
qed

section \<open>Properties\<close>

text \<open>A client of the test configuration, and messages that are its request and the response to it.\<close>

definition request1 :: manager_request where
  "request1 = \<lparr>request_id = 4, request_nav = [nav1 (Fin 42)], request_stats = []\<rparr>"

definition response1 :: manager_response where
  "response1 = \<lparr>response_request_id = 4, response_status = UPDATE_ACCEPTED\<rparr>"

definition api1 :: "(manager_request + manager_response) service_api" where
  "api1 = \<lparr>request_name = ''Req'', from_request = Inl, as_request = (\<lambda>_. request1), from_response = Inr\<rparr>"

definition codec1 :: "(manager_request + manager_response) codec" where
  "codec1 = \<lparr>full_name = (\<lambda>m. case m of Inl _ \<Rightarrow> ''Req'' | Inr _ \<Rightarrow> ''Resp''), serialize = (\<lambda>_. ''data''),
             parse = (\<lambda>name _. if name = ''Req'' then Inl request1 else Inr response1),
             b64_encode = base64_encode, b64_decode = base64_decode\<rparr>"

lemma codec1: "wire_codec codec1 (\<lambda>m. m = Inl request1 \<or> m = Inr response1)"
  using base64.b64 by unfold_locales (auto simp: codec1_def base64_codec_def delimiter_def end_of_line_def)

lemma sane1: "sane (as_request api1 m)"
  by (simp add: sane_def api1_def request1_def writable_nav1)

lemma answer1: "answer manager1 (''127.0.0.1'', 5) request1 = response1"
  by (simp add: answer_def request1_def response1_def verdict_def manager1_def sim1_def bounds1_def nav1_def
      out_of_bounds_def)



end
