(* ===== verification/Gateway.thy ===== *)
theory Gateway
  imports Audio Manager
begin

text \<open>
  The plugin that connects the simulator to the MOOS communities of the ray tracers
  (\<open>src/lib/moos_translator_plugin/moos_plugin.cpp\<close>). One gateway runs per community; it serves the
  environment whose id is the last digit of the community's port.

  The MOOS translator of goby is not part of the repository: it is the argument \<open>tr\<close>, with its documented
  behaviour as the locale \<open>moos_translator\<close>. The entries the constructor gives it are \<open>translator_entries\<close>.
\<close>

section \<open>What the gateway translates\<close>

datatype env_payload =
    Impulse_Payload impulse_request
  | Nav_Payload nav_update
  | Bellhop_Payload bellhop_request
  | Performance_Payload objfunc_request

fun full_name_of :: "env_payload \<Rightarrow> string" where
  "full_name_of (Impulse_Payload _) = ''netsim.protobuf.ImpulseRequest''"
| "full_name_of (Nav_Payload _) = ''netsim.protobuf.NavUpdate''"
| "full_name_of (Bellhop_Payload _) = ''netsim.protobuf.iBellhopRequest''"
| "full_name_of (Performance_Payload _) = ''netsim.protobuf.ObjFuncRequest''"

definition imp_resp_var :: string where "imp_resp_var = ''IMPULSE_RESPONSE''"
definition imp_req_var :: string where "imp_req_var = ''IMPULSE_REQUEST''"
definition nav_update_var :: string where "nav_update_var = ''NETSIM_NAV_UPDATE''"
definition bellhop_req_var :: string where "bellhop_req_var = ''BELLHOP_REQUEST''"
definition bellhop_resp_var :: string where "bellhop_resp_var = ''BELLHOP_RESPONSE''"
definition perf_resp_var :: string where "perf_resp_var = ''PERFORMANCE_RESPONSE''"
definition perf_req_var :: string where "perf_req_var = ''PERFORMANCE_REQUEST''"

lemmas var_defs = imp_resp_var_def imp_req_var_def nav_update_var_def bellhop_req_var_def
  bellhop_resp_var_def perf_resp_var_def perf_req_var_def

text \<open>An entry makes a message of that name from a MOOS variable, or writes it to one.\<close>

datatype translator_entry = Create string string | Publish string string

definition translator_entries :: "translator_entry list" where
  "translator_entries =
     [Create ''netsim.protobuf.ImpulseResponse'' imp_resp_var,
      Publish ''netsim.protobuf.ImpulseRequest'' imp_req_var,
      Publish ''netsim.protobuf.NavUpdate'' nav_update_var,
      Create ''netsim.protobuf.iBellhopResponse'' bellhop_resp_var,
      Publish ''netsim.protobuf.iBellhopRequest'' bellhop_req_var,
      Create ''netsim.protobuf.ObjFuncResponse'' perf_resp_var,
      Publish ''netsim.protobuf.ObjFuncRequest'' perf_req_var]"

text \<open>A MOOS message is a variable and its text.\<close>

type_synonym moos_msg = "string \<times> string"

record 'm translator =
  protobuf_to_moos :: "translator_entry list \<Rightarrow> env_payload \<Rightarrow> moos_msg list"
  moos_to_protobuf :: "translator_entry list \<Rightarrow> moos_msg \<Rightarrow> string \<Rightarrow> 'm option"

section \<open>The gateway\<close>

text \<open>The remainder of C++ has the sign of the dividend.\<close>

definition environment_id_of_port :: "int \<Rightarrow> int" where
  "environment_id_of_port port = (if 0 \<le> port then port mod 10 else - (- port mod 10))"

definition goby_to_moos :: "'m translator \<Rightarrow> int \<Rightarrow> int \<Rightarrow> env_payload \<Rightarrow> moos_msg list" where
  "goby_to_moos tr environment_id i p =
     (if i = environment_id then protobuf_to_moos tr translator_entries p else [])"

definition moos_to_goby :: "'m translator \<Rightarrow> moos_msg \<Rightarrow> (group \<times> 'm option) list" where
  "moos_to_goby tr msg =
     (if fst msg = imp_resp_var
      then [(Impulse_Response, moos_to_protobuf tr translator_entries msg ''netsim.protobuf.ImpulseResponse'')]
      else if fst msg = bellhop_resp_var
      then [(Bellhop_Response, moos_to_protobuf tr translator_entries msg ''netsim.protobuf.iBellhopResponse'')]
      else if fst msg = perf_resp_var
      then [(Performance_Response, moos_to_protobuf tr translator_entries msg ''netsim.protobuf.ObjFuncResponse'')]
      else [])"

text \<open>The subscriptions: the four kinds of requests the manager publishes with an environment id.\<close>

fun gateway_subscription :: "manager_output \<Rightarrow> (int \<times> env_payload) option" where
  "gateway_subscription (Pub_Env_Impulse_Req i r) = Some (i, Impulse_Payload r)"
| "gateway_subscription (Pub_Env_Nav_Update i n) = Some (i, Nav_Payload n)"
| "gateway_subscription (Pub_Env_Bellhop_Req i r) = Some (i, Bellhop_Payload r)"
| "gateway_subscription (Pub_Env_Performance_Req i r) = Some (i, Performance_Payload r)"
| "gateway_subscription _ = None"

definition gateway_handle :: "'m translator \<Rightarrow> int \<Rightarrow> manager_output \<Rightarrow> moos_msg list" where
  "gateway_handle tr port out =
     (case gateway_subscription out of
        None \<Rightarrow> [] | Some (i, p) \<Rightarrow> goby_to_moos tr (environment_id_of_port port) i p)"

section \<open>The contract of the translator\<close>

text \<open>
  \<open>show_pb\<close> and \<open>show_response\<close>: the prefixed text format of a message. A message is written to the
  variables of all entries that publish it, and read from a variable with an entry that creates it.
\<close>

locale moos_translator =
  fixes tr :: "'m translator" and show_pb :: "env_payload \<Rightarrow> string" and show_response :: "string \<Rightarrow> 'm \<Rightarrow> string"
  assumes publishes: "protobuf_to_moos tr es p =
      map (\<lambda>v. (v, show_pb p)) (concat (map (\<lambda>e. case e of Publish n v \<Rightarrow> if n = full_name_of p then [v] else []
        | Create _ _ \<Rightarrow> []) es))"
    and creates: "Create n v \<in> set es \<Longrightarrow> moos_to_protobuf tr es (v, show_response n m) n = Some m"
begin

fun payload_var :: "env_payload \<Rightarrow> string" where
  "payload_var (Impulse_Payload _) = imp_req_var"
| "payload_var (Nav_Payload _) = nav_update_var"
| "payload_var (Bellhop_Payload _) = bellhop_req_var"
| "payload_var (Performance_Payload _) = perf_req_var"

lemma gateway_translates: "protobuf_to_moos tr translator_entries p = [(payload_var p, show_pb p)]"
  by (cases p) (simp_all add: publishes translator_entries_def)

lemma gateway_posts:
  "msg \<in> set (gateway_handle tr port out) \<longleftrightarrow>
     (\<exists>p. gateway_subscription out = Some (environment_id_of_port port, p) \<and> msg = (payload_var p, show_pb p))"
proof (cases "gateway_subscription out")
  case (Some ip)
  then show ?thesis
    by (cases ip) (auto simp: gateway_handle_def goby_to_moos_def gateway_translates)
qed (simp add: gateway_handle_def)

lemma posted_positions:
  "(nav_update_var, t) \<in> set (concat (map (gateway_handle tr port) out)) \<longleftrightarrow>
     (\<exists>nav. Pub_Env_Nav_Update (environment_id_of_port port) nav \<in> set out \<and> t = show_pb (Nav_Payload nav))"
proof -
  have "(nav_update_var, t) \<in> set (gateway_handle tr port x) \<longleftrightarrow>
      (\<exists>nav. x = Pub_Env_Nav_Update (environment_id_of_port port) nav \<and> t = show_pb (Nav_Payload nav))" for x
    by (cases x) (auto simp: gateway_posts var_defs)
  then show ?thesis by (simp add: image_iff) blast
qed

lemma posted_impulse_requests:
  "map snd (filter (\<lambda>p. fst p = imp_req_var) (gateway_handle tr port x)) =
     (case x of
        Pub_Env_Impulse_Req i r \<Rightarrow> if i = environment_id_of_port port then [show_pb (Impulse_Payload r)] else []
      | _ \<Rightarrow> [])"
  by (cases x) (simp_all add: gateway_handle_def goby_to_moos_def gateway_translates var_defs)

lemma responses:
  "moos_to_goby tr (imp_resp_var, show_response ''netsim.protobuf.ImpulseResponse'' m) = [(Impulse_Response, Some m)]"
  "moos_to_goby tr (bellhop_resp_var, show_response ''netsim.protobuf.iBellhopResponse'' m) = [(Bellhop_Response, Some m)]"
  "moos_to_goby tr (perf_resp_var, show_response ''netsim.protobuf.ObjFuncResponse'' m) = [(Performance_Response, Some m)]"
  "key \<notin> {imp_resp_var, bellhop_resp_var, perf_resp_var} \<Longrightarrow> moos_to_goby tr (key, t) = []"
  using creates [of "''netsim.protobuf.ImpulseResponse''" imp_resp_var translator_entries m]
    creates [of "''netsim.protobuf.iBellhopResponse''" bellhop_resp_var translator_entries m]
    creates [of "''netsim.protobuf.ObjFuncResponse''" perf_resp_var translator_entries m]
  by (auto simp: moos_to_goby_def translator_entries_def var_defs)

end

text \<open>A translator whose text of a message is its name, and of a response the response itself.\<close>

definition name_translator :: "string translator" where
  "name_translator =
     \<lparr>protobuf_to_moos = (\<lambda>es p. map (\<lambda>v. (v, full_name_of p))
        (concat (map (\<lambda>e. case e of Publish n v \<Rightarrow> if n = full_name_of p then [v] else [] | Create _ _ \<Rightarrow> []) es))),
      moos_to_protobuf = (\<lambda>es msg n. Some (snd msg))\<rparr>"

interpretation name_translator: moos_translator name_translator full_name_of "\<lambda>_. id :: string \<Rightarrow> string"
  by unfold_locales (simp_all add: name_translator_def)

section \<open>Properties\<close>

lemma published_position:
  "Pub_Env_Nav_Update i nav \<in> set (updates gps s n) \<longleftrightarrow> nav_initialized n \<and> n = nav \<and> environment_of s n = i"
  by (auto simp: updates_def split: sum.splits)



text \<open>
  From the ray tracer back: each of the three kinds of responses is published to its group as the
  message it was written from, and no other MOOS variable is.
\<close>

theorem responses_reach_their_group:
  assumes "moos_translator tr show_pb show_response"
  shows "moos_to_goby tr (imp_resp_var, show_response ''netsim.protobuf.ImpulseResponse'' m) = [(Impulse_Response, Some m)]
     \<and> moos_to_goby tr (bellhop_resp_var, show_response ''netsim.protobuf.iBellhopResponse'' m) =
         [(Bellhop_Response, Some m)]
     \<and> moos_to_goby tr (perf_resp_var, show_response ''netsim.protobuf.ObjFuncResponse'' m) =
         [(Performance_Response, Some m)]
     \<and> (moos_to_goby tr msg \<noteq> [] \<longrightarrow> fst msg \<in> {imp_resp_var, bellhop_resp_var, perf_resp_var})"
  using moos_translator.responses(1-3) [OF assms, of m] moos_translator.responses(4) [OF assms, of "fst msg" "snd msg"]
  by auto

theorem responses_reach_their_group_witness:
  "moos_to_goby name_translator (bellhop_resp_var, ''ok'') = [(Bellhop_Response, Some ''ok'')]"
  using responses_reach_their_group [OF name_translator.moos_translator_axioms, of "''ok''"] by simp

end
