(* ===== verification/Ordered_Map.thy ===== *)
theory Ordered_Map
  imports Prelude "HOL-Library.Multiset"
begin

text \<open>
  \<open>std::map\<close> and \<open>std::multimap\<close> as lists of pairs in the order of their keys, which is the order the
  code iterates over them, and the contract of a buffer of things that wait for their time.
\<close>

section \<open>Insertion, lookup, bounds\<close>

text \<open>\<open>std::multimap::insert\<close> puts a pair behind those with the same key.\<close>

definition mm_insert :: "'k::linorder \<Rightarrow> 'v \<Rightarrow> ('k \<times> 'v) list \<Rightarrow> ('k \<times> 'v) list" where
  "mm_insert k v xs = takeWhile (\<lambda>p. fst p \<le> k) xs @ (k, v) # dropWhile (\<lambda>p. fst p \<le> k) xs"

text \<open>\<open>std::map::insert\<close> leaves an existing entry alone.\<close>

definition map_insert :: "'k::linorder \<Rightarrow> 'v \<Rightarrow> ('k \<times> 'v) list \<Rightarrow> ('k \<times> 'v) list" where
  "map_insert k v xs = (if k \<in> fst ` set xs then xs else mm_insert k v xs)"

definition equal_range :: "'k \<Rightarrow> ('k \<times> 'v) list \<Rightarrow> 'v list" where
  "equal_range k xs = map snd (filter (\<lambda>p. fst p = k) xs)"

definition erase_key :: "'k \<Rightarrow> ('k \<times> 'v) list \<Rightarrow> ('k \<times> 'v) list" where
  "erase_key k xs = filter (\<lambda>p. fst p \<noteq> k) xs"

text \<open>The pairs before and from \<open>upper_bound(k)\<close>.\<close>

definition up_to :: "'k::linorder \<Rightarrow> ('k \<times> 'v) list \<Rightarrow> ('k \<times> 'v) list" where
  "up_to k xs = takeWhile (\<lambda>p. fst p \<le> k) xs"

definition beyond :: "'k::linorder \<Rightarrow> ('k \<times> 'v) list \<Rightarrow> ('k \<times> 'v) list" where
  "beyond k xs = dropWhile (\<lambda>p. fst p \<le> k) xs"

abbreviation ordered :: "('k::linorder \<times> 'v) list \<Rightarrow> bool" where
  "ordered xs \<equiv> sorted (map fst xs)"

lemma up_to_eq: "ordered xs \<Longrightarrow> up_to k xs = filter (\<lambda>p. fst p \<le> k) xs"
  by (induction xs) (auto simp: up_to_def not_le intro!: filter_False [symmetric] dest: order_less_le_trans)

lemma beyond_eq: "ordered xs \<Longrightarrow> beyond k xs = filter (\<lambda>p. k < fst p) xs"
proof (induction xs)
  case (Cons p xs)
  then show ?case by (auto simp: beyond_def not_le intro!: filter_True [symmetric])
qed (simp add: beyond_def)

lemma mset_mm_insert [simp]: "mset (mm_insert k v xs) = add_mset (k, v) (mset xs)"
proof -
  have "mset (takeWhile (\<lambda>p. fst p \<le> k) xs) + mset (dropWhile (\<lambda>p. fst p \<le> k) xs) = mset xs"
    by (metis mset_append takeWhile_dropWhile_id)
  then show ?thesis by (simp add: mm_insert_def)
qed

lemma set_mm_insert [simp]: "set (mm_insert k v xs) = insert (k, v) (set xs)"
  by (metis mset_mm_insert set_mset_add_mset_insert set_mset_mset)

lemma ordered_mm_insert: "ordered xs \<Longrightarrow> ordered (mm_insert k v xs)"
proof -
  assume "ordered xs"
  then have "ordered (up_to k xs @ (k, v) # beyond k xs)"
    by (auto simp: up_to_eq beyond_eq sorted_append sorted_filter)
  then show ?thesis by (simp add: mm_insert_def up_to_def beyond_def)
qed

lemma equal_range_mm_insert:
  "ordered xs \<Longrightarrow> equal_range k (mm_insert j v xs) = equal_range k xs @ (if k = j then [v] else [])"
proof -
  assume "ordered xs"
  then have "filter (\<lambda>p. fst p = k) xs =
      filter (\<lambda>p. fst p = k) (up_to j xs) @ filter (\<lambda>p. fst p = k) (beyond j xs)"
    by (simp add: up_to_def beyond_def flip: filter_append)
  moreover have "k = j \<Longrightarrow> filter (\<lambda>p. fst p = k) (beyond j xs) = []"
    using \<open>ordered xs\<close> by (auto simp: beyond_eq filter_empty_conv)
  ultimately show ?thesis by (auto simp: equal_range_def mm_insert_def up_to_def beyond_def)
qed

lemma ordered_filter: "ordered xs \<Longrightarrow> ordered (filter P xs)"
  by (rule sorted_filter)

lemma map_of_mm_insert:
  fixes k :: "'k::linorder" and v :: 'v
  shows "k \<notin> fst ` set xs \<Longrightarrow> map_of (mm_insert k v xs) = (map_of xs)(k \<mapsto> v)"
proof -
  assume "k \<notin> fst ` set xs"
  moreover have "set (takeWhile (\<lambda>p. fst p \<le> k) xs) \<subseteq> set xs" by (auto dest: set_takeWhileD)
  ultimately have "k \<notin> fst ` set (takeWhile (\<lambda>p. fst p \<le> k) xs)" by blast
  moreover have "map_of (ys @ (k, v) # zs) = (map_of (ys @ zs))(k \<mapsto> v)"
    if "k \<notin> fst ` set ys" for ys zs
    using that by (induction ys) (auto simp: fun_upd_twist)
  ultimately have "map_of (mm_insert k v xs) =
      (map_of (takeWhile (\<lambda>p. fst p \<le> k) xs @ dropWhile (\<lambda>p. fst p \<le> k) xs))(k \<mapsto> v)"
    unfolding mm_insert_def by blast
  then show ?thesis by simp
qed

section \<open>Things that wait for their time\<close>

text \<open>
  A queue holds pairs of a time and a value. \<open>due now\<close> are those whose time has come, in the order of
  their times, \<open>rest now\<close> is the queue without them. \<open>content\<close> is the abstract value of a queue.
\<close>

locale delay_queue =
  fixes insert :: "'k::linorder \<Rightarrow> 'v \<Rightarrow> 'q \<Rightarrow> 'q"
    and due :: "'k \<Rightarrow> 'q \<Rightarrow> ('k \<times> 'v) list"
    and rest :: "'k \<Rightarrow> 'q \<Rightarrow> 'q"
    and content :: "'q \<Rightarrow> ('k \<times> 'v) multiset"
    and wf :: "'q \<Rightarrow> bool"
  assumes content_insert: "wf q \<Longrightarrow> content (insert k v q) = add_mset (k, v) (content q)"
    and content_due: "wf q \<Longrightarrow> mset (due now q) = filter_mset (\<lambda>p. fst p \<le> now) (content q)"
    and content_rest: "wf q \<Longrightarrow> content (rest now q) = filter_mset (\<lambda>p. now < fst p) (content q)"
    and due_ordered: "wf q \<Longrightarrow> ordered (due now q)"
    and wf_insert: "wf q \<Longrightarrow> wf (insert k v q)"
    and wf_rest: "wf q \<Longrightarrow> wf (rest now q)"
begin

lemma due_and_rest: "wf q \<Longrightarrow> mset (due now q) + content (rest now q) = content q"
  by (simp add: content_due content_rest not_le [symmetric] multiset_partition [symmetric])

fun insert_all :: "('k \<times> 'v) list \<Rightarrow> 'q \<Rightarrow> 'q" where
  "insert_all [] q = q"
| "insert_all (p # ps) q = insert_all ps (insert (fst p) (snd p) q)"

lemma insert_all: "wf q \<Longrightarrow> content (insert_all ps q) = mset ps + content q \<and> wf (insert_all ps q)"
  by (induction ps arbitrary: q) (simp_all add: content_insert wf_insert)

text \<open>A look at the queue every now and then: nothing is lost, nothing comes twice or too early.\<close>

fun serve :: "('k \<times> ('k \<times> 'v) list) list \<Rightarrow> 'q \<Rightarrow> ('k \<times> ('k \<times> 'v) list) list \<times> 'q" where
  "serve [] q = ([], q)"
| "serve ((now, ps) # es) q =
     (let q' = insert_all ps q
      in case serve es (rest now q') of (out, q'') \<Rightarrow> ((now, due now q') # out, q''))"

lemma serve_conserves:
  assumes "wf q" and "serve es q = (out, q')"
  shows "mset (concat (map snd out)) + content q' = mset (concat (map snd es)) + content q \<and> wf q'"
  using assms
proof (induction es arbitrary: q out q')
  case (Cons e es)
  obtain now ps where e: "e = (now, ps)" by (rule prod.exhaust)
  let ?q = "insert_all ps q"
  obtain out1 q1 where s: "serve es (rest now ?q) = (out1, q1)" by (rule prod.exhaust)
  have wf: "wf ?q" and c: "content ?q = mset ps + content q"
    using insert_all [OF Cons.prems(1)] by auto
  from Cons.prems(2) s have out: "out = (now, due now ?q) # out1" "q' = q1" by (simp_all add: e Let_def)
  from Cons.IH [OF wf_rest [OF wf] s] due_and_rest [OF wf, of now] c show ?case
    by (simp add: out e) (metis (no_types, lifting) add.assoc add.commute)
qed simp

lemma serve_on_time:
  assumes "wf q" and "serve es q = (out, q')" and "(now, ps) \<in> set out"
  shows "ordered ps \<and> (\<forall>p \<in> set ps. fst p \<le> now)"
  using assms
proof (induction es arbitrary: q out q')
  case (Cons e es)
  obtain now' ps' where e: "e = (now', ps')" by (rule prod.exhaust)
  let ?q = "insert_all ps' q"
  obtain out1 q1 where s: "serve es (rest now' ?q) = (out1, q1)" by (rule prod.exhaust)
  have wf: "wf ?q" using insert_all [OF Cons.prems(1)] by auto
  from Cons.prems(2,3) s have "(now, ps) = (now', due now' ?q) \<or> (now, ps) \<in> set out1"
    by (auto simp: e Let_def)
  moreover have "\<forall>p \<in> set (due now' ?q). fst p \<le> now'"
    using arg_cong [OF content_due [OF wf, of now'], of set_mset] by auto
  ultimately show ?case using Cons.IH [OF wf_rest [OF wf] s] due_ordered [OF wf] by auto
qed simp

end

interpretation multimap_queue: delay_queue mm_insert up_to beyond mset ordered
  by unfold_locales
     (simp_all add: up_to_eq beyond_eq ordered_filter ordered_mm_insert)

end
