(* ===== verification/Udp.thy ===== *)
theory Udp
  imports Messages Text Ordered_Map
begin

text \<open>
  The simulation of packets without audio (\<open>NetSimUDP\<close>, \<open>src/apps/netsim_udp/main.cpp\<close>): a packet that
  a modem sends over UDP waits for the impulse response between the two modems, is dropped or kept by
  chance, and a kept one is delivered once its travel time has passed.

  Parameters: \<open>modem_api\<close> holds what the code uses of goby, protobuf and boost units (the modem
  messages, their serialisation, the conversion of seconds to microseconds, the linear
  interpolation); \<open>draws\<close> holds the outcomes of the random distributions; \<open>request_clock\<close> the time at
  which a request is made.
\<close>

section \<open>Configuration and state\<close>

record ('m, 'e) modem_api =
  parse_tx :: "string \<Rightarrow> 'm"
  is_ack :: "'m \<Rightarrow> bool"
  tx_dest :: "'m \<Rightarrow> int"
  tx_time :: "'m \<Rightarrow> int"
  add_one_way_travel_time :: "'m \<Rightarrow> fp \<Rightarrow> 'm"
  serialize_tx :: "'m \<Rightarrow> string"
  BROADCAST_ID :: int
  serialize_endpoint :: "'e \<Rightarrow> string"
  to_micro_time :: "fp \<Rightarrow> int"
  linear_interpolate :: "fp \<Rightarrow> (fp \<times> fp) list \<Rightarrow> fp"

record 'e modem_end_point =
  modem_tcp_port :: "32 word"
  modem_id :: "32 word"
  endpoint :: 'e

datatype packet_success_method = ALL_PACKETS_SUCCEED | RANGE_TABLE | MPP

record 'e udp_config =
  cfg_modems :: "'e modem_end_point list"
  send_all_as_broadcast :: bool
  success_method :: packet_success_method
  range_to_packet_success :: "(fp \<times> fp) list"
  sound_speed :: fp

record modem_pair_performance =
  perf_src_id :: int
  perf_dest_id :: int
  mpp :: fp

record 'e io_data =
  io_dest :: 'e
  io_bytes :: string

text \<open>
  \<open>forward_buffer_[src]\<close> is the value of \<open>forward_buffer\<close> at \<open>src\<close>, empty where the map has no entry.
  The two request counters are the static variables of the functions that use them.
\<close>

record ('m, 'e) udp =
  udp_modems :: "(int \<times> 'e modem_end_point) list"
  endpoint_to_id :: "string \<rightharpoonup> int"
  tcp_port_to_id :: "string \<rightharpoonup> int"
  perf_table :: "modem_pair_performance list"
  forward_buffer :: "int \<Rightarrow> (int \<times> 'm) list"
  delay_buffer :: "(int \<times> 'e io_data) list"
  range_table :: "(fp \<times> fp) list"
  imp_req_id :: "32 word"
  perf_req_id :: "32 word"

definition insert_new :: "'k \<Rightarrow> 'v \<Rightarrow> ('k \<rightharpoonup> 'v) \<Rightarrow> ('k \<rightharpoonup> 'v)" where
  "insert_new k v m = (if m k = None then m(k \<mapsto> v) else m)"

text \<open>\<open>std::to_string\<close> of an unsigned number.\<close>

definition port_name :: "32 word \<Rightarrow> string" where
  "port_name p = dec (int (unat p))"

fun add_modems ::
    "('m, 'e) modem_api \<Rightarrow> 'e modem_end_point list \<Rightarrow> ('m, 'e) udp \<Rightarrow> ('m, 'e) udp" where
  "add_modems api [] s = s"
| "add_modems api (m # ms) s =
     add_modems api ms
       (s\<lparr>udp_modems := map_insert (sint (modem_id m)) m (udp_modems s),
          endpoint_to_id := insert_new (serialize_endpoint api (endpoint m)) (sint (modem_id m)) (endpoint_to_id s),
          tcp_port_to_id := insert_new (port_name (modem_tcp_port m)) (sint (modem_id m)) (tcp_port_to_id s)\<rparr>)"

text \<open>
  The table from range to probability is a \<open>std::map\<close> whose keys are compared with \<open><\<close>: a range is new
  when it is below or above every other one.
\<close>

fun add_ranges :: "(fp \<times> fp) list \<Rightarrow> (fp \<times> fp) list \<Rightarrow> (fp \<times> fp) list" where
  "add_ranges [] t = t"
| "add_ranges (rp # rps) t =
     add_ranges rps (if \<forall>q \<in> set t. fst rp < fst q \<or> fst q < fst rp then t @ [rp] else t)"

text \<open>One entry for every two modems, in the order of the two loops.\<close>

definition perf_pairs :: "int list \<Rightarrow> modem_pair_performance list" where
  "perf_pairs ids =
     concat (map (\<lambda>i. map (\<lambda>j. \<lparr>perf_src_id = ids ! i, perf_dest_id = ids ! j, mpp = Fin 80\<rparr>) [0..<i])
                 [0..<length ids])"

definition udp_init :: "('m, 'e) modem_api \<Rightarrow> 'e udp_config \<Rightarrow> ('m, 'e) udp res" where
  "udp_init api cfg =
     (let ranges = add_ranges (range_to_packet_success cfg) []
      in if success_method cfg = RANGE_TABLE \<and> length ranges < 2 then Inl Die
         else Inr (add_modems api (cfg_modems cfg)
           \<lparr>udp_modems = [], endpoint_to_id = Map.empty, tcp_port_to_id = Map.empty,
            perf_table = (if success_method cfg = MPP
                          then perf_pairs (map (\<lambda>m. sint (modem_id m)) (cfg_modems cfg)) else []),
            forward_buffer = (\<lambda>_. []), delay_buffer = [], range_table = ranges,
            imp_req_id = 0, perf_req_id = 0\<rparr>))"

section \<open>Packets from the modems\<close>

datatype 'e udp_output =
    Udp_Out "'e io_data" | Impulse_Req impulse_request | Performance_Req objfunc_request

record request_clock =
  imp_request_time :: "32 word \<Rightarrow> fp"
  perf_request_time :: "32 word \<Rightarrow> fp"

text \<open>\<open>modems_.at(id)\<close>\<close>

definition modem_at :: "('m, 'e) udp \<Rightarrow> int \<Rightarrow> 'e modem_end_point res" where
  "modem_at s i = (case map_of (udp_modems s) i of None \<Rightarrow> Inl Out_Of_Range | Some m \<Rightarrow> Inr m)"

definition port_at :: "('m, 'e) udp \<Rightarrow> int \<Rightarrow> string res" where
  "port_at s i = res_bind (modem_at s i) (\<lambda>m. Inr (port_name (modem_tcp_port m)))"

definition performance_request ::
    "request_clock \<Rightarrow> int \<Rightarrow> int \<Rightarrow> ('m, 'e) udp \<Rightarrow> (('m, 'e) udp \<times> 'e udp_output list) res" where
  "performance_request clk src_id dest_id s =
     res_bind (port_at s src_id) (\<lambda>contact. res_bind (port_at s dest_id) (\<lambda>node.
       Inr (s\<lparr>perf_req_id := perf_req_id s + 1\<rparr>,
            [Performance_Req \<lparr>oreq_contact = contact, oreq_requestor = ''netsim_udp'', oreq_receivers = [node],
               oreq_request_id = sint (perf_req_id s),
               oreq_request_time = perf_request_time clk (perf_req_id s)\<rparr>])))"

definition forward_packet ::
    "'e udp_config \<Rightarrow> request_clock \<Rightarrow> int \<Rightarrow> int \<Rightarrow> 'm \<Rightarrow> ('m, 'e) udp
      \<Rightarrow> (('m, 'e) udp \<times> 'e udp_output list) res" where
  "forward_packet cfg clk src_id dest_id msg s =
     res_bind (if success_method cfg = MPP then performance_request clk src_id dest_id s else Inr (s, []))
       (\<lambda>(s1, out1). res_bind (port_at s1 src_id) (\<lambda>source. res_bind (port_at s1 dest_id) (\<lambda>receiver.
          Inr (s1\<lparr>imp_req_id := imp_req_id s1 + 1,
                  forward_buffer := (forward_buffer s1)
                    (src_id := mm_insert dest_id msg (forward_buffer s1 src_id))\<rparr>,
               out1 @ [Impulse_Req \<lparr>ireq_source = source, ireq_receiver = receiver,
                         ireq_request_id = sint (imp_req_id s1),
                         ireq_request_time = imp_request_time clk (imp_req_id s1)\<rparr>]))))"

fun forward_to ::
    "'e udp_config \<Rightarrow> request_clock \<Rightarrow> int \<Rightarrow> int list \<Rightarrow> 'm \<Rightarrow> ('m, 'e) udp
      \<Rightarrow> (('m, 'e) udp \<times> 'e udp_output list) res" where
  "forward_to cfg clk src_id [] msg s = Inr (s, [])"
| "forward_to cfg clk src_id (d # ds) msg s =
     res_bind (forward_packet cfg clk src_id d msg s) (\<lambda>(s1, out1).
       res_bind (forward_to cfg clk src_id ds msg s1) (\<lambda>(s2, out2). Inr (s2, out1 @ out2)))"

text \<open>The modems a message of \<open>src_id\<close> goes to.\<close>

definition destinations :: "('m, 'e) modem_api \<Rightarrow> 'e udp_config \<Rightarrow> ('m, 'e) udp \<Rightarrow> int \<Rightarrow> 'm \<Rightarrow> int list" where
  "destinations api cfg s src_id msg =
     (if \<not> is_ack api msg \<and> (send_all_as_broadcast cfg \<or> tx_dest api msg = BROADCAST_ID api)
      then filter (\<lambda>i. i \<noteq> src_id) (map fst (udp_modems s))
      else if tx_dest api msg \<in> fst ` set (udp_modems s) then [tx_dest api msg]
      else [])"

definition udp_received ::
    "('m, 'e) modem_api \<Rightarrow> 'e udp_config \<Rightarrow> request_clock \<Rightarrow> 'e \<Rightarrow> string \<Rightarrow> ('m, 'e) udp
      \<Rightarrow> (('m, 'e) udp \<times> 'e udp_output list) res" where
  "udp_received api cfg clk udp_src bytes s =
     (let msg = parse_tx api bytes
      in case endpoint_to_id s (serialize_endpoint api udp_src) of
           None \<Rightarrow> Inr (s, [])
         | Some src_id \<Rightarrow> forward_to cfg clk src_id (destinations api cfg s src_id msg) msg s)"

section \<open>Delivery\<close>

definition udp_loop :: "int \<Rightarrow> ('m, 'e) udp \<Rightarrow> ('m, 'e) udp \<times> 'e udp_output list" where
  "udp_loop now s =
     (s\<lparr>delay_buffer := beyond now (delay_buffer s)\<rparr>,
      map (\<lambda>p. Udp_Out (snd p)) (up_to now (delay_buffer s)))"

section \<open>Performance of a pair of modems\<close>

definition mpp_probab :: "modem_pair_performance \<Rightarrow> fp" where
  "mpp_probab p =
     std_max (Fin 0) (std_min (Fin 1)
       (d_div (d_add (d_div (d_mul (d_sub (mpp p) (Fin 30)) (Fin 80)) (Fin 50)) (Fin 20)) (Fin 100)))"

definition is_pair :: "int \<Rightarrow> int \<Rightarrow> modem_pair_performance \<Rightarrow> bool" where
  "is_pair src_id dest_id p \<longleftrightarrow>
     src_id = perf_src_id p \<and> dest_id = perf_dest_id p \<or> dest_id = perf_src_id p \<and> src_id = perf_dest_id p"

fun set_performance ::
    "int \<Rightarrow> objfunc_receiver list \<Rightarrow> ('m, 'e) udp \<Rightarrow> ('m, 'e) udp res" where
  "set_performance src_id [] s = Inr s"
| "set_performance src_id (r # rs) s =
     (case tcp_port_to_id s (orsp_node r) of
        None \<Rightarrow> Inl Out_Of_Range
      | Some dest_id \<Rightarrow>
          set_performance src_id rs
            (s\<lparr>perf_table := map (\<lambda>p. if is_pair src_id dest_id p then p\<lparr>mpp := orsp_mpp r\<rparr> else p)
                               (perf_table s)\<rparr>))"

definition process_performance_response ::
    "objfunc_response \<Rightarrow> ('m, 'e) udp \<Rightarrow> ('m, 'e) udp res" where
  "process_performance_response r s =
     (case tcp_port_to_id s (orsp_contact r) of
        None \<Rightarrow> Inr s
      | Some src_id \<Rightarrow> set_performance src_id (orsp_receivers r) s)"

definition mpp_transmit_probability :: "('m, 'e) udp \<Rightarrow> int \<Rightarrow> int \<Rightarrow> fp" where
  "mpp_transmit_probability s src_id dest_id =
     (case find (is_pair src_id dest_id) (perf_table s) of None \<Rightarrow> Fin 0 | Some p \<Rightarrow> mpp_probab p)"

section \<open>Impulse responses\<close>

text \<open>
  The delay of the strongest ray; \<open>None\<close> is the uninitialised variable. The bounces are added up and
  not used.
\<close>

fun scan_rays :: "raytrace list \<Rightarrow> fp \<Rightarrow> fp option \<Rightarrow> fp option res" where
  "scan_rays [] max_amp delay = Inr delay"
| "scan_rays (r # rs) max_amp delay =
     (if max_amp < fp_abs (amplitude r)
      then (case element_delays r of
              [] \<Rightarrow> Inl Undefined_Behaviour
            | d # _ \<Rightarrow> scan_rays rs (fp_abs (amplitude r)) (Some d))
      else scan_rays rs max_amp delay)"

definition travel_time :: "impulse_response \<Rightarrow> fp res" where
  "travel_time r =
     res_bind (scan_rays (raytraces r) (Fin 0) None)
       (\<lambda>delay. case delay of None \<Rightarrow> Inl Undefined_Behaviour | Some d \<Rightarrow> Inr d)"

text \<open>
  \<open>coin n p\<close> is the outcome of \<open>std::bernoulli_distribution\<close> with probability \<open>p\<close> for the \<open>n\<close>-th packet of a
  response; the distribution requires a probability.
\<close>

record draws =
  outlier :: bool
  outlier_dowtt :: fp
  coin :: "nat \<Rightarrow> fp \<Rightarrow> bool"

definition success_probability ::
    "('m, 'e) modem_api \<Rightarrow> 'e udp_config \<Rightarrow> ('m, 'e) udp \<Rightarrow> int \<Rightarrow> int \<Rightarrow> fp \<Rightarrow> fp" where
  "success_probability api cfg s src_id dest_id owtt =
     (case success_method cfg of
        RANGE_TABLE \<Rightarrow> linear_interpolate api (d_mul owtt (sound_speed cfg)) (range_table s)
      | MPP \<Rightarrow> mpp_transmit_probability s src_id dest_id
      | ALL_PACKETS_SUCCEED \<Rightarrow> Fin 0)"

definition packet_success ::
    "('m, 'e) modem_api \<Rightarrow> 'e udp_config \<Rightarrow> draws \<Rightarrow> ('m, 'e) udp \<Rightarrow> int \<Rightarrow> int \<Rightarrow> fp \<Rightarrow> nat \<Rightarrow> bool res" where
  "packet_success api cfg dr s src_id dest_id owtt n =
     (if success_method cfg = ALL_PACKETS_SUCCEED then Inr True
      else
        let p = success_probability api cfg s src_id dest_id owtt
        in if Fin 0 \<le> p \<and> p \<le> Fin 1 then Inr (coin dr n p) else Inl Undefined_Behaviour)"

text \<open>Addition of two \<open>int64_t\<close>.\<close>

definition add_int64 :: "int \<Rightarrow> int \<Rightarrow> int res" where
  "add_int64 a b = (if - (2 ^ 63) \<le> a + b \<and> a + b < 2 ^ 63 then Inr (a + b) else Inl Undefined_Behaviour)"

fun deliver ::
    "('m, 'e) modem_api \<Rightarrow> 'e udp_config \<Rightarrow> draws \<Rightarrow> int \<Rightarrow> int \<Rightarrow> fp \<Rightarrow> nat \<Rightarrow> 'm list
      \<Rightarrow> ('m, 'e) udp \<Rightarrow> ('m, 'e) udp res" where
  "deliver api cfg dr src_id dest_id owtt n [] s = Inr s"
| "deliver api cfg dr src_id dest_id owtt n (msg # msgs) s =
     res_bind (packet_success api cfg dr s src_id dest_id owtt n) (\<lambda>ok.
       if ok
       then
         res_bind (modem_at s dest_id) (\<lambda>m.
           let io = \<lparr>io_dest = endpoint m, io_bytes = serialize_tx api (add_one_way_travel_time api msg owtt)\<rparr>
           in res_bind (add_int64 (tx_time api msg) (to_micro_time api owtt)) (\<lambda>resend_time.
                deliver api cfg dr src_id dest_id owtt (Suc n) msgs
                  (s\<lparr>delay_buffer := mm_insert resend_time io (delay_buffer s)\<rparr>)))
       else deliver api cfg dr src_id dest_id owtt (Suc n) msgs s)"

definition release ::
    "int \<Rightarrow> int \<Rightarrow> ('m, 'e) udp \<Rightarrow> ('m, 'e) udp" where
  "release src_id dest_id s =
     s\<lparr>forward_buffer := (forward_buffer s)(src_id := erase_key dest_id (forward_buffer s src_id))\<rparr>"

definition process_impulse_response ::
    "('m, 'e) modem_api \<Rightarrow> 'e udp_config \<Rightarrow> draws \<Rightarrow> impulse_response \<Rightarrow> ('m, 'e) udp \<Rightarrow> ('m, 'e) udp res" where
  "process_impulse_response api cfg dr r s =
     (case tcp_port_to_id s (irsp_source r) of
        None \<Rightarrow> Inr s
      | Some src_id \<Rightarrow>
          (case tcp_port_to_id s (irsp_receiver r) of
             None \<Rightarrow> Inl Out_Of_Range
           | Some dest_id \<Rightarrow>
               if dest_id = 0 then Inr s
               else if raytraces r \<noteq> []
               then
                 res_bind (travel_time r) (\<lambda>first_arrival.
                   let owtt = d_add first_arrival (if outlier dr then outlier_dowtt dr else Fin 0)
                   in res_bind (deliver api cfg dr src_id dest_id owtt 0
                                  (equal_range dest_id (forward_buffer s src_id)) s)
                        (\<lambda>s'. Inr (release src_id dest_id s')))
               else Inr (release src_id dest_id s)))"

section \<open>The application\<close>

datatype 'e udp_event =
    Udp_In 'e string
  | Loop int
  | Impulse_Resp impulse_response draws
  | Performance_Resp objfunc_response

fun udp_handle ::
    "('m, 'e) modem_api \<Rightarrow> 'e udp_config \<Rightarrow> request_clock
      \<Rightarrow> ('e udp_event, ('m, 'e) udp, 'e udp_output) handler" where
  "udp_handle api cfg clk (Udp_In udp_src bytes) s = udp_received api cfg clk udp_src bytes s"
| "udp_handle api cfg clk (Loop now) s = Inr (udp_loop now s)"
| "udp_handle api cfg clk (Impulse_Resp r dr) s =
     res_bind (process_impulse_response api cfg dr r s) (\<lambda>s'. Inr (s', []))"
| "udp_handle api cfg clk (Performance_Resp r) s =
     (if success_method cfg = MPP
      then res_bind (process_performance_response r s) (\<lambda>s'. Inr (s', [])) else Inr (s, []))"

section \<open>The maps of the configuration\<close>

definition modem_ids :: "('m, 'e) udp \<Rightarrow> int set" where
  "modem_ids s = fst ` set (udp_modems s)"

definition port_names :: "'e modem_end_point list \<Rightarrow> string set" where
  "port_names ms = (\<lambda>m. port_name (modem_tcp_port m)) ` set ms"

lemma fst_set_map_insert [simp]: "fst ` set (map_insert k v xs) = insert k (fst ` set xs)"
  by (auto simp: map_insert_def)

lemma ordered_map_insert: "ordered xs \<Longrightarrow> ordered (map_insert k v xs)"
  by (simp add: map_insert_def ordered_mm_insert)

lemma distinct_map_insert: "distinct (map fst xs) \<Longrightarrow> distinct (map fst (map_insert k v xs))"
proof -
  have "mset (map fst (mm_insert k v xs)) = mset (k # map fst xs)" by simp
  then have "distinct (map fst (mm_insert k v xs)) = distinct (k # map fst xs)"
    by (rule mset_eq_imp_distinct_iff)
  then show "distinct (map fst xs) \<Longrightarrow> ?thesis" by (simp add: map_insert_def)
qed

lemma dom_insert_new [simp]: "dom (insert_new k v m) = insert k (dom m)"
  by (auto simp: insert_new_def)

lemma ran_insert_new: "ran m \<subseteq> A \<Longrightarrow> ran (insert_new k v m) \<subseteq> insert v A"
  by (auto simp: insert_new_def ran_def)

text \<open>
  Whatever the two maps return is the number of a modem, the names of all modems are known, and both
  buffers are in order; \<open>2 ^ 62\<close> microseconds keep the sum of two times within 64 bits.
\<close>

definition maps_inv :: "'e modem_end_point list \<Rightarrow> ('m, 'e) udp \<Rightarrow> bool" where
  "maps_inv ms s \<longleftrightarrow>
     ran (endpoint_to_id s) \<subseteq> modem_ids s \<and> ran (tcp_port_to_id s) \<subseteq> modem_ids s
     \<and> dom (tcp_port_to_id s) = port_names ms
     \<and> ordered (udp_modems s) \<and> distinct (map fst (udp_modems s))"

definition buffers_inv :: "('m, 'e) modem_api \<Rightarrow> ('m, 'e) udp \<Rightarrow> bool" where
  "buffers_inv api s \<longleftrightarrow>
     ordered (delay_buffer s)
     \<and> (\<forall>src. ordered (forward_buffer s src)
          \<and> (\<forall>(d, m) \<in> set (forward_buffer s src). d \<in> modem_ids s \<and> \<bar>tx_time api m\<bar> < 2 ^ 62))"

definition udp_inv :: "('m, 'e) modem_api \<Rightarrow> 'e udp_config \<Rightarrow> ('m, 'e) udp \<Rightarrow> bool" where
  "udp_inv api cfg s \<longleftrightarrow>
     maps_inv (cfg_modems cfg) s \<and> range_table s = add_ranges (range_to_packet_success cfg) []
     \<and> buffers_inv api s"

lemma add_modems_maps:
  "maps_inv ms0 s \<Longrightarrow> maps_inv (ms0 @ ms) (add_modems api ms s)"
proof (induction ms arbitrary: ms0 s)
  case Nil
  then show ?case by simp
next
  case (Cons m ms)
  have "maps_inv (ms0 @ [m])
      (s\<lparr>udp_modems := map_insert (sint (modem_id m)) m (udp_modems s),
         endpoint_to_id := insert_new (serialize_endpoint api (endpoint m)) (sint (modem_id m)) (endpoint_to_id s),
         tcp_port_to_id := insert_new (port_name (modem_tcp_port m)) (sint (modem_id m)) (tcp_port_to_id s)\<rparr>)"
    using Cons.prems
    by (simp add: maps_inv_def modem_ids_def port_names_def ordered_map_insert distinct_map_insert
        ran_insert_new)
  from Cons.IH [OF this] show ?case by simp
qed

lemma add_modems_other [simp]:
  "forward_buffer (add_modems api ms s) = forward_buffer s"
  "delay_buffer (add_modems api ms s) = delay_buffer s"
  "range_table (add_modems api ms s) = range_table s"
  "perf_table (add_modems api ms s) = perf_table s"
  by (induction ms arbitrary: s) simp_all

lemma udp_init_inv: "udp_init api cfg = Inr s \<Longrightarrow> udp_inv api cfg s"
proof -
  assume "udp_init api cfg = Inr s"
  then have s: "s = add_modems api (cfg_modems cfg)
      \<lparr>udp_modems = [], endpoint_to_id = Map.empty, tcp_port_to_id = Map.empty,
       perf_table = (if success_method cfg = MPP
                     then perf_pairs (map (\<lambda>m. sint (modem_id m)) (cfg_modems cfg)) else []),
       forward_buffer = (\<lambda>_. []), delay_buffer = [], range_table = add_ranges (range_to_packet_success cfg) [],
       imp_req_id = 0, perf_req_id = 0\<rparr>" (is "_ = add_modems _ _ ?s")
    by (simp add: udp_init_def Let_def split: if_splits)
  have "maps_inv [] ?s" by (simp add: maps_inv_def modem_ids_def port_names_def)
  from add_modems_maps [OF this, of "cfg_modems cfg" api] show ?thesis
    by (simp add: udp_inv_def buffers_inv_def s)
qed

section \<open>Forwarding\<close>

lemma modem_at_ok: "i \<in> modem_ids s \<Longrightarrow> \<exists>m. modem_at s i = Inr m \<and> (i, m) \<in> set (udp_modems s)"
  by (cases "map_of (udp_modems s) i")
     (auto simp: modem_at_def modem_ids_def map_of_eq_None_iff dest: map_of_SomeD)

lemma port_at_ok: "i \<in> modem_ids s \<Longrightarrow> \<exists>p. port_at s i = Inr p"
  using modem_at_ok [of i s] by (auto simp: port_at_def)

text \<open>What forwarding keeps: everything but the forward buffer and the counters.\<close>

definition same_tables :: "('m, 'e) udp \<Rightarrow> ('m, 'e) udp \<Rightarrow> bool" where
  "same_tables s s' \<longleftrightarrow>
     udp_modems s' = udp_modems s \<and> endpoint_to_id s' = endpoint_to_id s
     \<and> tcp_port_to_id s' = tcp_port_to_id s \<and> range_table s' = range_table s"

lemma same_tables_refl [simp]: "same_tables s s"
  by (simp add: same_tables_def)

lemma same_tables_trans: "same_tables s s' \<Longrightarrow> same_tables s' s'' \<Longrightarrow> same_tables s s''"
  by (simp add: same_tables_def)

lemma same_tables_inv: "same_tables s s' \<Longrightarrow> maps_inv ms s' = maps_inv ms s \<and> modem_ids s' = modem_ids s"
  by (simp add: same_tables_def maps_inv_def modem_ids_def)

text \<open>The port of a modem as it stands in a request, and the pairs of ports a list of outputs asks about.\<close>

definition port_text :: "('m, 'e) udp \<Rightarrow> int \<Rightarrow> string" where
  "port_text s i = (case port_at s i of Inl f \<Rightarrow> '''' | Inr p \<Rightarrow> p)"

fun impulse_reqs :: "'e udp_output \<Rightarrow> impulse_request list" where
  "impulse_reqs (Impulse_Req r) = [r]"
| "impulse_reqs (Performance_Req r) = []"
| "impulse_reqs (Udp_Out io) = []"

text \<open>The state and the output of forwarding one message to a modem, when both modems exist.\<close>

definition requests :: "'e udp_config \<Rightarrow> request_clock \<Rightarrow> int \<Rightarrow> int \<Rightarrow> ('m, 'e) udp \<Rightarrow> 'e udp_output list" where
  "requests cfg clk src_id dest_id s =
     (let p = (\<lambda>i. case port_at s i of Inl f \<Rightarrow> '''' | Inr p \<Rightarrow> p)
      in (if success_method cfg = MPP
          then [Performance_Req \<lparr>oreq_contact = p src_id, oreq_requestor = ''netsim_udp'',
                  oreq_receivers = [p dest_id], oreq_request_id = sint (perf_req_id s),
                  oreq_request_time = perf_request_time clk (perf_req_id s)\<rparr>] else [])
         @ [Impulse_Req \<lparr>ireq_source = p src_id, ireq_receiver = p dest_id,
              ireq_request_id = sint (imp_req_id s), ireq_request_time = imp_request_time clk (imp_req_id s)\<rparr>])"

definition forwarded :: "'e udp_config \<Rightarrow> int \<Rightarrow> int \<Rightarrow> 'm \<Rightarrow> ('m, 'e) udp \<Rightarrow> ('m, 'e) udp" where
  "forwarded cfg src_id dest_id msg s =
     s\<lparr>perf_req_id := perf_req_id s + (if success_method cfg = MPP then 1 else 0),
       imp_req_id := imp_req_id s + 1,
       forward_buffer := (forward_buffer s)(src_id := mm_insert dest_id msg (forward_buffer s src_id))\<rparr>"

lemma port_at_same: "same_tables s s' \<Longrightarrow> port_at s' i = port_at s i"
  by (simp add: port_at_def modem_at_def same_tables_def)

lemma forward_packet_eq:
  assumes "src_id \<in> modem_ids s" and "dest_id \<in> modem_ids s"
  shows "forward_packet cfg clk src_id dest_id msg s =
    Inr (forwarded cfg src_id dest_id msg s, requests cfg clk src_id dest_id s)"
proof -
  from assms port_at_ok obtain p q where "port_at s src_id = Inr p" "port_at s dest_id = Inr q" by metis
  moreover from this have "port_at (s\<lparr>perf_req_id := perf_req_id s + 1\<rparr>) src_id = Inr p"
    "port_at (s\<lparr>perf_req_id := perf_req_id s + 1\<rparr>) dest_id = Inr q"
    by (simp_all add: port_at_def modem_at_def)
  ultimately show ?thesis
    by (simp add: forward_packet_def performance_request_def forwarded_def requests_def)
qed

lemma port_text_same: "same_tables s s' \<Longrightarrow> port_text s' i = port_text s i"
  by (simp add: port_text_def port_at_same)

lemma impulse_reqs_requests:
  "map (\<lambda>r. (ireq_source r, ireq_receiver r)) (concat (map impulse_reqs (requests cfg clk src_id d s))) =
     [(port_text s src_id, port_text s d)]"
  by (simp add: requests_def port_text_def Let_def)

lemma forwarded_same: "same_tables s (forwarded cfg src_id dest_id msg s)"
  by (simp add: forwarded_def same_tables_def)

lemma forwarded_buffers:
  assumes "buffers_inv api s" and "dest_id \<in> modem_ids s" and "\<bar>tx_time api msg\<bar> < 2 ^ 62"
  shows "buffers_inv api (forwarded cfg src_id dest_id msg s)"
  using assms by (auto simp: buffers_inv_def forwarded_def modem_ids_def ordered_mm_insert)

text \<open>Forwarding to several modems.\<close>

lemma forward_to_eq:
  assumes "src_id \<in> modem_ids s" and "set ds \<subseteq> modem_ids s" and "\<forall>src. ordered (forward_buffer s src)"
  shows "\<exists>s' out. forward_to cfg clk src_id ds msg s = Inr (s', out) \<and> same_tables s s'
     \<and> delay_buffer s' = delay_buffer s \<and> perf_table s' = perf_table s
     \<and> (\<forall>src. ordered (forward_buffer s' src))
     \<and> (\<forall>src d. equal_range d (forward_buffer s' src) =
          equal_range d (forward_buffer s src) @
          (if src = src_id then map (\<lambda>_. msg) (filter (\<lambda>i. i = d) ds) else []))
     \<and> map (\<lambda>r. (ireq_source r, ireq_receiver r)) (concat (map impulse_reqs out)) =
          map (\<lambda>d. (port_text s src_id, port_text s d)) ds
     \<and> (buffers_inv api s \<longrightarrow> \<bar>tx_time api msg\<bar> < 2 ^ 62 \<longrightarrow> buffers_inv api s')"
  using assms
proof (induction ds arbitrary: s)
  case Nil
  then show ?case by simp
next
  case (Cons d ds)
  let ?s = "forwarded cfg src_id d msg s"
  have same: "same_tables s ?s" by (rule forwarded_same)
  then have ids: "modem_ids ?s = modem_ids s" by (simp add: same_tables_inv)
  have ord: "\<forall>src. ordered (forward_buffer ?s src)"
    using Cons.prems(3) by (simp add: forwarded_def ordered_mm_insert)
  from Cons.IH [of ?s] Cons.prems(1,2) ids ord obtain s' out where
    f: "forward_to cfg clk src_id ds msg ?s = Inr (s', out)" and "same_tables ?s s'"
    and "delay_buffer s' = delay_buffer ?s" and "perf_table s' = perf_table ?s"
    and "\<forall>src. ordered (forward_buffer s' src)"
    and er: "\<forall>src e. equal_range e (forward_buffer s' src) =
          equal_range e (forward_buffer ?s src) @
          (if src = src_id then map (\<lambda>_. msg) (filter (\<lambda>i. i = e) ds) else [])"
    and "map (\<lambda>r. (ireq_source r, ireq_receiver r)) (concat (map impulse_reqs out)) =
          map (\<lambda>d. (port_text ?s src_id, port_text ?s d)) ds"
    and buf: "buffers_inv api ?s \<longrightarrow> \<bar>tx_time api msg\<bar> < 2 ^ 62 \<longrightarrow> buffers_inv api s'"
    by auto
  moreover have "\<forall>src e. equal_range e (forward_buffer ?s src) =
      equal_range e (forward_buffer s src) @ (if src = src_id \<and> e = d then [msg] else [])"
    using Cons.prems(3) by (simp add: forwarded_def equal_range_mm_insert)
  moreover have "delay_buffer ?s = delay_buffer s" "perf_table ?s = perf_table s"
    by (simp_all add: forwarded_def)
  moreover have "buffers_inv api s \<longrightarrow> \<bar>tx_time api msg\<bar> < 2 ^ 62 \<longrightarrow> buffers_inv api ?s"
    using forwarded_buffers [of api s d msg cfg src_id] Cons.prems(2) by auto
  moreover have "forward_packet cfg clk src_id d msg s = Inr (?s, requests cfg clk src_id d s)"
    using forward_packet_eq [of src_id s d] Cons.prems by auto
  ultimately show ?case
    using same_tables_trans [OF same] impulse_reqs_requests [of cfg clk src_id d s] port_text_same [OF same]
    by (auto simp: same_tables_def)
qed

section \<open>Delivery\<close>

definition survives ::
    "('m, 'e) modem_api \<Rightarrow> 'e udp_config \<Rightarrow> draws \<Rightarrow> ('m, 'e) udp \<Rightarrow> int \<Rightarrow> int \<Rightarrow> fp \<Rightarrow> nat \<Rightarrow> bool" where
  "survives api cfg dr s src_id dest_id owtt n \<longleftrightarrow>
     success_method cfg = ALL_PACKETS_SUCCEED
     \<or> coin dr n (success_probability api cfg s src_id dest_id owtt)"

definition packet_for ::
    "('m, 'e) modem_api \<Rightarrow> ('m, 'e) udp \<Rightarrow> int \<Rightarrow> fp \<Rightarrow> 'm \<Rightarrow> int \<times> 'e io_data" where
  "packet_for api s dest_id owtt msg =
     (tx_time api msg + to_micro_time api owtt,
      \<lparr>io_dest = endpoint (the (map_of (udp_modems s) dest_id)),
       io_bytes = serialize_tx api (add_one_way_travel_time api msg owtt)\<rparr>)"

text \<open>The packets that a response lets through, with their times.\<close>

definition kept ::
    "('m, 'e) modem_api \<Rightarrow> 'e udp_config \<Rightarrow> draws \<Rightarrow> ('m, 'e) udp \<Rightarrow> int \<Rightarrow> int \<Rightarrow> fp \<Rightarrow> nat \<Rightarrow> 'm list
      \<Rightarrow> (int \<times> 'e io_data) list" where
  "kept api cfg dr s src_id dest_id owtt n msgs =
     map (\<lambda>(_, msg). packet_for api s dest_id owtt msg)
       (filter (\<lambda>(i, _). survives api cfg dr s src_id dest_id owtt i) (enumerate n msgs))"

definition usable :: "('m, 'e) modem_api \<Rightarrow> 'e udp_config \<Rightarrow> ('m, 'e) udp \<Rightarrow> int \<Rightarrow> int \<Rightarrow> fp \<Rightarrow> bool" where
  "usable api cfg s src_id dest_id owtt \<longleftrightarrow>
     success_method cfg = ALL_PACKETS_SUCCEED
     \<or> Fin 0 \<le> success_probability api cfg s src_id dest_id owtt
       \<and> success_probability api cfg s src_id dest_id owtt \<le> Fin 1"

lemma success_probability_delay [simp]:
  "success_probability api cfg (s\<lparr>delay_buffer := b\<rparr>) src_id dest_id owtt =
   success_probability api cfg s src_id dest_id owtt"
  by (simp add: success_probability_def mpp_transmit_probability_def split: packet_success_method.split)

lemma kept_delay [simp]:
  "kept api cfg dr (s\<lparr>delay_buffer := b\<rparr>) src_id dest_id owtt n msgs = kept api cfg dr s src_id dest_id owtt n msgs"
  by (simp add: kept_def survives_def packet_for_def)

lemma usable_delay [simp]:
  "usable api cfg (s\<lparr>delay_buffer := b\<rparr>) src_id dest_id owtt = usable api cfg s src_id dest_id owtt"
  by (simp add: usable_def)

lemma deliver_eq:
  assumes "dest_id \<in> modem_ids s" and "usable api cfg s src_id dest_id owtt"
    and "\<forall>m \<in> set msgs. \<bar>tx_time api m\<bar> < 2 ^ 62" and "\<bar>to_micro_time api owtt\<bar> < 2 ^ 62"
  shows "deliver api cfg dr src_id dest_id owtt n msgs s =
     Inr (s\<lparr>delay_buffer := multimap_queue.insert_all (kept api cfg dr s src_id dest_id owtt n msgs) (delay_buffer s)\<rparr>)"
  using assms
proof (induction msgs arbitrary: n s)
  case Nil
  then show ?case by (simp add: kept_def)
next
  case (Cons msg msgs)
  have ok: "packet_success api cfg dr s src_id dest_id owtt n = Inr (survives api cfg dr s src_id dest_id owtt n)"
    using Cons.prems(2) by (auto simp: packet_success_def usable_def survives_def Let_def)
  show ?case
  proof (cases "survives api cfg dr s src_id dest_id owtt n")
    case False
    then have "kept api cfg dr s src_id dest_id owtt n (msg # msgs) =
        kept api cfg dr s src_id dest_id owtt (Suc n) msgs" by (simp add: kept_def)
    with False ok Cons show ?thesis by simp
  next
    case True
    then have k: "kept api cfg dr s src_id dest_id owtt n (msg # msgs) =
        packet_for api s dest_id owtt msg # kept api cfg dr s src_id dest_id owtt (Suc n) msgs"
      by (simp add: kept_def)
    obtain m where m: "map_of (udp_modems s) dest_id = Some m" "modem_at s dest_id = Inr m"
      using modem_at_ok [OF Cons.prems(1)] by (auto simp: modem_at_def split: option.splits)
    have sum: "add_int64 (tx_time api msg) (to_micro_time api owtt) = Inr (tx_time api msg + to_micro_time api owtt)"
      using Cons.prems(3,4) by (auto simp: add_int64_def)
    have IH: "deliver api cfg dr src_id dest_id owtt (Suc n) msgs (s\<lparr>delay_buffer := b\<rparr>) =
        Inr (s\<lparr>delay_buffer := multimap_queue.insert_all (kept api cfg dr s src_id dest_id owtt (Suc n) msgs) b\<rparr>)"
      for b
      using Cons.IH [of "s\<lparr>delay_buffer := b\<rparr>" "Suc n"] Cons.prems by (simp add: modem_ids_def)
    show ?thesis using True ok m sum by (simp add: k IH packet_for_def)
  qed
qed

section \<open>Probabilities\<close>

lemma mpp_probab_range: "Fin 0 \<le> mpp_probab p \<and> mpp_probab p \<le> Fin 1"
proof -
  have "Fin 0 \<le> std_max (Fin 0) (std_min (Fin 1) x) \<and> std_max (Fin 0) (std_min (Fin 1) x) \<le> Fin 1" for x
    by (cases x) (auto simp: std_max_def std_min_def)
  then show ?thesis by (simp add: mpp_probab_def)
qed

lemma mpp_transmit_probability_range:
  "Fin 0 \<le> mpp_transmit_probability s a b \<and> mpp_transmit_probability s a b \<le> Fin 1"
  using mpp_probab_range by (auto simp: mpp_transmit_probability_def split: option.split)

section \<open>Responses\<close>

lemma release_simps [simp]:
  "udp_modems (release a b s) = udp_modems s" "endpoint_to_id (release a b s) = endpoint_to_id s"
  "tcp_port_to_id (release a b s) = tcp_port_to_id s" "range_table (release a b s) = range_table s"
  "perf_table (release a b s) = perf_table s" "delay_buffer (release a b s) = delay_buffer s"
  by (simp_all add: release_def)

lemma equal_range_release:
  "equal_range d (forward_buffer (release a b s) src) =
     (if src = a \<and> d = b then [] else equal_range d (forward_buffer s src))"
  by (auto simp: release_def equal_range_def erase_key_def filter_empty_conv intro: arg_cong [of _ _ "map snd"] filter_cong)

lemma release_inv: "buffers_inv api s \<Longrightarrow> buffers_inv api (release a b s)"
  by (auto simp: buffers_inv_def release_def erase_key_def ordered_filter modem_ids_def)

text \<open>
  What a response for a known pair of modems needs: a time can be taken from its rays and the
  probability is one.
\<close>

definition owtt_of :: "draws \<Rightarrow> fp \<Rightarrow> fp" where
  "owtt_of dr first_arrival = d_add first_arrival (if outlier dr then outlier_dowtt dr else Fin 0)"

lemma process_impulse_response_eq:
  assumes inv: "udp_inv api cfg s"
    and ids: "tcp_port_to_id s (irsp_source r) = Some src_id" "tcp_port_to_id s (irsp_receiver r) = Some dest_id"
    and "dest_id \<noteq> 0" and rays: "raytraces r \<noteq> []" and t: "travel_time r = Inr first_arrival"
    and "\<bar>to_micro_time api (owtt_of dr first_arrival)\<bar> < 2 ^ 62"
    and "usable api cfg s src_id dest_id (owtt_of dr first_arrival)"
  shows "process_impulse_response api cfg dr r s =
     Inr (release src_id dest_id (s\<lparr>delay_buffer := multimap_queue.insert_all
       (kept api cfg dr s src_id dest_id (owtt_of dr first_arrival) 0 (equal_range dest_id (forward_buffer s src_id)))
       (delay_buffer s)\<rparr>))"
proof -
  have "dest_id \<in> modem_ids s"
    using inv ids(2) by (auto simp: udp_inv_def maps_inv_def ran_def)
  moreover have "\<forall>m \<in> set (equal_range dest_id (forward_buffer s src_id)). \<bar>tx_time api m\<bar> < 2 ^ 62"
    using inv by (fastforce simp: udp_inv_def buffers_inv_def equal_range_def)
  ultimately show ?thesis
    using assms deliver_eq [of dest_id s api cfg src_id "owtt_of dr first_arrival"]
    by (simp add: process_impulse_response_def Let_def flip: owtt_of_def)
qed

lemma insert_all_inv:
  assumes "udp_inv api cfg s"
  shows "udp_inv api cfg (s\<lparr>delay_buffer := multimap_queue.insert_all ps (delay_buffer s)\<rparr>)"
  using assms multimap_queue.insert_all [of "delay_buffer s" ps]
  by (auto simp: udp_inv_def buffers_inv_def maps_inv_def modem_ids_def)

lemma udp_inv_release: "udp_inv api cfg s \<Longrightarrow> udp_inv api cfg (release a b s)"
  by (simp add: udp_inv_def release_inv maps_inv_def modem_ids_def)

section \<open>The events\<close>

text \<open>The events that the application is made for.\<close>

fun udp_admissible :: "('m, 'e) modem_api \<Rightarrow> 'e udp_config \<Rightarrow> 'e udp_event \<Rightarrow> bool" where
  "udp_admissible api cfg (Udp_In e bytes) = (\<bar>tx_time api (parse_tx api bytes)\<bar> < 2 ^ 62)"
| "udp_admissible api cfg (Loop now) = True"
| "udp_admissible api cfg (Impulse_Resp r dr) =
     (irsp_source r \<in> port_names (cfg_modems cfg) \<longrightarrow>
        irsp_receiver r \<in> port_names (cfg_modems cfg)
        \<and> (raytraces r \<noteq> [] \<longrightarrow>
             (\<exists>first_arrival. travel_time r = Inr first_arrival
                \<and> \<bar>to_micro_time api (owtt_of dr first_arrival)\<bar> < 2 ^ 62
                \<and> (success_method cfg = RANGE_TABLE \<longrightarrow>
                     (let p = linear_interpolate api (d_mul (owtt_of dr first_arrival) (sound_speed cfg))
                                (add_ranges (range_to_packet_success cfg) [])
                      in Fin 0 \<le> p \<and> p \<le> Fin 1)))))"
| "udp_admissible api cfg (Performance_Resp r) =
     (orsp_contact r \<in> port_names (cfg_modems cfg) \<longrightarrow>
        (\<forall>x \<in> set (orsp_receivers r). orsp_node x \<in> port_names (cfg_modems cfg)))"

lemma known_name:
  assumes "udp_inv api cfg s"
  shows "p \<in> port_names (cfg_modems cfg) \<longleftrightarrow> (\<exists>i. tcp_port_to_id s p = Some i)"
proof -
  from assms have "dom (tcp_port_to_id s) = port_names (cfg_modems cfg)" by (simp add: udp_inv_def maps_inv_def)
  then show ?thesis by auto
qed

lemma set_performance_ok:
  assumes "udp_inv api cfg s" and "\<forall>x \<in> set rs. orsp_node x \<in> port_names (cfg_modems cfg)"
  shows "\<exists>s'. set_performance src_id rs s = Inr s' \<and> udp_inv api cfg s'
    \<and> delay_buffer s' = delay_buffer s"
  using assms
proof (induction rs arbitrary: s)
  case Nil
  then show ?case by simp
next
  case (Cons x rs)
  from Cons.prems obtain i where i: "tcp_port_to_id s (orsp_node x) = Some i"
    using known_name [OF Cons.prems(1)] by auto
  let ?s = "s\<lparr>perf_table := map (\<lambda>p. if is_pair src_id i p then p\<lparr>mpp := orsp_mpp x\<rparr> else p) (perf_table s)\<rparr>"
  have "udp_inv api cfg ?s"
    using Cons.prems(1) by (simp add: udp_inv_def buffers_inv_def maps_inv_def modem_ids_def)
  from Cons.IH [OF this] Cons.prems(2) i show ?case by auto
qed

fun accepted_by ::
    "('m, 'e) modem_api \<Rightarrow> 'e udp_config \<Rightarrow> 'e udp_event \<Rightarrow> ('m, 'e) udp \<Rightarrow> (int \<times> 'e io_data) list" where
  "accepted_by api cfg (Impulse_Resp r dr) s =
     (case (tcp_port_to_id s (irsp_source r), tcp_port_to_id s (irsp_receiver r), travel_time r) of
        (Some src_id, Some dest_id, Inr t) \<Rightarrow>
          if dest_id \<noteq> 0 \<and> raytraces r \<noteq> []
          then kept api cfg dr s src_id dest_id (owtt_of dr t) 0 (equal_range dest_id (forward_buffer s src_id))
          else []
      | _ \<Rightarrow> [])"
| "accepted_by api cfg _ s = []"

fun sent :: "'e udp_output list \<Rightarrow> 'e io_data list" where
  "sent [] = []"
| "sent (Udp_Out io # out) = io # sent out"
| "sent (_ # out) = sent out"

lemma sent_append [simp]: "sent (xs @ ys) = sent xs @ sent ys"
  by (induction xs rule: sent.induct) simp_all

lemma sent_Udp_Out [simp]: "sent (map (\<lambda>p. Udp_Out (f p)) ps) = map f ps"
  by (induction ps) simp_all

lemma sent_none: "(\<And>io. Udp_Out io \<notin> set out) \<Longrightarrow> sent out = []"
  by (induction out rule: sent.induct) auto

lemma sent_requests [simp]: "sent (requests cfg clk a b s) = []"
  by (simp add: requests_def Let_def)

lemma forward_to_sends_nothing:
  "forward_to cfg clk src_id ds msg s = Inr (s', out) \<Longrightarrow> sent out = []"
proof (induction ds arbitrary: s s' out)
  case (Cons d ds)
  have "sent out1 = []" if "forward_packet cfg clk src_id d msg s = Inr (s1, out1)" for s1 out1
    using that by (auto simp: forward_packet_def performance_request_def res_bind_eq_Inr split: if_splits)
  with Cons show ?case by (auto simp: res_bind_eq_Inr)
qed simp

text \<open>Every event keeps the invariant and accounts for the packets.\<close>

lemma udp_step:
  assumes ok: "udp_admissible api cfg ev" and inv: "udp_inv api cfg s"
  shows "\<exists>s' out. udp_handle api cfg clk ev s = Inr (s', out) \<and> udp_inv api cfg s'
    \<and> mset (sent out) + image_mset snd (mset (delay_buffer s')) =
      image_mset snd (mset (delay_buffer s)) + image_mset snd (mset (accepted_by api cfg ev s))"
proof (cases ev)
  case (Udp_In e bytes)
  let ?msg = "parse_tx api bytes"
  show ?thesis
  proof (cases "endpoint_to_id s (serialize_endpoint api e)")
    case None
    with Udp_In inv show ?thesis by (simp add: udp_received_def)
  next
    case (Some src)
    then have src: "src \<in> modem_ids s" using inv by (auto simp: udp_inv_def maps_inv_def ran_def)
    have "set (destinations api cfg s src ?msg) \<subseteq> modem_ids s"
      by (auto simp: destinations_def modem_ids_def)
    moreover have "\<forall>src. ordered (forward_buffer s src)" "buffers_inv api s"
      using inv by (auto simp: udp_inv_def buffers_inv_def)
    ultimately obtain s' out where
      f: "forward_to cfg clk src (destinations api cfg s src ?msg) ?msg s = Inr (s', out)"
      and "same_tables s s'" "delay_buffer s' = delay_buffer s" "buffers_inv api s'"
      using forward_to_eq [OF src, of "destinations api cfg s src ?msg" cfg clk ?msg api] ok Udp_In by auto
    then have "udp_inv api cfg s'" using inv same_tables_inv [of s s' "cfg_modems cfg"]
      by (simp add: udp_inv_def same_tables_def)
    then show ?thesis
      using f Udp_In Some \<open>delay_buffer s' = delay_buffer s\<close> forward_to_sends_nothing [OF f]
      by (simp add: udp_received_def)
  qed
next
  case (Loop now)
  have o: "ordered (delay_buffer s)" using inv by (simp add: udp_inv_def buffers_inv_def)
  have "udp_inv api cfg (s\<lparr>delay_buffer := beyond now (delay_buffer s)\<rparr>)"
    using inv multimap_queue.wf_rest [OF o]
    by (simp add: udp_inv_def buffers_inv_def maps_inv_def modem_ids_def)
  moreover have "image_mset snd (mset (up_to now (delay_buffer s))) + image_mset snd (mset (beyond now (delay_buffer s)))
      = image_mset snd (mset (delay_buffer s))"
    using multimap_queue.due_and_rest [OF o, of now] by (simp flip: image_mset_union)
  ultimately show ?thesis using Loop by (simp add: udp_loop_def)
next
  case (Impulse_Resp r dr)
  show ?thesis
  proof (cases "tcp_port_to_id s (irsp_source r)")
    case None
    with Impulse_Resp inv show ?thesis by (simp add: process_impulse_response_def)
  next
    case (Some src)
    then have known: "irsp_receiver r \<in> port_names (cfg_modems cfg)"
      using ok Impulse_Resp known_name [OF inv] by auto
    then obtain dest where dest: "tcp_port_to_id s (irsp_receiver r) = Some dest"
      using known_name [OF inv] by auto
    consider "dest = 0" | "dest \<noteq> 0" "raytraces r = []" | "dest \<noteq> 0" "raytraces r \<noteq> []" by blast
    then show ?thesis
    proof cases
      case 1
      with Impulse_Resp inv Some dest show ?thesis
        by (auto simp: process_impulse_response_def split: sum.split)
    next
      case 2
      with Impulse_Resp inv Some dest show ?thesis
        by (auto simp: process_impulse_response_def udp_inv_release split: sum.split)
    next
      case 3
      with ok Impulse_Resp Some known_name [OF inv] obtain t where t: "travel_time r = Inr t"
        and "\<bar>to_micro_time api (owtt_of dr t)\<bar> < 2 ^ 62"
        and p: "success_method cfg = RANGE_TABLE \<longrightarrow>
              (let p = linear_interpolate api (d_mul (owtt_of dr t) (sound_speed cfg))
                         (add_ranges (range_to_packet_success cfg) [])
               in Fin 0 \<le> p \<and> p \<le> Fin 1)" by auto
      moreover have "usable api cfg s src dest (owtt_of dr t)"
        using p inv mpp_transmit_probability_range
        by (cases "success_method cfg") (auto simp: usable_def success_probability_def udp_inv_def Let_def)
      moreover define ps where "ps = accepted_by api cfg ev s"
      ultimately have step: "process_impulse_response api cfg dr r s =
          Inr (release src dest (s\<lparr>delay_buffer := multimap_queue.insert_all ps (delay_buffer s)\<rparr>))"
        using process_impulse_response_eq [OF inv Some dest 3] 3 Impulse_Resp Some dest by simp
      have "mset (multimap_queue.insert_all ps (delay_buffer s)) = mset ps + mset (delay_buffer s)"
        using inv by (intro multimap_queue.insert_all [THEN conjunct1]) (simp add: udp_inv_def buffers_inv_def)
      then have "mset (sent []) + image_mset snd (mset (multimap_queue.insert_all ps (delay_buffer s))) =
          image_mset snd (mset (delay_buffer s)) + image_mset snd (mset (accepted_by api cfg ev s))"
        by (simp add: ps_def)
      moreover have "udp_handle api cfg clk ev s =
          Inr (release src dest (s\<lparr>delay_buffer := multimap_queue.insert_all ps (delay_buffer s)\<rparr>), [])"
        using step Impulse_Resp by simp
      ultimately show ?thesis
        using udp_inv_release [OF insert_all_inv [OF inv, of ps], of src dest]
        by (intro exI [of _ "[]"] exI conjI) (assumption, assumption, simp)
    qed
  qed
next
  case (Performance_Resp r)
  show ?thesis
  proof (cases "tcp_port_to_id s (orsp_contact r)")
    case None
    with Performance_Resp inv show ?thesis by (simp add: process_performance_response_def)
  next
    case (Some src)
    with ok Performance_Resp known_name [OF inv]
    have "\<forall>x \<in> set (orsp_receivers r). orsp_node x \<in> port_names (cfg_modems cfg)" by auto
    from set_performance_ok [OF inv this, of src] Some Performance_Resp inv show ?thesis
      by (auto simp: process_performance_response_def)
  qed
qed

interpretation udp: total_component "udp_handle api cfg clk" "udp_admissible api cfg" "udp_inv api cfg"
  for api cfg clk
proof unfold_locales
  fix ev s s' out
  assume "udp_admissible api cfg ev" "udp_inv api cfg s" "udp_handle api cfg clk ev s = Inr (s', out)"
  with udp_step [of api cfg ev s clk] show "udp_inv api cfg s'" by auto
next
  fix ev s
  assume "udp_admissible api cfg ev" "udp_inv api cfg s"
  with udp_step [of api cfg ev s clk] show "\<exists>s' out. udp_handle api cfg clk ev s = Inr (s', out)" by blast
qed

text \<open>The packets that all responses of a run let through.\<close>

fun accepted ::
    "('m, 'e) modem_api \<Rightarrow> 'e udp_config \<Rightarrow> request_clock \<Rightarrow> 'e udp_event list \<Rightarrow> ('m, 'e) udp
      \<Rightarrow> (int \<times> 'e io_data) list" where
  "accepted api cfg clk [] s = []"
| "accepted api cfg clk (ev # evs) s =
     accepted_by api cfg ev s
     @ (case udp_handle api cfg clk ev s of Inl f \<Rightarrow> [] | Inr (s', out) \<Rightarrow> accepted api cfg clk evs s')"

lemma run_accounts:
  assumes "list_all (udp_admissible api cfg) evs" and "udp_inv api cfg s"
    and "run (udp_handle api cfg clk) evs s = Inr (s', out)"
  shows "mset (sent out) + image_mset snd (mset (delay_buffer s')) =
      image_mset snd (mset (delay_buffer s)) + image_mset snd (mset (accepted api cfg clk evs s))"
  using assms
proof (induction evs arbitrary: s out)
  case Nil
  then show ?case by simp
next
  case (Cons ev evs)
  from Cons.prems(3) obtain s1 out1 out2
    where step: "udp_handle api cfg clk ev s = Inr (s1, out1)"
      and rest: "run (udp_handle api cfg clk) evs s1 = Inr (s', out2)" and out: "out = out1 @ out2"
    unfolding run_Cons_Inr by blast
  from Cons.prems(1,2) udp_step [of api cfg ev s clk] step
  have inv: "udp_inv api cfg s1" and e: "mset (sent out1) + image_mset snd (mset (delay_buffer s1)) =
      image_mset snd (mset (delay_buffer s)) + image_mset snd (mset (accepted_by api cfg ev s))" by auto
  from Cons.IH [OF _ inv rest] Cons.prems(1)
  have "mset (sent out2) + image_mset snd (mset (delay_buffer s')) =
      image_mset snd (mset (delay_buffer s1)) + image_mset snd (mset (accepted api cfg clk evs s1))" by simp
  with e step out show ?case by (simp add: ac_simps)
qed

section \<open>The strongest ray\<close>

text \<open>Ray \<open>i\<close> is the first of the strongest ones.\<close>

definition strongest :: "raytrace list \<Rightarrow> nat \<Rightarrow> bool" where
  "strongest rs i \<longleftrightarrow>
     (\<forall>j < length rs. \<not> fp_abs (amplitude (rs ! i)) < fp_abs (amplitude (rs ! j)))
     \<and> (\<forall>j < i. \<not> fp_abs (amplitude (rs ! i)) \<le> fp_abs (amplitude (rs ! j)))"

lemma strongest_Cons_Suc:
  assumes "strongest rs i" and "\<not> fp_abs (amplitude (rs ! i)) \<le> fp_abs (amplitude r)"
    and "\<not> fp_abs (amplitude (rs ! i)) < fp_abs (amplitude r)"
  shows "strongest (r # rs) (Suc i)"
  using assms by (auto simp: strongest_def less_Suc_eq_0_disj nth_Cons split: nat.split)

lemma scan_rays_spec:
  assumes "scan_rays rs a d = Inr x"
  shows "x = d \<and> (\<forall>r \<in> set rs. \<not> a < fp_abs (amplitude r))
    \<or> (\<exists>i e es. i < length rs \<and> element_delays (rs ! i) = e # es \<and> x = Some e
         \<and> a < fp_abs (amplitude (rs ! i)) \<and> strongest rs i)"
  using assms
proof (induction rs arbitrary: a d)
  case Nil
  then show ?case by simp
next
  case (Cons r rs)
  let ?A = "fp_abs (amplitude r)"
  show ?case
  proof (cases "a < ?A")
    case True
    with Cons.prems obtain e es where e: "element_delays r = e # es"
      and s: "scan_rays rs ?A (Some e) = Inr x" by (auto split: list.splits)
    from Cons.IH [OF s] show ?thesis
    proof (elim disjE exE conjE)
      assume "x = Some e" "\<forall>r' \<in> set rs. \<not> ?A < fp_abs (amplitude r')"
      then have "strongest (r # rs) 0" by (auto simp: strongest_def nth_Cons fp_less_irrefl split: nat.split)
      with e True \<open>x = Some e\<close> show ?thesis by (intro disjI2) force
    next
      fix i f fs
      assume i: "i < length rs" "element_delays (rs ! i) = f # fs" "x = Some f"
        and less: "?A < fp_abs (amplitude (rs ! i))" and "strongest rs i"
      then have "strongest (r # rs) (Suc i)"
        using fp_less_not_le fp_less_not_sym by (intro strongest_Cons_Suc) auto
      with i less True show ?thesis by (intro disjI2 exI [of _ "Suc i"]) (auto intro: fp_less_trans)
    qed
  next
    case False
    with Cons.prems have "scan_rays rs a d = Inr x" by simp
    from Cons.IH [OF this] show ?thesis
    proof (elim disjE exE conjE)
      assume "x = d" "\<forall>r \<in> set rs. \<not> a < fp_abs (amplitude r)"
      with False show ?thesis by simp
    next
      fix i f fs
      assume i: "i < length rs" "element_delays (rs ! i) = f # fs" "x = Some f"
        and less: "a < fp_abs (amplitude (rs ! i))" and "strongest rs i"
      moreover from this have "\<not> fp_abs (amplitude (rs ! i)) \<le> ?A" "\<not> fp_abs (amplitude (rs ! i)) < ?A"
        using False fp_less_le_trans fp_less_trans by blast+
      ultimately have "strongest (r # rs) (Suc i)" by (intro strongest_Cons_Suc)
      with i less show ?thesis by (intro disjI2 exI [of _ "Suc i"]) auto
    qed
  qed
qed

lemma travel_time_undefined:
  assumes "\<forall>r \<in> set (raytraces p). \<not> Fin 0 < fp_abs (amplitude r)"
  shows "travel_time p = Inl Undefined_Behaviour"
proof -
  have "scan_rays rs (Fin 0) d = Inr d" if "\<forall>r \<in> set rs. \<not> Fin 0 < fp_abs (amplitude r)" for rs d
    using that by (induction rs arbitrary: d) simp_all
  with assms show ?thesis by (simp add: travel_time_def)
qed

section \<open>Success probabilities\<close>

lemma mpp_probab_mono: "mpp p \<le> mpp q \<Longrightarrow> mpp_probab p \<le> mpp_probab q"
  by (simp add: mpp_probab_def std_max_mono std_min_mono d_div_mono d_add_mono d_mul_mono d_sub_mono)

lemma mpp_probab_80: "mpp_probab \<lparr>perf_src_id = a, perf_dest_id = b, mpp = Fin 80\<rparr> = Fin 1"
  by (simp add: mpp_probab_def fp_sub_def std_max_def std_min_def)

lemma mpp_probab_17_5: "mpp_probab \<lparr>perf_src_id = a, perf_dest_id = b, mpp = Fin (35 / 2)\<rparr> = Fin 0"
proof -
  have "d_round (- (25 / 2)) = Fin (- (25 / 2))"
    using fin_round_dyadic [of 53 "-25" 1 1023] by simp
  then show ?thesis by (simp add: mpp_probab_def fp_sub_def std_max_def std_min_def)
qed

section \<open>The modem with the number zero\<close>

lemma set_performance_forward: "set_performance a rs s = Inr s' \<Longrightarrow> forward_buffer s' = forward_buffer s"
proof (induction rs arbitrary: s)
  case (Cons r rs)
  then show ?case by (auto split: option.splits)
qed simp

lemma deliver_forward:
  "deliver api cfg dr a b t n msgs s = Inr s' \<Longrightarrow> forward_buffer s' = forward_buffer s"
proof (induction msgs arbitrary: n s)
  case (Cons m msgs)
  then show ?case by (fastforce simp: res_bind_eq_Inr Let_def split: if_splits)
qed simp

lemma zero_step:
  assumes ok: "udp_admissible api cfg ev" and inv: "udp_inv api cfg s"
    and h: "udp_handle api cfg clk ev s = Inr (s', out)"
  shows "prefix (equal_range 0 (forward_buffer s a)) (equal_range 0 (forward_buffer s' a))"
proof (cases ev)
  case (Udp_In e bytes)
  let ?msg = "parse_tx api bytes"
  show ?thesis
  proof (cases "endpoint_to_id s (serialize_endpoint api e)")
    case None
    with Udp_In h show ?thesis by (simp add: udp_received_def)
  next
    case (Some src)
    then have src: "src \<in> modem_ids s" using inv by (auto simp: udp_inv_def maps_inv_def ran_def)
    have "set (destinations api cfg s src ?msg) \<subseteq> modem_ids s"
      by (auto simp: destinations_def modem_ids_def)
    moreover have "\<forall>src. ordered (forward_buffer s src)" using inv by (auto simp: udp_inv_def buffers_inv_def)
    ultimately show ?thesis
      using forward_to_eq [OF src, of "destinations api cfg s src ?msg" cfg clk ?msg api] h Udp_In Some
      by (auto simp: udp_received_def prefix_def)
  qed
next
  case (Loop now)
  with h show ?thesis by (auto simp: udp_loop_def)
next
  case (Impulse_Resp r dr)
  with h show ?thesis
    by (auto simp: process_impulse_response_def res_bind_eq_Inr equal_range_release Let_def
        dest!: deliver_forward split: option.splits if_splits)
next
  case (Performance_Resp r)
  with h show ?thesis
    by (auto simp: process_performance_response_def res_bind_eq_Inr dest!: set_performance_forward
        split: option.splits if_splits)
qed

lemma zero_run:
  assumes "list_all (udp_admissible api cfg) evs" and "udp_inv api cfg s"
    and "run (udp_handle api cfg clk) evs s = Inr (s', out)"
  shows "prefix (equal_range 0 (forward_buffer s a)) (equal_range 0 (forward_buffer s' a))"
  using assms
proof (induction evs arbitrary: s out)
  case Nil
  then show ?case by simp
next
  case (Cons ev evs)
  from Cons.prems(3) obtain s1 out1 out2
    where step: "udp_handle api cfg clk ev s = Inr (s1, out1)"
      and rest: "run (udp_handle api cfg clk) evs s1 = Inr (s', out2)"
    unfolding run_Cons_Inr by blast
  have "udp_inv api cfg s1" using udp.inv_step [OF _ Cons.prems(2) step] Cons.prems(1) by simp
  from Cons.IH [OF _ this rest] Cons.prems(1) zero_step [OF _ Cons.prems(2) step, of a]
  show ?case by (auto intro: prefix_order.trans)
qed

section \<open>Properties\<close>

text \<open>A configuration with three modems, for the witnesses; a message is its destination and its text.\<close>

definition api1 :: "(int \<times> string, nat) modem_api" where
  "api1 = \<lparr>parse_tx = (\<lambda>bytes. (0, bytes)), is_ack = (\<lambda>_. False), tx_dest = fst, tx_time = (\<lambda>_. 1000),
           add_one_way_travel_time = (\<lambda>m _. m), serialize_tx = snd, BROADCAST_ID = 0,
           serialize_endpoint = (\<lambda>e. replicate e CHR ''x''),
           to_micro_time = (\<lambda>t. case t of Fin r \<Rightarrow> \<lfloor>r * 1000000\<rfloor> | _ \<Rightarrow> 0), linear_interpolate = (\<lambda>_ _. Fin 1)\<rparr>"

definition modem_cfg :: "nat \<Rightarrow> nat modem_end_point" where
  "modem_cfg i = \<lparr>modem_tcp_port = of_nat i, modem_id = of_nat i, endpoint = i\<rparr>"

definition udp_cfg1 :: "nat udp_config" where
  "udp_cfg1 = \<lparr>cfg_modems = map modem_cfg [1, 2, 3], send_all_as_broadcast = True,
               success_method = ALL_PACKETS_SUCCEED, range_to_packet_success = [], sound_speed = Fin 1500\<rparr>"

definition clock1 :: request_clock where
  "clock1 = \<lparr>imp_request_time = (\<lambda>_. Fin 0), perf_request_time = (\<lambda>_. Fin 0)\<rparr>"

definition udp1 :: "(int \<times> string, nat) udp" where
  "udp1 = \<lparr>udp_modems = [(1, modem_cfg 1), (2, modem_cfg 2), (3, modem_cfg 3)],
           endpoint_to_id = [''x'' \<mapsto> 1, ''xx'' \<mapsto> 2, ''xxx'' \<mapsto> 3],
           tcp_port_to_id = [''1'' \<mapsto> 1, ''2'' \<mapsto> 2, ''3'' \<mapsto> 3], perf_table = [],
           forward_buffer = (\<lambda>_. []), delay_buffer = [], range_table = [], imp_req_id = 0, perf_req_id = 0\<rparr>"

definition response1 :: "fp \<Rightarrow> impulse_response" where
  "response1 a =
     \<lparr>irsp_source = ''1'', irsp_receiver = ''2'',
      raytraces = [\<lparr>amplitude = a, surface_bounces = 0, bottom_bounces = 0, element_delays = [Fin 2]\<rparr>,
                   \<lparr>amplitude = Fin (- 3), surface_bounces = 1, bottom_bounces = 0, element_delays = [Fin 4]\<rparr>]\<rparr>"

definition draws1 :: draws where
  "draws1 = \<lparr>outlier = False, outlier_dowtt = Fin 1, coin = (\<lambda>_ _. True)\<rparr>"

lemma port_name_1: "port_name 1 = ''1''" "port_name 2 = ''2''" "port_name 3 = ''3''"
  by (simp_all add: port_name_def dec_def dec_nat.simps digit_def)

lemma udp_init_1: "udp_init api1 udp_cfg1 = Inr udp1"
  by (simp add: udp_init_def udp_cfg1_def udp1_def modem_cfg_def api1_def map_insert_def mm_insert_def
      insert_new_def port_name_1 eval_nat_numeral)

lemma udp_inv_1: "udp_inv api1 udp_cfg1 udp1"
  using udp_init_1 by (rule udp_init_inv)

lemma port_names_1: "port_names (cfg_modems udp_cfg1) = {''1'', ''2'', ''3''}"
  by (auto simp: port_names_def udp_cfg1_def modem_cfg_def port_name_1)

lemma travel_time_1: "travel_time (response1 (Fin 1)) = Inr (Fin 4)"
  by (simp add: travel_time_def response1_def)

lemma owtt_1: "owtt_of draws1 (Fin 4) = Fin 4"
  by (simp add: owtt_of_def draws1_def)





text \<open>
  C34: An impulse response resolves all packets that wait for this pair of modems and no others: each of
  them is dropped or, if its coin falls so, delayed until its own time plus the travel time of the
  strongest ray.
\<close>

theorem response_resolves_pair:
  assumes "udp_inv api cfg s"
    and "tcp_port_to_id s (irsp_source r) = Some src_id" "tcp_port_to_id s (irsp_receiver r) = Some dest_id"
    and "dest_id \<noteq> 0" "raytraces r \<noteq> []" "travel_time r = Inr t"
    and "\<bar>to_micro_time api (owtt_of dr t)\<bar> < 2 ^ 62" "usable api cfg s src_id dest_id (owtt_of dr t)"
  shows "\<exists>s'. process_impulse_response api cfg dr r s = Inr s'
     \<and> equal_range dest_id (forward_buffer s' src_id) = []
     \<and> (\<forall>a b. (a, b) \<noteq> (src_id, dest_id) \<longrightarrow>
          equal_range b (forward_buffer s' a) = equal_range b (forward_buffer s a))
     \<and> mset (delay_buffer s') = mset (delay_buffer s) +
         mset (map (\<lambda>(_, msg). packet_for api s dest_id (owtt_of dr t) msg)
           (filter (\<lambda>(i, _). survives api cfg dr s src_id dest_id (owtt_of dr t) i)
             (enumerate 0 (equal_range dest_id (forward_buffer s src_id)))))"
proof -
  have "ordered (delay_buffer s)" using assms(1) by (simp add: udp_inv_def buffers_inv_def)
  note m = multimap_queue.insert_all [OF this, THEN conjunct1]
  show ?thesis
    unfolding process_impulse_response_eq [OF assms]
    by (intro exI conjI, rule refl) (simp_all add: equal_range_release m kept_def)
qed

theorem response_resolves_pair_witness:
  "\<exists>s'. process_impulse_response api1 udp_cfg1 draws1 (response1 (Fin 1))
       (udp1\<lparr>forward_buffer := (\<lambda>_. [])(1 := [(2, (0, ''hello''))])\<rparr>) = Inr s'
     \<and> delay_buffer s' = [(4001000, \<lparr>io_dest = 2, io_bytes = ''hello''\<rparr>)]"
proof -
  let ?s = "udp1\<lparr>forward_buffer := (\<lambda>_. [])(1 := [(2, (0, ''hello''))])\<rparr>"
  have "udp_inv api1 udp_cfg1 ?s" using udp_inv_1
    by (simp add: udp_inv_def maps_inv_def buffers_inv_def modem_ids_def) (simp add: udp1_def api1_def)
  moreover have "tcp_port_to_id ?s (irsp_source (response1 (Fin 1))) = Some 1"
    "tcp_port_to_id ?s (irsp_receiver (response1 (Fin 1))) = Some 2"
    by (simp_all add: udp1_def response1_def)
  moreover have "raytraces (response1 (Fin 1)) \<noteq> []" by (simp add: response1_def)
  moreover have "\<bar>to_micro_time api1 (owtt_of draws1 (Fin 4))\<bar> < 2 ^ 62" by (simp add: owtt_1 api1_def)
  moreover have "usable api1 udp_cfg1 ?s 1 2 (owtt_of draws1 (Fin 4))" by (simp add: usable_def udp_cfg1_def)
  ultimately obtain s' where s': "process_impulse_response api1 udp_cfg1 draws1 (response1 (Fin 1)) ?s = Inr s'"
    and m: "mset (delay_buffer s') = mset (delay_buffer ?s) +
         mset (map (\<lambda>(_, msg). packet_for api1 ?s 2 (owtt_of draws1 (Fin 4)) msg)
           (filter (\<lambda>(i, _). survives api1 udp_cfg1 draws1 ?s 1 2 (owtt_of draws1 (Fin 4)) i)
             (enumerate 0 (equal_range 2 (forward_buffer ?s 1)))))"
    using response_resolves_pair [OF _ _ _ _ _ travel_time_1] by (metis zero_neq_numeral)
  have "mset (delay_buffer s') = {#(4001000, \<lparr>io_dest = 2, io_bytes = ''hello''\<rparr>)#}"
    unfolding m by (simp add: equal_range_def survives_def udp_cfg1_def packet_for_def owtt_1)
      (simp add: udp1_def api1_def modem_cfg_def)
  then have "delay_buffer s' = [(4001000, \<lparr>io_dest = 2, io_bytes = ''hello''\<rparr>)]" by simp
  with s' show ?thesis by blast
qed

text \<open>
  A broadcast, or any packet but an acknowledgement when everything is sent as a broadcast, is queued
  once for every configured modem except its sender, behind what is queued there already; nothing else
  is queued.
\<close>

theorem broadcast_queued_for_every_other_modem:
  assumes "udp_inv api cfg s" and "endpoint_to_id s (serialize_endpoint api e) = Some src_id"
    and "\<not> is_ack api (parse_tx api bytes)"
    and "send_all_as_broadcast cfg \<or> tx_dest api (parse_tx api bytes) = BROADCAST_ID api"
  shows "\<exists>s' out. udp_received api cfg clk e bytes s = Inr (s', out) \<and> delay_buffer s' = delay_buffer s
     \<and> (\<forall>a d. equal_range d (forward_buffer s' a) = equal_range d (forward_buffer s a) @
          (if a = src_id \<and> d \<noteq> src_id \<and> d \<in> fst ` set (udp_modems s) then [parse_tx api bytes] else []))"
proof -
  let ?msg = "parse_tx api bytes"
  let ?ds = "filter (\<lambda>i. i \<noteq> src_id) (map fst (udp_modems s))"
  have d: "distinct (map fst (udp_modems s))" and src: "src_id \<in> modem_ids s"
    and o: "\<forall>src. ordered (forward_buffer s src)"
    using assms(1,2) by (auto simp: udp_inv_def maps_inv_def buffers_inv_def ran_def)
  have one: "map (\<lambda>_. ?msg) (filter (\<lambda>i. i = x) ?ds) =
      (if x \<noteq> src_id \<and> x \<in> fst ` set (udp_modems s) then [?msg] else [])" for x
    using filter_eq_distinct [of ?ds x] d by (auto simp: distinct_filter)
  have "destinations api cfg s src_id ?msg = ?ds" using assms(3,4) by (simp add: destinations_def)
  moreover have "set ?ds \<subseteq> modem_ids s" by (auto simp: modem_ids_def)
  from forward_to_eq [OF src this o, of cfg clk ?msg api] obtain s' out
    where "forward_to cfg clk src_id ?ds ?msg s = Inr (s', out)" and d: "delay_buffer s' = delay_buffer s"
      and e: "\<forall>a d. equal_range d (forward_buffer s' a) = equal_range d (forward_buffer s a) @
          (if a = src_id then map (\<lambda>_. ?msg) (filter (\<lambda>i. i = d) ?ds) else [])" by blast
  ultimately have "udp_received api cfg clk e bytes s = Inr (s', out)"
    using assms(2) by (simp add: udp_received_def)
  with d e show ?thesis unfolding one by (intro exI [of _ s'] exI [of _ out]) simp
qed

theorem broadcast_queued_for_every_other_modem_witness:
  "\<exists>s' out. udp_received api1 udp_cfg1 clock1 2 ''hello'' udp1 = Inr (s', out)
     \<and> equal_range 3 (forward_buffer s' 2) = [(0, ''hello'')] \<and> equal_range 2 (forward_buffer s' 2) = []"
proof -
  have "endpoint_to_id udp1 (serialize_endpoint api1 2) = Some 2"
    by (simp add: udp1_def api1_def eval_nat_numeral)
  moreover have "\<not> is_ack api1 (parse_tx api1 ''hello'')" "send_all_as_broadcast udp_cfg1"
    by (simp_all add: api1_def udp_cfg1_def)
  ultimately obtain s' out where "udp_received api1 udp_cfg1 clock1 2 ''hello'' udp1 = Inr (s', out)"
    and "\<forall>a d. equal_range d (forward_buffer s' a) = equal_range d (forward_buffer udp1 a) @
          (if a = 2 \<and> d \<noteq> 2 \<and> d \<in> fst ` set (udp_modems udp1) then [parse_tx api1 ''hello''] else [])"
    using broadcast_queued_for_every_other_modem [OF udp_inv_1, of 2 2 "''hello''" clock1] by blast
  moreover from this(2) have "equal_range 3 (forward_buffer s' 2) = [(0, ''hello'')]"
    "equal_range 2 (forward_buffer s' 2) = []"
    by (simp_all add: udp1_def api1_def) (simp_all add: equal_range_def)
  ultimately show ?thesis by blast
qed

text \<open>
  The travel time of a response is the first delay of its strongest ray, the first of several that
  are equally strong, and that ray has an amplitude above zero.
\<close>

theorem travel_time_of_strongest_ray:
  assumes "travel_time p = Inr t"
  shows "\<exists>i es. i < length (raytraces p) \<and> element_delays (raytraces p ! i) = t # es
     \<and> Fin 0 < fp_abs (amplitude (raytraces p ! i)) \<and> strongest (raytraces p) i"
proof -
  from assms have "scan_rays (raytraces p) (Fin 0) None = Inr (Some t)"
    by (auto simp: travel_time_def res_bind_eq_Inr split: option.splits)
  from scan_rays_spec [OF this] show ?thesis by auto
qed

theorem travel_time_of_strongest_ray_witness:
  "\<exists>i < length (raytraces (response1 (Fin 1))). strongest (raytraces (response1 (Fin 1))) i"
  using travel_time_of_strongest_ray [OF travel_time_1] by blast

text \<open>
  A response with rays of which none has an amplitude above zero makes the application read an
  uninitialised variable.
\<close>

theorem silent_response_undefined:
  assumes "udp_inv api cfg s"
    and "tcp_port_to_id s (irsp_source r) = Some src_id" "tcp_port_to_id s (irsp_receiver r) = Some dest_id"
    and "dest_id \<noteq> 0" "raytraces r \<noteq> []" and "\<forall>x \<in> set (raytraces r). \<not> Fin 0 < fp_abs (amplitude x)"
  shows "process_impulse_response api cfg dr r s = Inl Undefined_Behaviour"
  using assms travel_time_undefined [of r] by (simp add: process_impulse_response_def)

text \<open>A response for a receiver that is not configured ends the process with an exception.\<close>

theorem unknown_receiver_throws:
  assumes "tcp_port_to_id s (irsp_source r) \<noteq> None" and "tcp_port_to_id s (irsp_receiver r) = None"
  shows "process_impulse_response api cfg dr r s = Inl Out_Of_Range"
  using assms by (auto simp: process_impulse_response_def)

text \<open>
  The packets for a modem with the number zero wait for ever: no response takes one of them out of
  the queue, in any run.
\<close>

theorem modem_zero_never_served:
  assumes "udp_init api cfg = Inr s0" and "list_all (udp_admissible api cfg) (evs @ evs')"
    and "run (udp_handle api cfg clk) evs s0 = Inr (s, out)"
    and "run (udp_handle api cfg clk) evs' s = Inr (s', out')"
  shows "prefix (equal_range 0 (forward_buffer s a)) (equal_range 0 (forward_buffer s' a))"
proof -
  have "udp_inv api cfg s"
    using udp.run_inv [OF _ udp_init_inv [OF assms(1)] assms(3)] assms(2) by simp
  from zero_run [OF _ this assms(4)] assms(2) show ?thesis by simp
qed

theorem modem_zero_never_served_witness: "prefix [] (equal_range 0 (forward_buffer udp1 1))"
proof -
  have r: "run (udp_handle api1 udp_cfg1 clock1) [] udp1 = Inr (udp1, [])" by simp
  have "list_all (udp_admissible api1 udp_cfg1) ([] @ [])" by simp
  from modem_zero_never_served [OF udp_init_1 this r r, of 1] show ?thesis by simp
qed

text \<open>
  C37: The success probability computed from a modem pair performance is always between 0 and 1, does not
  decrease when the performance grows, is 1 from 80 and 0 up to 17.5.
\<close>

theorem mpp_probability_shape:
  "Fin 0 \<le> mpp_probab p \<and> mpp_probab p \<le> Fin 1
   \<and> (mpp p \<le> mpp q \<longrightarrow> mpp_probab p \<le> mpp_probab q)
   \<and> (Fin 80 \<le> mpp p \<longrightarrow> mpp_probab p = Fin 1) \<and> (mpp p \<le> Fin (35 / 2) \<longrightarrow> mpp_probab p = Fin 0)"
proof -
  note range = mpp_probab_range [of p]
  have "mpp_probab p = Fin 1" if "Fin 80 \<le> mpp p"
  proof -
    have "Fin 1 \<le> mpp_probab p"
      using mpp_probab_mono [of "\<lparr>perf_src_id = 0, perf_dest_id = 0, mpp = Fin 80\<rparr>" p] that
      by (simp add: mpp_probab_80)
    with range show ?thesis by (blast intro: fp_antisym)
  qed
  moreover have "mpp_probab p = Fin 0" if "mpp p \<le> Fin (35 / 2)"
  proof -
    have "mpp_probab p \<le> Fin 0"
      using mpp_probab_mono [of p "\<lparr>perf_src_id = 0, perf_dest_id = 0, mpp = Fin (35 / 2)\<rparr>"] that
      by (simp add: mpp_probab_17_5)
    with range show ?thesis by (blast intro: fp_antisym)
  qed
  ultimately show ?thesis using range mpp_probab_mono by blast
qed

theorem mpp_probability_shape_witness:
  "mpp_probab \<lparr>perf_src_id = 1, perf_dest_id = 2, mpp = PInf\<rparr> = Fin 1
   \<and> mpp_probab \<lparr>perf_src_id = 1, perf_dest_id = 2, mpp = Fin 3\<rparr> = Fin 0"
  using mpp_probability_shape [of "\<lparr>perf_src_id = 1, perf_dest_id = 2, mpp = PInf\<rparr>"]
    mpp_probability_shape [of "\<lparr>perf_src_id = 1, perf_dest_id = 2, mpp = Fin 3\<rparr>"] by simp

end
