(* ===== verification/Tool.thy ===== *)
theory Tool
  imports Manager
begin

text \<open>
  The measurement tool (\<open>NetSimTool\<close>, \<open>src/apps/netsim_tool/main.cpp\<close>): it moves a receiver over a grid
  of ranges and depths, lets a modem transmit at each point and publishes what the receiver heard.

  Parameters (\<open>tool_env\<close>): the position of a range (goby's geodesy), the reception statistics in a modem
  message, and the two functions of the generated protobuf class the code calls on statistics.
  Whether the TCP client is connected and the time come with each event. Counters of passes and
  requests are integers without a bound: at 10 passes a second they stay below \<open>2 ^ 31\<close> for years.
\<close>

section \<open>The thread of a modem driver\<close>

datatype ('m, 'w) modem_event =
    Driver_Receive 'm | Driver_Raw_Incoming 'w | Driver_Raw_Outgoing 'w | Transmit_Request 'm | Modem_Loop

datatype ('m, 'w) modem_output =
    Receive_Data 'm | Raw_In int 'w | Raw_Out int 'w | Initiate_Transmission 'm | Do_Work

text \<open>\<open>src_of\<close> is the source in a message; only its own modem transmits it.\<close>

fun modem_handle ::
    "('m \<Rightarrow> int) \<Rightarrow> int \<Rightarrow> ('m, 'w) modem_event \<Rightarrow> ('m, 'w) modem_output list" where
  "modem_handle src_of index (Driver_Receive msg) = [Receive_Data msg]"
| "modem_handle src_of index (Driver_Raw_Incoming raw) = [Raw_In index raw]"
| "modem_handle src_of index (Driver_Raw_Outgoing raw) = [Raw_Out index raw]"
| "modem_handle src_of index (Transmit_Request msg) =
     (if index = src_of msg then [Initiate_Transmission msg] else [])"
| "modem_handle src_of index Modem_Loop = [Do_Work]"

section \<open>Configuration and state\<close>

record 'm tool_config =
  tx_tcp_port :: int
  rx_tcp_port :: int
  transmission :: 'm
  slot_seconds :: int
  r_min :: int
  z_min :: int
  r_max :: int
  z_max :: int
  dr :: int
  dz :: int
  source_z :: int
  lat_origin :: fp
  lon_origin :: fp

record 'm tool_env =
  latlon_at :: "int \<Rightarrow> fp \<times> fp"
  receive_stats_of :: "'m \<Rightarrow> mm_statistics list"
  is_initialized :: "mm_statistics \<Rightarrow> bool"
  cleared_stats :: mm_statistics

record tool =
  tool_r :: int
  tool_z :: int
  last_r :: int
  last_z :: int
  loops_since_last_transmission :: int
  drivers_ready :: int
  run_complete :: bool
  next_request_id :: int
  previous_stats :: mm_statistics
  has_quit :: bool

datatype 'm tool_output =
    Client_Write manager_request
  | Pub_Transmit 'm
  | Pub_Rx_Stats "mm_statistics option" int int int int

definition loop_frequency_hertz :: fp where
  "loop_frequency_hertz = Fin 10"

text \<open>A request with one position, at rest.\<close>

definition nav_request :: "int \<Rightarrow> int \<Rightarrow> fp \<Rightarrow> fp \<Rightarrow> fp \<Rightarrow> int \<Rightarrow> manager_request" where
  "nav_request i port time lat lon depth =
     \<lparr>request_id = i,
      request_nav = [\<lparr>nav_modem_tcp_port = port, nav_time = time, nav_lat = lat, nav_lon = lon,
                      nav_depth = d_of_int depth, nav_speed = Fin 0, nav_heading = Fin 0,
                      nav_initialized = True\<rparr>],
      request_stats = []\<rparr>"

section \<open>Operations\<close>

definition update_receiver_position ::
    "'m tool_env \<Rightarrow> 'm tool_config \<Rightarrow> bool \<Rightarrow> fp \<Rightarrow> tool \<Rightarrow> tool \<times> 'm tool_output list" where
  "update_receiver_position env cfg online now s =
     (s\<lparr>next_request_id := next_request_id s + 1\<rparr>,
      if online
      then [Client_Write (nav_request (next_request_id s) (rx_tcp_port cfg) now
              (fst (latlon_at env (tool_r s))) (snd (latlon_at env (tool_r s))) (tool_z s))]
      else [])"

text \<open>
  The constructor, once the client is connected (it waits for that as long as it takes): the position
  of the transmitter, then that of the receiver.
\<close>

definition tool_init ::
    "'m tool_env \<Rightarrow> 'm tool_config \<Rightarrow> bool \<Rightarrow> fp \<Rightarrow> mm_statistics \<Rightarrow> (tool \<times> 'm tool_output list) res" where
  "tool_init env cfg connects now no_stats =
     (if \<not> connects then Inl Hang
      else
        let s = \<lparr>tool_r = r_min cfg, tool_z = z_min cfg, last_r = - 1, last_z = - 1,
                 loops_since_last_transmission = 0, drivers_ready = 0, run_complete = False,
                 next_request_id = 0, previous_stats = no_stats, has_quit = False\<rparr>;
            w = Client_Write (nav_request 0 (tx_tcp_port cfg) now (lat_origin cfg) (lon_origin cfg) (source_z cfg))
        in case update_receiver_position env cfg True now (s\<lparr>next_request_id := 1\<rparr>) of
             (s', out) \<Rightarrow> Inr (s', w # out))"

definition receive_data ::
    "'m tool_env \<Rightarrow> 'm tool_config \<Rightarrow> bool \<Rightarrow> 'm \<Rightarrow> tool \<Rightarrow> tool \<times> 'm tool_output list" where
  "receive_data env cfg online msg s =
     (case receive_stats_of env msg of
        [] \<Rightarrow> (s, [])
      | q # _ \<Rightarrow>
          (s\<lparr>previous_stats := q, next_request_id := next_request_id s + 1\<rparr>,
           if online
           then [Client_Write \<lparr>request_id = next_request_id s, request_nav = [],
                   request_stats = [\<lparr>stat_modem_tcp_port = rx_tcp_port cfg,
                     stat_tx_modem_tcp_port = tx_tcp_port cfg, packet_success = receive_good q, mm_stats = Some q\<rparr>]\<rparr>]
           else []))"

text \<open>Addition of two \<open>int\<close>.\<close>

definition add_int :: "int \<Rightarrow> int \<Rightarrow> int res" where
  "add_int a b = (if - (2 ^ 31) \<le> a + b \<and> a + b < 2 ^ 31 then Inr (a + b) else Inl Undefined_Behaviour)"

text \<open>The next point of the grid, and whether the grid is done.\<close>

definition advance :: "'m tool_config \<Rightarrow> tool \<Rightarrow> tool res" where
  "advance cfg s =
     res_bind (add_int (tool_r s) (dr cfg)) (\<lambda>r'.
       if r_max cfg < r'
       then
         res_bind (add_int (tool_z s) (dz cfg)) (\<lambda>z'.
           Inr (s\<lparr>tool_r := r_min cfg, tool_z := z',
                  run_complete := (if z_max cfg < z' then True else run_complete s)\<rparr>))
       else Inr (s\<lparr>tool_r := r'\<rparr>))"

text \<open>The statistics of the last slot; \<open>- 1\<close> marks that there was none.\<close>

definition publish_stats ::
    "'m tool_env \<Rightarrow> 'm tool_config \<Rightarrow> tool \<Rightarrow> tool \<times> 'm tool_output list" where
  "publish_stats env cfg s =
     (if 0 < last_r s \<and> 0 < last_z s
      then (s\<lparr>previous_stats := cleared_stats env\<rparr>,
            [Pub_Rx_Stats (if is_initialized env (previous_stats s) then Some (previous_stats s) else None)
               0 (source_z cfg) (last_r s) (last_z s)])
      else (s, []))"

definition half_slot :: "'m tool_config \<Rightarrow> fp" where
  "half_slot cfg = d_div (d_mul (d_of_int (slot_seconds cfg)) loop_frequency_hertz) (Fin 2)"

definition two_slots :: "'m tool_config \<Rightarrow> fp" where
  "two_slots cfg = d_mul (d_of_int (2 * slot_seconds cfg)) loop_frequency_hertz"

definition tool_loop ::
    "'m tool_env \<Rightarrow> 'm tool_config \<Rightarrow> bool \<Rightarrow> fp \<Rightarrow> tool
      \<Rightarrow> (tool \<times> 'm tool_output list) res" where
  "tool_loop env cfg online now s =
     (let count = (\<lambda>s. s\<lparr>loops_since_last_transmission := loops_since_last_transmission s + 1\<rparr>);
          loops = d_of_int (loops_since_last_transmission s)
      in if drivers_ready s < 2 then Inr (s, [])
         else if fp_eq loops (half_slot cfg)
         then (case (if run_complete s then (s, []) else update_receiver_position env cfg online now s) of
                 (s', out) \<Rightarrow> Inr (count s', out))
         else if fp_eq loops (two_slots cfg)
         then
           (case publish_stats env cfg s of
              (s1, out) \<Rightarrow>
                if run_complete s1 then Inr (s1\<lparr>has_quit := True\<rparr>, out)
                else
                  res_bind (advance cfg (s1\<lparr>last_r := tool_r s1, last_z := tool_z s1\<rparr>)) (\<lambda>s2.
                    Inr (count (s2\<lparr>loops_since_last_transmission := 0\<rparr>), out @ [Pub_Transmit (transmission cfg)])))
         else Inr (count s, []))"

datatype 'm tool_event = Driver_Ready int | Data_Received bool 'm | Tick bool fp

text \<open>After \<open>quit()\<close> nothing is called any more.\<close>

fun tool_handle ::
    "'m tool_env \<Rightarrow> 'm tool_config \<Rightarrow> ('m tool_event, tool, 'm tool_output) handler" where
  "tool_handle env cfg ev s =
     (if has_quit s then Inr (s, [])
      else (case ev of
              Driver_Ready i \<Rightarrow> Inr (s\<lparr>drivers_ready := drivers_ready s + 1\<rparr>, [])
            | Data_Received online msg \<Rightarrow> Inr (receive_data env cfg online msg s)
            | Tick online now \<Rightarrow> tool_loop env cfg online now s))"

declare tool_handle.simps [simp del]

lemma tool_handle_Tick: "\<not> has_quit s \<Longrightarrow> tool_handle env cfg (Tick online now) s = tool_loop env cfg online now s"
  by (simp add: tool_handle.simps)

section \<open>The grid\<close>

text \<open>
  The points from \<open>(r, z)\<close> on, row by row. The scan of the program ends only if it makes progress in both
  directions, so the recursion does.
\<close>

function scan :: "'m tool_config \<Rightarrow> int \<Rightarrow> int \<Rightarrow> (int \<times> int) list" where
  "scan cfg r z =
     (r, z) #
     (if dr cfg \<le> 0 \<or> dz cfg \<le> 0 then []
      else if r + dr cfg \<le> r_max cfg then scan cfg (r + dr cfg) z
      else if z + dz cfg \<le> z_max cfg then scan cfg (r_min cfg) (z + dz cfg)
      else [])"
  by pat_completeness auto
termination
  by (relation "measures [\<lambda>(cfg, r, z). nat (z_max cfg - z), \<lambda>(cfg, r, z). nat (r_max cfg - r)]") auto

declare scan.simps [simp del]

text \<open>A row: the ranges from \<open>r\<close> on.\<close>

definition grid_ok :: "'m tool_config \<Rightarrow> bool" where
  "grid_ok cfg \<longleftrightarrow>
     0 < dr cfg \<and> 0 < dz cfg \<and> r_min cfg \<le> r_max cfg \<and> z_min cfg \<le> z_max cfg
     \<and> - (2 ^ 31) \<le> r_min cfg \<and> r_max cfg + dr cfg < 2 ^ 31
     \<and> - (2 ^ 31) \<le> z_min cfg \<and> z_max cfg + dz cfg < 2 ^ 31"

text \<open>
  The points from \<open>(r, z)\<close> on: the rest of its row and the rows behind it. \<open>steps d a b\<close> are the numbers
  from \<open>a\<close> to \<open>b\<close> in steps of \<open>d\<close>.
\<close>

definition steps :: "int \<Rightarrow> int \<Rightarrow> int \<Rightarrow> int set" where
  "steps d a b = {x. a \<le> x \<and> x \<le> b \<and> d dvd x - a}"

lemma steps_empty: "b < a \<Longrightarrow> steps d a b = {}"
  by (auto simp: steps_def)

lemma steps_insert:
  assumes "0 < d" "a \<le> b"
  shows "steps d a b = insert a (steps d (a + d) b) \<and> a \<notin> steps d (a + d) b"
proof -
  have dvd: "d dvd x - (a + d) \<longleftrightarrow> d dvd x - a" for x
    using dvd_add_triv_right_iff [of d "x - (a + d)"] by simp
  have "a + d \<le> x" if "a \<le> x" "d dvd x - a" "x \<noteq> a" for x
    using zdvd_imp_le [OF that(2)] that by linarith
  with dvd assms show ?thesis by (auto simp: steps_def)
qed

definition points_from :: "'m tool_config \<Rightarrow> int \<Rightarrow> int \<Rightarrow> (int \<times> int) set" where
  "points_from cfg r z =
     steps (dr cfg) r (r_max cfg) \<times> {z}
     \<union> steps (dr cfg) (r_min cfg) (r_max cfg) \<times> steps (dz cfg) (z + dz cfg) (z_max cfg)"

lemma set_scan:
  assumes "0 < dr cfg" "0 < dz cfg" "r_min cfg \<le> r_max cfg" and "r \<le> r_max cfg" "z \<le> z_max cfg"
  shows "set (scan cfg r z) = points_from cfg r z \<and> distinct (scan cfg r z)"
  using assms
proof (induction cfg r z rule: scan.induct)
  case (1 cfg r z)
  note row = steps_insert [OF \<open>0 < dr cfg\<close> \<open>r \<le> r_max cfg\<close>]
    and before = steps_def [of "dz cfg" "z + dz cfg" "z_max cfg"]
  show ?case
  proof (cases "r + dr cfg \<le> r_max cfg")
    case True
    have "points_from cfg r z = insert (r, z) (points_from cfg (r + dr cfg) z)"
      using row by (auto simp: points_from_def)
    moreover have "(r, z) \<notin> points_from cfg (r + dr cfg) z"
      using row before \<open>0 < dz cfg\<close> by (auto simp: points_from_def)
    ultimately show ?thesis using True 1 by (subst (1 2) scan.simps) simp
  next
    case last: False
    then have end_row: "steps (dr cfg) r (r_max cfg) = {r}" using row by (simp add: steps_empty)
    show ?thesis
    proof (cases "z + dz cfg \<le> z_max cfg")
      case True
      have "points_from cfg r z = insert (r, z) (points_from cfg (r_min cfg) (z + dz cfg))"
        using end_row steps_insert [OF \<open>0 < dz cfg\<close> True] by (auto simp: points_from_def)
      moreover have "(r, z) \<notin> points_from cfg (r_min cfg) (z + dz cfg)"
        using \<open>0 < dz cfg\<close> by (auto simp: points_from_def steps_def)
      ultimately show ?thesis using last True 1 by (subst (1 2) scan.simps) simp
    next
      case False
      have "points_from cfg r z = {(r, z)}"
        using end_row False by (simp add: points_from_def steps_empty)
      then show ?thesis using last False 1 by (subst (1 2) scan.simps) simp
    qed
  qed
qed

section \<open>The passes between two transmissions\<close>

lemma fp_eq_d_of_int:
  assumes "\<bar>n\<bar> < 2 ^ 53" "\<bar>m\<bar> < 2 ^ 53"
  shows "fp_eq (d_of_int n) (Fin (of_int m)) \<longleftrightarrow> n = m"
  using assms by (simp add: fp_of_int_def)

lemma slot_passes:
  assumes "0 \<le> slot_seconds cfg" "slot_seconds cfg < 2 ^ 40"
  shows "half_slot cfg = Fin (of_int (5 * slot_seconds cfg)) \<and> two_slots cfg = Fin (of_int (20 * slot_seconds cfg))"
proof -
  have "d_round (of_int (slot_seconds cfg) * 10) = Fin (of_int (slot_seconds cfg * 10))"
    using d_round_int [of "slot_seconds cfg * 10"] assms by simp
  moreover have "d_round (of_int (slot_seconds cfg) * 10 / 2) = Fin (of_int (5 * slot_seconds cfg))"
    using d_round_int [of "5 * slot_seconds cfg"] assms by simp
  moreover have "d_round (2 * of_int (slot_seconds cfg) * 10) = Fin (of_int (20 * slot_seconds cfg))"
    using d_round_int [of "20 * slot_seconds cfg"] assms by simp
  ultimately show ?thesis
    using assms d_round_int [of "slot_seconds cfg"] d_round_int [of "2 * slot_seconds cfg"]
    by (simp add: half_slot_def two_slots_def loop_frequency_hertz_def fp_of_int_def)
qed

text \<open>What can be seen of a run: where the receiver is put, transmissions and published statistics.\<close>

datatype sighting = Placed "(fp \<times> fp \<times> fp) list" | Transmitted | Reported int int

fun observe :: "'m tool_output \<Rightarrow> sighting" where
  "observe (Client_Write req) = Placed (map (\<lambda>n. (nav_lat n, nav_lon n, nav_depth n)) (request_nav req))"
| "observe (Pub_Transmit m) = Transmitted"
| "observe (Pub_Rx_Stats q r0 z0 r z) = Reported r z"

definition placed :: "'m tool_env \<Rightarrow> int \<times> int \<Rightarrow> sighting" where
  "placed env p = Placed [(fst (latlon_at env (fst p)), snd (latlon_at env (fst p)), d_of_int (snd p))]"

definition reports :: "int \<times> int \<Rightarrow> sighting list" where
  "reports p = (if 0 < fst p \<and> 0 < snd p then [Reported (fst p) (snd p)] else [])"

text \<open>The measurement of a list of points: the statistics of a point follow the placement for the next.\<close>

fun measurement :: "'m tool_env \<Rightarrow> int \<times> int \<Rightarrow> (int \<times> int) list \<Rightarrow> sighting list" where
  "measurement env p0 [] = reports p0"
| "measurement env p0 (p # ps) = placed env p # reports p0 @ Transmitted # measurement env p ps"

definition slot_ok :: "'m tool_config \<Rightarrow> bool" where
  "slot_ok cfg \<longleftrightarrow> 1 \<le> slot_seconds cfg \<and> slot_seconds cfg < 2 ^ 30"

definition running :: "tool \<Rightarrow> bool" where
  "running s \<longleftrightarrow> 2 \<le> drivers_ready s \<and> \<not> has_quit s"

definition ticks :: "fp list \<Rightarrow> 'm tool_event list" where
  "ticks ts = map (Tick True) ts"

lemma pass_between:
  assumes "slot_ok cfg" "running s" "loops_since_last_transmission s = l" "0 \<le> l" "l < 20 * slot_seconds cfg"
  shows "\<exists>s' out. tool_loop env cfg True now s = Inr (s', out)
     \<and> s' = s\<lparr>loops_since_last_transmission := l + 1, next_request_id := next_request_id s'\<rparr>
     \<and> map observe out = (if l = 5 * slot_seconds cfg \<and> \<not> run_complete s then [placed env (tool_r s, tool_z s)] else [])"
proof -
  let ?S = "slot_seconds cfg"
  have slots: "half_slot cfg = Fin (of_int (5 * ?S))" "two_slots cfg = Fin (of_int (20 * ?S))"
    using slot_passes [of cfg] assms(1) by (simp_all add: slot_ok_def)
  have half: "fp_eq (d_of_int l) (half_slot cfg) = (l = 5 * ?S)"
    unfolding slots using assms by (intro fp_eq_d_of_int) (simp_all add: slot_ok_def)
  have two: "\<not> fp_eq (d_of_int l) (two_slots cfg)"
    unfolding slots using assms fp_eq_d_of_int [of l "20 * ?S"] by (simp add: slot_ok_def)
  show ?thesis
    using assms half two
    by (cases "run_complete s")
      (auto simp: tool_loop_def Let_def running_def update_receiver_position_def placed_def nav_request_def)
qed

lemma passes_between:
  assumes "slot_ok cfg" "running s" "loops_since_last_transmission s = l" "0 \<le> l"
    and "l + int (length ts) \<le> 20 * slot_seconds cfg"
  shows "\<exists>s' out. run (tool_handle env cfg) (ticks ts) s = Inr (s', out)
     \<and> s' = s\<lparr>loops_since_last_transmission := l + int (length ts), next_request_id := next_request_id s'\<rparr>
     \<and> map observe out =
         (if l \<le> 5 * slot_seconds cfg \<and> 5 * slot_seconds cfg < l + int (length ts) \<and> \<not> run_complete s
          then [placed env (tool_r s, tool_z s)] else [])"
  using assms
proof (induction ts arbitrary: s l)
  case Nil
  then show ?case by (simp add: ticks_def)
next
  case (Cons t ts)
  obtain s1 out1 where step: "tool_loop env cfg True t s = Inr (s1, out1)"
    and s1: "s1 = s\<lparr>loops_since_last_transmission := l + 1, next_request_id := next_request_id s1\<rparr>"
    and out1: "map observe out1 =
        (if l = 5 * slot_seconds cfg \<and> \<not> run_complete s then [placed env (tool_r s, tool_z s)] else [])"
    using pass_between [OF Cons.prems(1-4), of env t] Cons.prems(5) by auto
  have same: "running s1" "loops_since_last_transmission s1 = l + 1" "tool_r s1 = tool_r s" "tool_z s1 = tool_z s"
    "run_complete s1 = run_complete s"
    using Cons.prems(2) by (subst s1, simp add: running_def)+
  from Cons.IH [OF Cons.prems(1) same(1,2)] Cons.prems(4,5) obtain s2 out2
    where rest: "run (tool_handle env cfg) (ticks ts) s1 = Inr (s2, out2)"
      and s2: "s2 = s1\<lparr>loops_since_last_transmission := l + 1 + int (length ts), next_request_id := next_request_id s2\<rparr>"
      and out2: "map observe out2 =
         (if l + 1 \<le> 5 * slot_seconds cfg \<and> 5 * slot_seconds cfg < l + 1 + int (length ts) \<and> \<not> run_complete s
          then [placed env (tool_r s, tool_z s)] else [])"
    using same by (auto simp: add_ac)
  have "s2 = s\<lparr>loops_since_last_transmission := l + int (length (t # ts)), next_request_id := next_request_id s2\<rparr>"
    using s2 by (subst (asm) s1) (simp add: add.assoc)
  moreover have "run (tool_handle env cfg) (ticks (t # ts)) s = Inr (s2, out1 @ out2)"
    using step rest Cons.prems(2) by (simp add: ticks_def running_def tool_handle_Tick)
  moreover have "map observe (out1 @ out2) =
      (if l \<le> 5 * slot_seconds cfg \<and> 5 * slot_seconds cfg < l + int (length (t # ts)) \<and> \<not> run_complete s
       then [placed env (tool_r s, tool_z s)] else [])"
    using out1 out2 by auto
  ultimately show ?case by blast
qed

lemma last_pass:
  assumes "slot_ok cfg" "running s" "loops_since_last_transmission s = 20 * slot_seconds cfg"
  shows "tool_loop env cfg True now s =
    (case publish_stats env cfg s of
       (s1, out) \<Rightarrow>
         if run_complete s1 then Inr (s1\<lparr>has_quit := True\<rparr>, out)
         else
           res_bind (advance cfg (s1\<lparr>last_r := tool_r s1, last_z := tool_z s1\<rparr>)) (\<lambda>s2.
             Inr (s2\<lparr>loops_since_last_transmission := 1\<rparr>, out @ [Pub_Transmit (transmission cfg)])))"
proof -
  let ?S = "slot_seconds cfg"
  have slots: "half_slot cfg = Fin (of_int (5 * ?S))" "two_slots cfg = Fin (of_int (20 * ?S))"
    using slot_passes [of cfg] assms(1) by (simp_all add: slot_ok_def)
  have "\<not> fp_eq (d_of_int (20 * ?S)) (half_slot cfg)" "fp_eq (d_of_int (20 * ?S)) (two_slots cfg)"
    unfolding slots using assms(1) by (subst fp_eq_d_of_int; simp add: slot_ok_def)+
  then show ?thesis using assms(2,3)
    by (cases "publish_stats env cfg s") (simp add: tool_loop_def running_def Let_def)
qed

lemma publish_stats_eq:
  "\<exists>s1 out. publish_stats env cfg s = (s1, out) \<and> s1 = s\<lparr>previous_stats := previous_stats s1\<rparr>
     \<and> map observe out = reports (last_r s, last_z s)"
  by (simp add: publish_stats_def reports_def)

lemma ticks_append: "ticks (ts @ us) = ticks ts @ ticks us"
  by (simp add: ticks_def)

section \<open>A whole run\<close>

text \<open>A round: the receiver is put at a point, and at its end the modem transmits.\<close>

lemma round_of_point:
  assumes "slot_ok cfg" "running s" "\<not> run_complete s"
    and l: "loops_since_last_transmission s \<in> {0, 1}"
    and len: "int (length ts) = 20 * slot_seconds cfg - loops_since_last_transmission s + 1"
    and bounds: "- (2 ^ 31) \<le> tool_r s + dr cfg" "tool_r s + dr cfg < 2 ^ 31"
      "- (2 ^ 31) \<le> tool_z s + dz cfg" "tool_z s + dz cfg < 2 ^ 31"
  shows "\<exists>s' out. run (tool_handle env cfg) (ticks ts) s = Inr (s', out) \<and> running s'
     \<and> map observe out = placed env (tool_r s, tool_z s) # reports (last_r s, last_z s) @ [Transmitted]
     \<and> loops_since_last_transmission s' = 1 \<and> last_r s' = tool_r s \<and> last_z s' = tool_z s
     \<and> (if tool_r s + dr cfg \<le> r_max cfg
        then tool_r s' = tool_r s + dr cfg \<and> tool_z s' = tool_z s \<and> \<not> run_complete s'
        else tool_r s' = r_min cfg \<and> tool_z s' = tool_z s + dz cfg
             \<and> run_complete s' = (z_max cfg < tool_z s + dz cfg))"
proof -
  let ?l = "loops_since_last_transmission s"
  have S: "1 \<le> slot_seconds cfg" using assms(1) by (simp add: slot_ok_def)
  have "ts \<noteq> []" using len l S by auto
  then obtain us t where ts: "ts = us @ [t]" by (metis rev_exhaust)
  have n: "?l + int (length us) = 20 * slot_seconds cfg" using len ts by simp
  obtain s1 out1 where r1: "run (tool_handle env cfg) (ticks us) s = Inr (s1, out1)"
    and s1: "s1 = s\<lparr>loops_since_last_transmission := 20 * slot_seconds cfg, next_request_id := next_request_id s1\<rparr>"
    and o1: "map observe out1 = [placed env (tool_r s, tool_z s)]"
    using passes_between [OF assms(1,2) refl, of us env] l n S assms(3) by auto
  have same: "running s1" "loops_since_last_transmission s1 = 20 * slot_seconds cfg" "tool_r s1 = tool_r s"
    "tool_z s1 = tool_z s" "last_r s1 = last_r s" "last_z s1 = last_z s" "\<not> run_complete s1"
    using assms(2,3) by (subst s1, simp add: running_def)+
  obtain s2 out2 where p: "publish_stats env cfg s1 = (s2, out2)"
    and s2: "s2 = s1\<lparr>previous_stats := previous_stats s2\<rparr>" and o2: "map observe out2 = reports (last_r s, last_z s)"
    using publish_stats_eq [of env cfg s1] same by auto
  have same2: "running s2" "tool_r s2 = tool_r s" "tool_z s2 = tool_z s" "\<not> run_complete s2"
    using same by (subst s2, simp add: running_def)+
  let ?s = "s2\<lparr>last_r := tool_r s, last_z := tool_z s\<rparr>"
  define s3 where "s3 = (if r_max cfg < tool_r s + dr cfg
      then ?s\<lparr>tool_r := r_min cfg, tool_z := tool_z s + dz cfg, run_complete := (z_max cfg < tool_z s + dz cfg)\<rparr>
      else ?s\<lparr>tool_r := tool_r s + dr cfg\<rparr>)"
  have "advance cfg ?s = Inr s3"
    using same2 bounds by (auto simp: advance_def add_int_def s3_def)
  then have "tool_loop env cfg True t s1 =
      Inr (s3\<lparr>loops_since_last_transmission := 1\<rparr>, out2 @ [Pub_Transmit (transmission cfg)])"
    unfolding last_pass [OF assms(1) same(1,2)] using p same2 by simp
  then have "run (tool_handle env cfg) (ticks ts) s =
      Inr (s3\<lparr>loops_since_last_transmission := 1\<rparr>, out1 @ out2 @ [Pub_Transmit (transmission cfg)])"
    using r1 same(1) by (simp add: ts ticks_append run_append) (simp add: ticks_def tool_handle_Tick running_def)
  moreover have "map observe (out1 @ out2 @ [Pub_Transmit (transmission cfg)]) =
      placed env (tool_r s, tool_z s) # reports (last_r s, last_z s) @ [Transmitted]"
    using o1 o2 by simp
  ultimately show ?thesis using same2 by (auto simp: s3_def running_def)
qed

text \<open>The last round publishes the statistics of the last point and ends the process.\<close>

lemma round_at_end:
  assumes "slot_ok cfg" "running s" "run_complete s" and "loops_since_last_transmission s = 1"
    and len: "int (length ts) = 20 * slot_seconds cfg"
  shows "\<exists>s' out. run (tool_handle env cfg) (ticks ts) s = Inr (s', out) \<and> has_quit s'
     \<and> map observe out = reports (last_r s, last_z s)"
proof -
  have S: "1 \<le> slot_seconds cfg" using assms(1) by (simp add: slot_ok_def)
  have "ts \<noteq> []" using len S by auto
  then obtain us t where ts: "ts = us @ [t]" by (metis rev_exhaust)
  have n: "1 + int (length us) = 20 * slot_seconds cfg" using len ts by simp
  obtain s1 out1 where r1: "run (tool_handle env cfg) (ticks us) s = Inr (s1, out1)"
    and s1: "s1 = s\<lparr>loops_since_last_transmission := 20 * slot_seconds cfg, next_request_id := next_request_id s1\<rparr>"
    and o1: "map observe out1 = []"
    using passes_between [OF assms(1,2,4), of us env] n S assms(3) by auto
  have same: "running s1" "loops_since_last_transmission s1 = 20 * slot_seconds cfg"
    "last_r s1 = last_r s" "last_z s1 = last_z s" "run_complete s1"
    using assms(2,3) by (subst s1, simp add: running_def)+
  obtain s2 out2 where p: "publish_stats env cfg s1 = (s2, out2)"
    and s2: "s2 = s1\<lparr>previous_stats := previous_stats s2\<rparr>" and o2: "map observe out2 = reports (last_r s, last_z s)"
    using publish_stats_eq [of env cfg s1] same by auto
  have "run_complete s2" using same by (subst s2) simp
  then have "tool_loop env cfg True t s1 = Inr (s2\<lparr>has_quit := True\<rparr>, out2)"
    unfolding last_pass [OF assms(1) same(1,2)] using p by simp
  then have "run (tool_handle env cfg) (ticks ts) s = Inr (s2\<lparr>has_quit := True\<rparr>, out1 @ out2)"
    using r1 same(1) by (simp add: ts ticks_append run_append) (simp add: ticks_def tool_handle_Tick running_def)
  with o1 o2 show ?thesis by simp
qed

text \<open>The passes a list of points takes.\<close>

definition passes :: "'m tool_config \<Rightarrow> int \<Rightarrow> (int \<times> int) list \<Rightarrow> int" where
  "passes cfg l ps = 20 * slot_seconds cfg * (int (length ps) + 1) + 1 - l"

lemma scan_run:
  assumes "slot_ok cfg" "grid_ok cfg" "running s" "\<not> run_complete s"
    and "loops_since_last_transmission s \<in> {0, 1}"
    and "r_min cfg \<le> tool_r s" "tool_r s \<le> r_max cfg" "z_min cfg \<le> tool_z s" "tool_z s \<le> z_max cfg"
    and "int (length ts) = passes cfg (loops_since_last_transmission s) (scan cfg (tool_r s) (tool_z s))"
  shows "\<exists>s' out. run (tool_handle env cfg) (ticks ts) s = Inr (s', out) \<and> has_quit s'
     \<and> map observe out = measurement env (last_r s, last_z s) (scan cfg (tool_r s) (tool_z s))"
  using assms
proof (induction "length (scan cfg (tool_r s) (tool_z s))" arbitrary: s ts rule: less_induct)
  case less
  let ?r = "tool_r s" and ?z = "tool_z s" and ?l = "loops_since_last_transmission s"
  have S: "1 \<le> slot_seconds cfg" and grid: "0 < dr cfg" "0 < dz cfg"
    using less.prems(1,2) by (simp_all add: slot_ok_def grid_ok_def)
  define k where "k = nat (20 * slot_seconds cfg - ?l + 1)"
  define rest where "rest = (if ?r + dr cfg \<le> r_max cfg then scan cfg (?r + dr cfg) ?z
      else if ?z + dz cfg \<le> z_max cfg then scan cfg (r_min cfg) (?z + dz cfg) else [])"
  have scan: "scan cfg ?r ?z = (?r, ?z) # rest"
    unfolding rest_def using grid by (subst scan.simps) simp
  have k: "int k = 20 * slot_seconds cfg - ?l + 1" using less.prems(5) S by (auto simp: k_def)
  have total: "int (length ts) = int k + 20 * slot_seconds cfg * (int (length rest) + 1)"
    using less.prems(10) by (simp add: passes_def scan k algebra_simps)
  moreover have "0 \<le> 20 * slot_seconds cfg * (int (length rest) + 1)" using S by simp
  ultimately have kl: "k \<le> length ts" by linarith
  then have kt: "int (length (take k ts)) = 20 * slot_seconds cfg - ?l + 1" using k by simp
  have "- (2 ^ 31) \<le> ?r + dr cfg" "?r + dr cfg < 2 ^ 31" "- (2 ^ 31) \<le> ?z + dz cfg" "?z + dz cfg < 2 ^ 31"
    using less.prems(2,6-9) by (auto simp: grid_ok_def)
  from round_of_point [OF less.prems(1,3,4,5) kt this, of env] obtain s1 out1 where r1: "run (tool_handle env cfg) (ticks (take k ts)) s = Inr (s1, out1)" and run1: "running s1"
    and o1: "map observe out1 = placed env (?r, ?z) # reports (last_r s, last_z s) @ [Transmitted]"
    and l1: "loops_since_last_transmission s1 = 1" "last_r s1 = ?r" "last_z s1 = ?z"
    and nxt: "if ?r + dr cfg \<le> r_max cfg
        then tool_r s1 = ?r + dr cfg \<and> tool_z s1 = ?z \<and> \<not> run_complete s1
        else tool_r s1 = r_min cfg \<and> tool_z s1 = ?z + dz cfg \<and> run_complete s1 = (z_max cfg < ?z + dz cfg)"
    by (elim exE conjE) (rule that)
  have drop: "int (length (drop k ts)) = 20 * slot_seconds cfg * (int (length rest) + 1)"
    using total kl by simp
  have "\<exists>s2 out2. run (tool_handle env cfg) (ticks (drop k ts)) s1 = Inr (s2, out2) \<and> has_quit s2
     \<and> map observe out2 = measurement env (?r, ?z) rest"
  proof (cases "run_complete s1")
    case True
    then have "rest = []" using nxt by (auto simp: rest_def split: if_splits)
    with round_at_end [OF less.prems(1) run1 True l1(1), of "drop k ts" env] drop l1 show ?thesis by simp
  next
    case False
    then have rest: "rest = scan cfg (tool_r s1) (tool_z s1)" using nxt by (auto simp: rest_def split: if_splits)
    have "r_min cfg \<le> tool_r s1" "tool_r s1 \<le> r_max cfg" "z_min cfg \<le> tool_z s1" "tool_z s1 \<le> z_max cfg"
      using nxt False less.prems(2,6-9) grid by (auto simp: grid_ok_def split: if_splits)
    moreover have "int (length (drop k ts)) = passes cfg (loops_since_last_transmission s1) (scan cfg (tool_r s1) (tool_z s1))"
      using drop by (simp add: passes_def l1 rest)
    moreover have "length (scan cfg (tool_r s1) (tool_z s1)) < length (scan cfg ?r ?z)" by (simp add: scan rest)
    ultimately show ?thesis
      using less.hyps [of s1 "drop k ts"] less.prems(1,2) run1 False l1 rest by auto
  qed
  then obtain s2 out2 where "run (tool_handle env cfg) (ticks (drop k ts)) s1 = Inr (s2, out2)" "has_quit s2"
    "map observe out2 = measurement env (?r, ?z) rest" by blast
  moreover from this(1) r1 have "run (tool_handle env cfg) (ticks (take k ts @ drop k ts)) s = Inr (s2, out1 @ out2)"
    unfolding ticks_append by (simp add: run_append)
  ultimately show ?case using o1 by (simp add: scan)
qed

section \<open>Properties\<close>

lemma points_from_start: "z_min cfg \<le> z_max cfg \<Longrightarrow> 0 < dz cfg \<Longrightarrow>
    points_from cfg (r_min cfg) (z_min cfg) =
    steps (dr cfg) (r_min cfg) (r_max cfg) \<times> steps (dz cfg) (z_min cfg) (z_max cfg)"
  using steps_insert [of "dz cfg" "z_min cfg" "z_max cfg"] by (auto simp: points_from_def)

lemma tool_run:
  assumes "slot_ok cfg" "grid_ok cfg" "tool_init env cfg True now q = Inr (s0, out0)"
    and "int (length ts) = passes cfg 0 (scan cfg (r_min cfg) (z_min cfg))"
  shows "\<exists>s out. run (tool_handle env cfg) (Driver_Ready i # Driver_Ready j # ticks ts) s0 = Inr (s, out)
     \<and> has_quit s \<and> map observe out = measurement env (- 1, - 1) (scan cfg (r_min cfg) (z_min cfg))"
proof -
  define s2 where "s2 = s0\<lparr>drivers_ready := drivers_ready s0 + 1 + 1\<rparr>"
  have s0: "drivers_ready s0 = 0" "\<not> has_quit s0" "\<not> run_complete s0" "tool_r s0 = r_min cfg" "tool_z s0 = z_min cfg"
    "last_r s0 = - 1" "last_z s0 = - 1" "loops_since_last_transmission s0 = 0"
    using assms(3) by (auto simp: tool_init_def update_receiver_position_def)
  have "running s2" "\<not> run_complete s2" "loops_since_last_transmission s2 \<in> {0, 1}"
    "r_min cfg \<le> tool_r s2" "tool_r s2 \<le> r_max cfg" "z_min cfg \<le> tool_z s2" "tool_z s2 \<le> z_max cfg"
    "int (length ts) = passes cfg (loops_since_last_transmission s2) (scan cfg (tool_r s2) (tool_z s2))"
    using s0 assms(2,4) by (auto simp: s2_def running_def grid_ok_def)
  from scan_run [OF assms(1,2) this, of env] s0 obtain s out
    where "run (tool_handle env cfg) (ticks ts) s2 = Inr (s, out)" "has_quit s"
      "map observe out = measurement env (- 1, - 1) (scan cfg (r_min cfg) (z_min cfg))"
    by (auto simp: s2_def)
  then show ?thesis using s0 by (simp add: tool_handle.simps s2_def)
qed

definition no_stats1 :: mm_statistics where
  "no_stats1 = \<lparr>receive_good = False, mse_scaled = Fin 0, number_bad_frames = 0, number_frames = 0\<rparr>"

definition tool_env1 :: "nat tool_env" where
  "tool_env1 = \<lparr>latlon_at = (\<lambda>r. (d_of_int r, Fin 0)), receive_stats_of = (\<lambda>_. []),
                is_initialized = (\<lambda>q. number_frames q \<noteq> 0), cleared_stats = no_stats1\<rparr>"

definition tool_cfg1 :: "nat tool_config" where
  "tool_cfg1 = \<lparr>tx_tcp_port = 62000, rx_tcp_port = 62001, transmission = 7, slot_seconds = 10, r_min = 0,
                z_min = 10, r_max = 200, z_max = 20, dr = 100, dz = 10, source_z = 5,
                lat_origin = Fin 42, lon_origin = Fin (- 70)\<rparr>"

lemma tool_cfg1_ok: "slot_ok tool_cfg1" "grid_ok tool_cfg1"
  by (simp_all add: slot_ok_def grid_ok_def tool_cfg1_def)

lemma tool_scan1: "scan tool_cfg1 0 10 = [(0, 10), (100, 10), (200, 10), (0, 20), (100, 20), (200, 20)]"
  by (simp add: scan.simps tool_cfg1_def)

lemma tool_passes1: "passes tool_cfg1 0 (scan tool_cfg1 (r_min tool_cfg1) (z_min tool_cfg1)) = 1401"
proof -
  have "r_min tool_cfg1 = 0" "z_min tool_cfg1 = 10" "slot_seconds tool_cfg1 = 10" by (simp_all add: tool_cfg1_def)
  then show ?thesis by (simp add: passes_def tool_scan1)
qed



text \<open>
  In such a run the statistics are published of exactly the grid points with a range and a depth above
  zero: nothing is published of a point at range zero or at depth zero, although the modem transmits there.
\<close>

theorem statistics_published_above_zero:
  assumes "slot_ok cfg" "grid_ok cfg" "tool_init env cfg True now q = Inr (s0, out0)"
    and "int (length ts) = passes cfg 0 (scan cfg (r_min cfg) (z_min cfg))"
    and "run (tool_handle env cfg) (Driver_Ready i # Driver_Ready j # ticks ts) s0 = Inr (s, out)"
  shows "Reported r z \<in> set (map observe out) \<longleftrightarrow>
     r \<in> steps (dr cfg) (r_min cfg) (r_max cfg) \<and> z \<in> steps (dz cfg) (z_min cfg) (z_max cfg) \<and> 0 < r \<and> 0 < z"
proof -
  have out: "map observe out = measurement env (- 1, - 1) (scan cfg (r_min cfg) (z_min cfg))"
    using tool_run [OF assms(1-4), of i j] assms(5) by auto
  have rep: "Reported r z \<in> set (reports p) \<longleftrightarrow> p = (r, z) \<and> 0 < r \<and> 0 < z" for p
    by (cases p) (auto simp: reports_def)
  have "Reported r z \<in> set (measurement env p ps) \<longleftrightarrow> (r, z) \<in> set (p # ps) \<and> 0 < r \<and> 0 < z" for p ps
    by (induction ps arbitrary: p) (auto simp: rep placed_def)
  then show ?thesis
    unfolding out using set_scan [of cfg "r_min cfg" "z_min cfg"] points_from_start [of cfg] assms(2)
    by (auto simp: grid_ok_def)
qed

theorem statistics_published_above_zero_witness:
  "\<exists>s0 out0 s out. tool_init tool_env1 tool_cfg1 True (Fin 0) no_stats1 = Inr (s0, out0)
     \<and> run (tool_handle tool_env1 tool_cfg1) (Driver_Ready 1 # Driver_Ready 2 # ticks (replicate 1401 (Fin 0))) s0
       = Inr (s, out) \<and> Reported 100 20 \<in> set (map observe out) \<and> Reported 0 20 \<notin> set (map observe out)"
proof -
  obtain s0 out0 where i: "tool_init tool_env1 tool_cfg1 True (Fin 0) no_stats1 = Inr (s0, out0)"
    by (auto simp: tool_init_def update_receiver_position_def)
  have len: "int (length (replicate 1401 (Fin 0))) = passes tool_cfg1 0 (scan tool_cfg1 (r_min tool_cfg1) (z_min tool_cfg1))"
    unfolding tool_passes1 by simp
  from tool_run [OF tool_cfg1_ok i len, of 1 2] obtain s out
    where r: "run (tool_handle tool_env1 tool_cfg1) (Driver_Ready 1 # Driver_Ready 2 # ticks (replicate 1401 (Fin 0))) s0
       = Inr (s, out)" by blast
  have "100 \<in> steps (dr tool_cfg1) (r_min tool_cfg1) (r_max tool_cfg1)"
    "20 \<in> steps (dz tool_cfg1) (z_min tool_cfg1) (z_max tool_cfg1)" by (simp_all add: steps_def tool_cfg1_def)
  with statistics_published_above_zero [OF tool_cfg1_ok i len r] i r show ?thesis by auto
qed

text \<open>
  A grid whose range does not grow: the tool transmits at its first point for ever. The configuration is
  not checked.
\<close>

interpretation stuck: component "tool_handle env cfg" "\<lambda>_. dr cfg = 0 \<and> r_min cfg \<le> r_max cfg"
    "\<lambda>s. \<not> has_quit s \<and> \<not> run_complete s \<and> tool_r s = r_min cfg" for env cfg
proof unfold_locales
  fix ev s s' out
  assume a: "dr cfg = 0 \<and> r_min cfg \<le> r_max cfg" "\<not> has_quit s \<and> \<not> run_complete s \<and> tool_r s = r_min cfg"
    and h: "tool_handle env cfg ev s = Inr (s', out)"
  show "\<not> has_quit s' \<and> \<not> run_complete s' \<and> tool_r s' = r_min cfg"
  proof (cases ev)
    case (Tick online now)
    obtain s1 out1 where p: "publish_stats env cfg s = (s1, out1)" "s1 = s\<lparr>previous_stats := previous_stats s1\<rparr>"
      using publish_stats_eq by blast
    have "\<not> has_quit s1" "\<not> run_complete s1" "tool_r s1 = r_min cfg" using a by (subst p(2), simp)+
    with a h p(1) Tick show ?thesis
      by (auto simp: tool_handle.simps tool_loop_def Let_def update_receiver_position_def advance_def add_int_def
          res_bind_eq_Inr split: if_splits)
  qed (use a h in \<open>auto simp: tool_handle.simps receive_data_def split: list.splits\<close>)
qed

theorem zero_step_never_ends:
  assumes "dr cfg = 0" "r_min cfg \<le> r_max cfg" "tool_init env cfg True now q = Inr (s0, out0)"
    and "run (tool_handle env cfg) evs s0 = Inr (s, out)"
  shows "\<not> has_quit s"
proof -
  have "\<not> has_quit s0 \<and> \<not> run_complete s0 \<and> tool_r s0 = r_min cfg"
    using assms(3) by (auto simp: tool_init_def update_receiver_position_def)
  from stuck.run_inv [OF _ this assms(4)] assms(1,2) show ?thesis by (simp add: list_all_iff)
qed

end
