(* ===== verification/Environment.thy ===== *)
theory Environment
  imports Ieee Text
begin

text \<open>
  The input files of the ray tracer BELLHOP (\<open>netsim::bellhop::Environment::output_env\<close>,
  \<open>src/lib/acousticstoolbox/environment.cpp\<close>) and the message they are written from
  (\<open>environment.proto\<close>).

  A stream is the string written to it. How a stream prints a \<open>double\<close> depends on whether
  \<open>std::fixed\<close> and \<open>std::setprecision(3)\<close> were sent to it before, which stays in force: \<open>show_double\<close>, a
  parameter like the function \<open>pow\<close>, gets that flag. Depths are taken to be numbers, because
  \<open>std::map\<close> requires keys it can order.
\<close>

section \<open>The message\<close>

datatype output_type =
    ARRIVAL_TIMES | EIGENRAYS | RAYS | COHERENT_PRESSURE | INCOHERENT_PRESSURE | SEMICOHERENT_PRESSURE

datatype medium_type = VACUUM | RIGID | HALF_SPACE | REFLECTION_COEFFICIENT

datatype attenuation_units =
    DB_PER_M_KHZ | PARAMETER_LOSS | DB_PER_M | NEPERS_PER_M | Q_FACTOR | DB_PER_WAVELENGTH

datatype ssp_interpolation = CUBIC_SPLINE | C_LINEAR | N2_LINEAR

datatype approximation_type = GEOMETRIC | CARTESIAN | RAY_CENTERED | GAUSSIAN

record rc_sample =
  rc_angle :: fp
  rc_loss :: fp
  rc_phase :: fp

record medium =
  medium_kind :: medium_type
  attenuation_unit :: attenuation_units
  attenuation_value :: fp
  medium_cp :: fp
  medium_cs :: fp
  medium_density :: fp
  medium_depth :: fp
  rc_samples :: "rc_sample list"

record ssp_sample =
  sample_depth :: fp
  sample_cp :: fp
  sample_eof :: "fp list"

record water_column =
  interpolation_type :: ssp_interpolation
  eof_coef :: "fp list"
  use_attenuation :: bool
  ssp_samples :: "ssp_sample list"
  column_range :: fp
  bathymetry :: fp

record beams_cfg =
  beam_approximation :: approximation_type
  theta_min :: int
  theta_max :: int
  beam_number :: int

record bellhop_env =
  env_title :: string
  env_freq :: int
  env_output :: output_type
  surface :: medium
  water_columns :: "water_column list"
  bottom :: medium
  source_number :: int
  source_first_depth :: fp
  source_last_depth :: fp
  receiver_number_in_depth :: int
  receiver_number_in_range :: int
  receiver_first_depth :: fp
  receiver_first_range :: fp
  receiver_last_depth :: fp
  receiver_last_range :: fp
  env_beams :: beams_cfg

record print_env =
  show_double :: "bool \<Rightarrow> fp \<Rightarrow> string"
  pow10 :: "fp \<Rightarrow> fp"

record bellhop_files =
  env_file :: string
  ssp_file :: string
  bty_file :: string
  trc_file :: string
  brc_file :: string

section \<open>Sound speed profiles\<close>

text \<open>\<open>map[k] = v\<close> on a \<open>std::map\<close>, as the list of its pairs in the order of the keys.\<close>

fun assign :: "fp \<Rightarrow> fp \<Rightarrow> (fp \<times> fp) list \<Rightarrow> (fp \<times> fp) list" where
  "assign k v [] = [(k, v)]"
| "assign k v ((a, b) # xs) =
     (if k < a then (k, v) # (a, b) # xs
      else if a < k then (a, b) # assign k v xs
      else (a, v) # xs)"

text \<open>The sound speed of a sample with the empirical orthogonal functions added to it, in their order.\<close>

definition ssp_of :: "fp list \<Rightarrow> ssp_sample \<Rightarrow> fp" where
  "ssp_of coef s =
     foldl (\<lambda>ssp (e, c). d_add ssp (d_mul e c)) (sample_cp s)
       (zip (sample_eof s) coef)"

definition depth_ssp_map :: "water_column \<Rightarrow> (fp \<times> fp) list" where
  "depth_ssp_map wc =
     foldl (\<lambda>m s. assign (sample_depth s) (ssp_of (eof_coef wc) s) m) [] (ssp_samples wc)"

text \<open>The first of the columns with the greatest bathymetry, or the first one if none is above zero.\<close>

definition k_bathy_max :: "water_column list \<Rightarrow> nat" where
  "k_bathy_max wcs =
     snd (foldl (\<lambda>(best, i) (k, wc). if best < bathymetry wc then (bathymetry wc, k) else (best, i))
            (Fin 0, 0) (enumerate 0 wcs))"

fun map_res :: "('a \<Rightarrow> 'b res) \<Rightarrow> 'a list \<Rightarrow> 'b list res" where
  "map_res f [] = Inr []"
| "map_res f (x # xs) = res_bind (f x) (\<lambda>y. res_bind (map_res f xs) (\<lambda>ys. Inr (y # ys)))"

section \<open>The grid of the range-dependent case\<close>

text \<open>
  The loop over the profile of one column: \<open>n\<close> is the number of its depths, \<open>deepest\<close> the depths of the
  deepest column, as integers.
\<close>

fun fill_row :: "int list \<Rightarrow> nat \<Rightarrow> nat \<Rightarrow> (fp \<times> fp) list \<Rightarrow> fp list \<Rightarrow> fp list res" where
  "fill_row deepest n indx [] row = Inr row"
| "fill_row deepest n indx ((z, c) # ps) row =
     res_bind (to_int32 z) (\<lambda>i.
       if length deepest \<le> indx then Inl Undefined_Behaviour
       else if i \<noteq> deepest ! indx \<and> indx \<noteq> n - 1
       then Inl (Runtime_Error ''SSP grid must have same depths for all ranges'')
       else if length row \<le> indx then Inl Undefined_Behaviour
       else fill_row deepest n (Suc indx) ps (row[indx := c]))"

definition ssp_row :: "int list \<Rightarrow> nat \<Rightarrow> water_column \<Rightarrow> fp list res" where
  "ssp_row deepest width wc =
     (let m = depth_ssp_map wc
      in if m = [] then Inl Undefined_Behaviour
         else fill_row deepest (length m) 0 m (replicate width (snd (last m))))"

definition rd_ssp_mat :: "int list \<Rightarrow> water_column list \<Rightarrow> fp list list res" where
  "rd_ssp_mat deepest wcs =
     (if length wcs \<le> 1 then Inr []
      else map_res (ssp_row deepest (length (ssp_samples (wcs ! k_bathy_max wcs)))) wcs)"

section \<open>The letters of the options\<close>

fun interpolation_letter :: "ssp_interpolation \<Rightarrow> string" where
  "interpolation_letter CUBIC_SPLINE = ''S''"
| "interpolation_letter C_LINEAR = ''C''"
| "interpolation_letter N2_LINEAR = ''N''"

fun medium_letter :: "medium_type \<Rightarrow> string" where
  "medium_letter VACUUM = ''V''"
| "medium_letter RIGID = ''R''"
| "medium_letter HALF_SPACE = ''A''"
| "medium_letter REFLECTION_COEFFICIENT = ''F''"

fun attenuation_letter :: "attenuation_units \<Rightarrow> string" where
  "attenuation_letter DB_PER_M_KHZ = ''F''"
| "attenuation_letter PARAMETER_LOSS = ''L''"
| "attenuation_letter DB_PER_M = ''M''"
| "attenuation_letter NEPERS_PER_M = ''N''"
| "attenuation_letter Q_FACTOR = ''Q''"
| "attenuation_letter DB_PER_WAVELENGTH = ''W''"

fun output_letter :: "output_type \<Rightarrow> string" where
  "output_letter ARRIVAL_TIMES = ''A''"
| "output_letter EIGENRAYS = ''E''"
| "output_letter RAYS = ''R''"
| "output_letter COHERENT_PRESSURE = ''C''"
| "output_letter INCOHERENT_PRESSURE = ''I''"
| "output_letter SEMICOHERENT_PRESSURE = ''S''"

fun beam_letter :: "approximation_type \<Rightarrow> string" where
  "beam_letter GEOMETRIC = ''G''"
| "beam_letter CARTESIAN = ''C''"
| "beam_letter RAY_CENTERED = ''R''"
| "beam_letter GAUSSIAN = ''B''"

section \<open>Writing\<close>

definition endl :: string where "endl = [CHR 10]"

text \<open>The line of a half space, and the table of a reflection coefficient.\<close>

definition half_space_line :: "print_env \<Rightarrow> bool \<Rightarrow> medium \<Rightarrow> string" where
  "half_space_line pe fixed m =
     (if medium_kind m = HALF_SPACE
      then show_double pe fixed (medium_depth m) @ '' '' @ show_double pe fixed (medium_cp m) @ '' ''
           @ show_double pe fixed (medium_cs m) @ '' '' @ show_double pe fixed (medium_density m) @ '' ''
           @ show_double pe fixed (attenuation_value m) @ '' /'' @ endl
      else '''')"

definition rc_table :: "print_env \<Rightarrow> medium \<Rightarrow> string" where
  "rc_table pe m =
     (if medium_kind m = REFLECTION_COEFFICIENT \<and> rc_samples m \<noteq> []
      then dec (int (length (rc_samples m))) @ endl
           @ concat (map (\<lambda>s. show_double pe False (rc_angle s) @ '' ''
                 @ show_double pe False (pow10 pe (d_div (fp_neg (rc_loss s)) (Fin 20))) @ '' ''
                 @ show_double pe False (rc_phase s) @ endl) (rc_samples m))
      else '''')"

text \<open>The options of the top: the half space of the surface is written in between.\<close>

definition top_options :: "print_env \<Rightarrow> bool \<Rightarrow> bellhop_env \<Rightarrow> string" where
  "top_options pe fixed env =
     [CHR 0x27] @ (if 1 < length (water_columns env) then ''Q''
               else interpolation_letter (interpolation_type (hd (water_columns env))))
     @ half_space_line pe fixed (surface env) @ medium_letter (medium_kind (surface env))
     @ attenuation_letter (attenuation_unit (bottom env))"

definition box_factor :: fp where
  "box_factor = d_add (Fin 1) (d_div (Fin 10) (Fin 100))"

definition km :: "fp \<Rightarrow> fp" where
  "km r = d_div r (Fin 1000)"

definition profile_lines :: "print_env \<Rightarrow> (fp \<times> fp) list \<Rightarrow> string" where
  "profile_lines pe m =
     concat (map (\<lambda>(z, c). show_double pe True z @ '' '' @ show_double pe True c @ '' /'' @ endl) m)"

text \<open>Everything behind the profile; \<open>std::fixed\<close> is in force.\<close>

definition env_tail :: "print_env \<Rightarrow> bellhop_env \<Rightarrow> int \<Rightarrow> string" where
  "env_tail pe env box_depth =
     [CHR 0x27] @ medium_letter (medium_kind (bottom env))
     @ (if 1 < length (water_columns env) then ''*'' else '''') @ [CHR 0x27] @ '' 0'' @ endl
     @ half_space_line pe True (bottom env)
     @ dec (source_number env) @ endl
     @ show_double pe True (source_first_depth env)
     @ (if 1 < source_number env then '' '' @ show_double pe True (source_last_depth env) else '''') @ '' /'' @ endl
     @ dec (receiver_number_in_depth env) @ endl
     @ show_double pe True (receiver_first_depth env)
     @ (if 1 < receiver_number_in_depth env then '' '' @ show_double pe True (receiver_last_depth env) else '''')
     @ '' /'' @ endl
     @ dec (receiver_number_in_range env) @ endl
     @ show_double pe True (km (receiver_first_range env))
     @ (if 1 < receiver_number_in_range env then '' '' @ show_double pe True (km (receiver_last_range env)) else '''')
     @ '' /'' @ endl
     @ [CHR 0x27] @ output_letter (env_output env) @ beam_letter (beam_approximation (env_beams env)) @ [CHR 0x27] @ endl
     @ dec (beam_number (env_beams env)) @ endl
     @ dec (theta_min (env_beams env)) @ '' '' @ dec (theta_max (env_beams env)) @ '' /'' @ endl
     @ ''0 '' @ dec box_depth @ '' '' @ show_double pe True (d_mul (km (receiver_last_range env)) box_factor) @ endl"

definition ssp_lines :: "print_env \<Rightarrow> water_column list \<Rightarrow> fp list list \<Rightarrow> string" where
  "ssp_lines pe wcs mat =
     dec (int (length wcs)) @ endl
     @ concat (map (\<lambda>wc. show_double pe False (km (column_range wc)) @ '' '') wcs) @ endl
     @ concat (map (\<lambda>i. concat (map (\<lambda>row. show_double pe False (row ! i) @ '' '') mat) @ endl)
                   [0..<length (hd mat)])"

text \<open>\<open>fixed\<close>: whether the stream prints in fixed notation already; it does from the first line on.\<close>

fun bty_lines :: "print_env \<Rightarrow> bool \<Rightarrow> water_column list \<Rightarrow> string" where
  "bty_lines pe fixed [] = ''''"
| "bty_lines pe fixed (wc # wcs) =
     show_double pe fixed (km (column_range wc)) @ '' '' @ show_double pe True (bathymetry wc) @ endl
     @ bty_lines pe True wcs"

definition output_env :: "print_env \<Rightarrow> bool \<Rightarrow> bool \<Rightarrow> bellhop_env \<Rightarrow> bellhop_files res" where
  "output_env pe os_fixed bty_fixed env =
     (let wcs = water_columns env;
          wc = wcs ! k_bathy_max wcs;
          m = depth_ssp_map wc
      in if wcs = [] \<or> m = [] then Inl Undefined_Behaviour
         else
           res_bind (map_res (\<lambda>p. to_int32 (fst p)) m) (\<lambda>deepest_ssp_dep.
           res_bind (rd_ssp_mat deepest_ssp_dep wcs) (\<lambda>mat.
           res_bind (to_int32 (d_mul (fst (last m)) box_factor)) (\<lambda>box_depth.
             Inr \<lparr>env_file =
                    [CHR 0x27] @ env_title env @ [CHR 0x27] @ endl @ dec (env_freq env) @ endl @ ''1'' @ endl
                    @ top_options pe os_fixed env @ (if use_attenuation wc then ''T'' else '''') @ [CHR 0x27] @ endl
                    @ ''0 0 '' @ show_double pe True (fst (last m)) @ endl
                    @ profile_lines pe m @ env_tail pe env box_depth,
                  ssp_file = (if 1 < length wcs then ssp_lines pe wcs mat else ''''),
                  bty_file = (if 1 < length wcs
                              then [CHR 0x27] @ ''L'' @ [CHR 0x27] @ endl @ dec (int (length wcs)) @ endl
                                   @ bty_lines pe bty_fixed wcs else ''''),
                  trc_file = rc_table pe (surface env),
                  brc_file = rc_table pe (bottom env)\<rparr>))))"

section \<open>Profiles are ordered\<close>

definition ascending :: "(fp \<times> fp) list \<Rightarrow> bool" where
  "ascending xs \<longleftrightarrow> sorted_wrt (\<lambda>p q. fst p < fst q) xs"

lemma fp_less_linear: "a \<noteq> NaN \<Longrightarrow> b \<noteq> NaN \<Longrightarrow> a < b \<or> a = b \<or> b < (a::fp)"
  by (cases a; cases b) auto

lemma fst_set_assign:
  "k \<noteq> NaN \<Longrightarrow> NaN \<notin> fst ` set xs \<Longrightarrow> fst ` set (assign k v xs) = insert k (fst ` set xs)"
proof (induction xs)
  case (Cons p xs)
  obtain a b where p: "p = (a, b)" by (rule prod.exhaust)
  show ?case using Cons fp_less_linear [of k a] by (auto simp: p)
qed simp

lemma ascending_assign:
  assumes "k \<noteq> NaN" "NaN \<notin> fst ` set xs" "ascending xs"
  shows "ascending (assign k v xs)"
  using assms
proof (induction xs)
  case (Cons p xs)
  obtain a b where p: "p = (a, b)" by (rule prod.exhaust)
  have IH: "ascending (assign k v xs)" using Cons by (simp add: ascending_def)
  have set: "fst ` set (assign k v xs) = insert k (fst ` set xs)" using Cons.prems by (intro fst_set_assign) auto
  consider "k < a" | "\<not> k < a" "a < k" | "k = a" using fp_less_linear [of k a] Cons.prems by (auto simp: p)
  then show ?case
  proof cases
    case 1
    with Cons.prems show ?thesis by (auto simp: p ascending_def intro: fp_less_trans)
  next
    case 2
    have "a < fst q" if "q \<in> set (assign k v xs)" for q
    proof -
      from that set have "fst q = k \<or> fst q \<in> fst ` set xs" by blast
      with 2 Cons.prems show ?thesis by (auto simp: p ascending_def)
    qed
    with 2 IH show ?thesis by (auto simp: p ascending_def)
  next
    case 3
    with Cons.prems show ?thesis by (auto simp: p ascending_def fp_less_irrefl)
  qed
qed (simp add: ascending_def)

lemma map_of_assign:
  assumes "k \<noteq> NaN" "NaN \<notin> fst ` set xs"
  shows "map_of (assign k v xs) = (map_of xs)(k \<mapsto> v)"
  using assms
proof (induction xs)
  case (Cons p xs)
  obtain a b where p: "p = (a, b)" by (rule prod.exhaust)
  show ?case using Cons fp_less_linear [of k a] by (auto simp: p fun_upd_twist)
qed simp

text \<open>The depths of a column are numbers.\<close>

definition depths_ok :: "water_column \<Rightarrow> bool" where
  "depths_ok wc \<longleftrightarrow> (\<forall>s \<in> set (ssp_samples wc). sample_depth s \<noteq> NaN)"

lemma fold_assign:
  assumes "\<forall>s \<in> set ss. sample_depth s \<noteq> NaN" "NaN \<notin> fst ` set m" "ascending m"
  shows "ascending (foldl (\<lambda>m s. assign (sample_depth s) (g s) m) m ss)
     \<and> fst ` set (foldl (\<lambda>m s. assign (sample_depth s) (g s) m) m ss) = sample_depth ` set ss \<union> fst ` set m
     \<and> map_of (foldl (\<lambda>m s. assign (sample_depth s) (g s) m) m ss) =
         map_of m ++ map_of (rev (map (\<lambda>s. (sample_depth s, g s)) ss))"
  using assms
proof (induction ss arbitrary: m)
  case (Cons s ss)
  let ?m = "assign (sample_depth s) (g s) m"
  have "fst ` set ?m = insert (sample_depth s) (fst ` set m)" "ascending ?m"
    "map_of ?m = (map_of m)(sample_depth s \<mapsto> g s)"
    using Cons.prems by (auto intro!: fst_set_assign ascending_assign map_of_assign)
  moreover from this Cons.prems have "ascending (foldl (\<lambda>m s. assign (sample_depth s) (g s) m) ?m ss)
     \<and> fst ` set (foldl (\<lambda>m s. assign (sample_depth s) (g s) m) ?m ss) = sample_depth ` set ss \<union> fst ` set ?m
     \<and> map_of (foldl (\<lambda>m s. assign (sample_depth s) (g s) m) ?m ss) =
         map_of ?m ++ map_of (rev (map (\<lambda>s. (sample_depth s, g s)) ss))"
    by (intro Cons.IH) auto
  ultimately show ?case by simp
qed simp

lemma depth_ssp_map_spec:
  assumes "depths_ok wc"
  shows "ascending (depth_ssp_map wc)" "fst ` set (depth_ssp_map wc) = sample_depth ` set (ssp_samples wc)"
    "map_of (depth_ssp_map wc) = map_of (rev (map (\<lambda>s. (sample_depth s, ssp_of (eof_coef wc) s)) (ssp_samples wc)))"
  using fold_assign [of "ssp_samples wc" "[]" "ssp_of (eof_coef wc)"] assms
  by (auto simp: depth_ssp_map_def depths_ok_def ascending_def)

section \<open>The grid\<close>

text \<open>When a row can be filled, and with what.\<close>

definition same_depth :: "int list \<Rightarrow> nat \<Rightarrow> fp \<Rightarrow> bool" where
  "same_depth deepest i z \<longleftrightarrow> to_int32 z = Inr (deepest ! i)"

lemma fill_row_eq:
  assumes "n = indx + length ps"
  shows "fill_row deepest n indx ps row = Inr row' \<longleftrightarrow>
     (\<forall>i < length ps. \<exists>d. to_int32 (fst (ps ! i)) = Inr d)
     \<and> (ps \<noteq> [] \<longrightarrow> n \<le> length deepest \<and> n \<le> length row)
     \<and> (\<forall>i. Suc i < length ps \<longrightarrow> same_depth deepest (indx + i) (fst (ps ! i)))
     \<and> row' = (if ps = [] then row else take indx row @ map snd ps @ drop n row)"
  using assms
proof (induction ps arbitrary: indx row)
  case Nil
  then show ?case by auto
next
  case (Cons p ps)
  obtain z c where p: "p = (z, c)" by (rule prod.exhaust)
  show ?case
  proof (cases "to_int32 z")
    case (Inl f)
    then show ?thesis by (auto simp: p)
  next
    case (Inr d)
    show ?thesis
    proof (cases "indx < length deepest \<and> indx < length row \<and> (d = deepest ! indx \<or> ps = [])")
      case False
      then show ?thesis using Inr Cons.prems by (auto simp: p same_depth_def)
    next
      case True
      then have "fill_row deepest n indx (p # ps) row = fill_row deepest n (Suc indx) ps (row[indx := c])"
        using Inr Cons.prems by (auto simp: p)
      moreover have "take (Suc indx) (row[indx := c]) @ map snd ps @ drop n (row[indx := c]) =
          take indx row @ map snd (p # ps) @ drop n row"
        using True Cons.prems by (simp add: p take_Suc_conv_app_nth)
      moreover have "(\<forall>i < length (p # ps). \<exists>d. to_int32 (fst ((p # ps) ! i)) = Inr d) \<longleftrightarrow>
          (\<forall>i < length ps. \<exists>d. to_int32 (fst (ps ! i)) = Inr d)"
        using Inr by (auto simp: p nth_Cons split: nat.split)
      moreover have "(\<forall>i. Suc i < length (p # ps) \<longrightarrow> same_depth deepest (indx + i) (fst ((p # ps) ! i))) \<longleftrightarrow>
          (\<forall>i. Suc i < length ps \<longrightarrow> same_depth deepest (Suc indx + i) (fst (ps ! i)))"
        using Inr True by (auto simp: p nth_Cons same_depth_def split: nat.split)
      moreover have "ps = [] \<Longrightarrow> row[indx := c] = take indx row @ c # drop (Suc indx) row"
        using True by (simp add: upd_conv_take_nth_drop)
      ultimately show ?thesis
        using Cons.IH [of "Suc indx" "row[indx := c]"] Cons.prems True by (cases "ps = []") (auto simp: p)
    qed
  qed
qed

text \<open>The conditions on a column, given the depths and the number of samples of the deepest one.\<close>

definition fits_grid :: "int list \<Rightarrow> nat \<Rightarrow> water_column \<Rightarrow> bool" where
  "fits_grid deepest width wc \<longleftrightarrow>
     (let m = depth_ssp_map wc
      in m \<noteq> [] \<and> length m \<le> length deepest \<and> length m \<le> width
         \<and> (\<forall>i < length m. \<exists>d. to_int32 (fst (m ! i)) = Inr d)
         \<and> (\<forall>i. Suc i < length m \<longrightarrow> same_depth deepest i (fst (m ! i))))"

text \<open>The speeds of a column, continued by the deepest one.\<close>

definition extended_speeds :: "nat \<Rightarrow> water_column \<Rightarrow> fp list" where
  "extended_speeds width wc =
     (let m = depth_ssp_map wc in map snd m @ replicate (width - length m) (snd (last m)))"

lemma ssp_row_eq:
  "ssp_row deepest width wc = Inr row \<longleftrightarrow> fits_grid deepest width wc \<and> row = extended_speeds width wc"
proof (cases "depth_ssp_map wc = []")
  case False
  then show ?thesis
    using fill_row_eq [of "length (depth_ssp_map wc)" 0 "depth_ssp_map wc" deepest
        "replicate width (snd (last (depth_ssp_map wc)))" row]
    by (auto simp: ssp_row_def fits_grid_def extended_speeds_def Let_def)
qed (simp add: ssp_row_def fits_grid_def)

lemma map_res_eq:
  assumes "\<And>x y. f x = Inr y \<longleftrightarrow> P x \<and> y = g x"
  shows "map_res f xs = Inr ys \<longleftrightarrow> (\<forall>x \<in> set xs. P x) \<and> ys = map g xs"
  using assms by (induction xs arbitrary: ys) (auto simp: res_bind_eq_Inr)

lemma fill_row_too_long:
  assumes "n = indx + length ps" "length deepest < n" "indx \<le> length deepest"
    and "\<forall>i < length ps. \<exists>d. to_int32 (fst (ps ! i)) = Inr d"
    and "\<forall>i < length ps. indx + i < length deepest \<longrightarrow> same_depth deepest (indx + i) (fst (ps ! i))"
  shows "fill_row deepest n indx ps row = Inl Undefined_Behaviour"
  using assms
proof (induction ps arbitrary: indx row)
  case (Cons p ps)
  obtain z c where p: "p = (z, c)" by (rule prod.exhaust)
  from Cons.prems(4) obtain d where d: "to_int32 z = Inr d" by (auto simp: p)
  show ?case
  proof (cases "indx < length deepest")
    case True
    have "to_int32 z = Inr (deepest ! indx)" using Cons.prems(5) True by (auto simp: p same_depth_def)
    moreover have "fill_row deepest n (Suc indx) ps row' = Inl Undefined_Behaviour" for row'
    proof (rule Cons.IH)
      show "\<forall>i < length ps. \<exists>d. to_int32 (fst (ps ! i)) = Inr d"
        using Cons.prems(4) by (metis length_Cons nth_Cons_Suc Suc_less_eq)
      show "\<forall>i < length ps. Suc indx + i < length deepest \<longrightarrow> same_depth deepest (Suc indx + i) (fst (ps ! i))"
        using Cons.prems(5) by (metis add_Suc_shift length_Cons nth_Cons_Suc Suc_less_eq)
    qed (use Cons.prems True in auto)
    ultimately show ?thesis using True by (simp add: p)
  next
    case False
    with d show ?thesis by (simp add: p)
  qed
qed simp

section \<open>Properties\<close>

definition sample :: "rat \<Rightarrow> rat \<Rightarrow> ssp_sample" where
  "sample z c = \<lparr>sample_depth = Fin z, sample_cp = Fin c, sample_eof = []\<rparr>"

definition column :: "rat \<Rightarrow> ssp_sample list \<Rightarrow> water_column" where
  "column b ss = \<lparr>interpolation_type = CUBIC_SPLINE, eof_coef = [], use_attenuation = True, ssp_samples = ss,
     column_range = Fin 0, bathymetry = Fin b\<rparr>"

lemma map_column [simp]:
  "depth_ssp_map (column b ss) = foldl (\<lambda>m s. assign (sample_depth s) (ssp_of [] s) m) [] ss"
  "ssp_of [] (sample z c) = Fin c" "sample_depth (sample z c) = Fin z" "bathymetry (column b ss) = Fin b"
  "ssp_samples (column b ss) = ss"
  by (simp_all add: column_def depth_ssp_map_def ssp_of_def sample_def)



text \<open>
  C40: The range-dependent sound speed grid is computed exactly when every column fits the grid of the
  deepest one, depth by depth up to its last but one; its rows are then the speeds of the columns,
  continued downwards by the deepest value.
\<close>

theorem ssp_grid_exact:
  assumes "1 < length wcs"
  shows "rd_ssp_mat deepest wcs = Inr mat \<longleftrightarrow>
     (let width = length (ssp_samples (wcs ! k_bathy_max wcs))
      in (\<forall>wc \<in> set wcs. fits_grid deepest width wc) \<and> mat = map (extended_speeds width) wcs)"
  using assms map_res_eq [where f = "ssp_row deepest (length (ssp_samples (wcs ! k_bathy_max wcs)))", OF ssp_row_eq]
  by (simp add: rd_ssp_mat_def Let_def)

theorem ssp_grid_exact_witness:
  "rd_ssp_mat [0, 100] [column 100 [sample 0 1500, sample 100 1520], column 50 [sample 0 1500, sample 50 1510]]
   = Inr [[Fin 1500, Fin 1520], [Fin 1500, Fin 1510]]"
  by (subst ssp_grid_exact)
     (simp_all add: k_bathy_max_def fits_grid_def extended_speeds_def Let_def same_depth_def rat_trunc_def
      less_Suc_eq nth_Cons split: nat.split)

text \<open>
  Depths are compared after truncation to an integer: columns sampled at different depths pass as one grid.
\<close>

theorem grid_compares_truncated_depths:
  "rd_ssp_mat [0, 10, 100]
     [column 100 [sample 0 1500, sample (101 / 10) 1510, sample 100 1520],
      column 90 [sample 0 1500, sample (109 / 10) 1511, sample 90 1519]]
   = Inr [[Fin 1500, Fin 1510, Fin 1520], [Fin 1500, Fin 1511, Fin 1519]]"
proof -
  have "\<lfloor>109 / 10 :: rat\<rfloor> = 10" "\<lfloor>101 / 10 :: rat\<rfloor> = 10" by (simp_all add: floor_eq_iff)
  then show ?thesis
    by (simp add: rd_ssp_mat_def k_bathy_max_def ssp_row_def Let_def rat_trunc_def eval_nat_numeral)
qed

text \<open>
  A column that has more depths than the deepest one, and agrees with it on all of them, makes the code
  read behind the end of a vector.
\<close>

theorem finer_column_undefined:
  assumes "length deepest < length (depth_ssp_map wc)"
    and "\<forall>i < length (depth_ssp_map wc). \<exists>d. to_int32 (fst (depth_ssp_map wc ! i)) = Inr d"
    and "\<forall>i < length deepest. same_depth deepest i (fst (depth_ssp_map wc ! i))"
  shows "ssp_row deepest width wc = Inl Undefined_Behaviour"
  using assms fill_row_too_long [of "length (depth_ssp_map wc)" 0 "depth_ssp_map wc" deepest]
  by (auto simp: ssp_row_def Let_def)

text \<open>
  The line of a half space at the surface is written into the quoted options, before the letters for the
  medium and the attenuation.
\<close>

theorem surface_half_space_splits_options:
  assumes "medium_kind (surface env) = HALF_SPACE"
  shows "\<exists>before. top_options pe fixed env =
     [CHR 0x27] @ before @ endl @ ''A'' @ attenuation_letter (attenuation_unit (bottom env))"
  using assms by (simp add: top_options_def half_space_line_def)

section \<open>Environments that can be written\<close>

lemma box_factor_bounds: "\<exists>y. box_factor = Fin y \<and> 1 \<le> y \<and> y \<le> 2"
proof -
  from d_round_between [of 0 "1 / 10" 1] obtain y where y: "d_round (1 / 10) = Fin y" "0 \<le> y" "y \<le> 1" by auto
  then have "\<exists>z. d_round (1 + y) = Fin z \<and> of_int 1 \<le> z \<and> z \<le> of_int 2" by (intro d_round_between) auto
  with y(1) show ?thesis by (auto simp: box_factor_def)
qed

lemma box_depth_defined:
  assumes "0 \<le> z" "z \<le> 10 ^ 6" shows "\<exists>i. to_int32 (d_mul (Fin z) box_factor) = Inr i"
proof -
  from box_factor_bounds obtain y where y: "box_factor = Fin y" "1 \<le> y" "y \<le> 2" by blast
  with assms have "0 \<le> z * y" "z * y \<le> 10 ^ 6 * 2" by (simp, intro mult_mono) simp_all
  then have "\<exists>v. d_round (z * y) = Fin v \<and> of_int 0 \<le> v \<and> v \<le> of_int 2000000" by (intro d_round_between) auto
  then obtain v where v: "d_round (z * y) = Fin v" "0 \<le> v" "v \<le> 2000000" by auto
  then have "0 \<le> rat_trunc v \<and> rat_trunc v \<le> 2000000" by (auto simp: rat_trunc_def floor_le_iff)
  then have "to_int32 (d_mul (Fin z) box_factor) = Inr (rat_trunc v)" by (simp add: y(1) v(1))
  then show ?thesis by blast
qed

lemma assign_not_Nil [simp]: "assign k v m \<noteq> []"
  by (cases m) (auto split: if_splits)

lemma depth_ssp_map_Nil: "depth_ssp_map wc = [] \<longleftrightarrow> ssp_samples wc = []"
proof (cases "ssp_samples wc" rule: rev_cases)
  case (snoc xs x)
  then show ?thesis by (simp add: depth_ssp_map_def)
qed (simp add: depth_ssp_map_def)

lemma k_bathy_max_single [simp]: "k_bathy_max [wc] = 0"
  by (simp add: k_bathy_max_def)

text \<open>
  An environment with a single water column is always written when it has a sample and its depths are
  numbers between zero and a thousand kilometres.
\<close>

theorem range_independent_env_written:
  assumes "water_columns env = [wc]" and "ssp_samples wc \<noteq> []"
    and "\<forall>s \<in> set (ssp_samples wc). \<exists>z. sample_depth s = Fin z \<and> 0 \<le> z \<and> z \<le> 10 ^ 6"
  shows "\<exists>files. output_env pe os_fixed bty_fixed env = Inr files \<and> ssp_file files = '''' \<and> bty_file files = ''''"
proof -
  have "depths_ok wc" using assms(3) by (auto simp: depths_ok_def)
  note spec = depth_ssp_map_spec [OF this]
  have ne: "depth_ssp_map wc \<noteq> []" using assms(2) by (simp add: depth_ssp_map_Nil)
  have z: "\<exists>z. fst p = Fin z \<and> 0 \<le> z \<and> z \<le> 10 ^ 6" if "p \<in> set (depth_ssp_map wc)" for p
  proof -
    from that have "fst p \<in> sample_depth ` set (ssp_samples wc)" using spec(2) by blast
    with assms(3) show ?thesis by fastforce
  qed
  have i: "\<exists>i. to_int32 (fst p) = Inr i" if "p \<in> set (depth_ssp_map wc)" for p
  proof -
    from z [OF that] obtain z where "fst p = Fin z" "0 \<le> z" "z \<le> 10 ^ 6" by blast
    moreover from this have "0 \<le> rat_trunc z \<and> rat_trunc z \<le> 1000000" by (auto simp: rat_trunc_def floor_le_iff)
    ultimately show ?thesis by auto
  qed
  have "\<exists>ds. map_res (\<lambda>p. to_int32 (fst p)) ps = Inr ds" if "set ps \<subseteq> set (depth_ssp_map wc)" for ps
    using that by (induction ps) (auto dest: i)
  then obtain ds where ds: "map_res (\<lambda>p. to_int32 (fst p)) (depth_ssp_map wc) = Inr ds" by blast
  from z [OF last_in_set [OF ne]] obtain d where d: "fst (last (depth_ssp_map wc)) = Fin d" "0 \<le> d" "d \<le> 10 ^ 6" by blast
  from box_depth_defined [OF this(2,3)] obtain b where "to_int32 (d_mul (Fin d) box_factor) = Inr b" by blast
  with ds d(1) ne assms(1) show ?thesis
    by (simp add: output_env_def Let_def rd_ssp_mat_def del: fp_to_int.simps)
qed

theorem range_independent_env_written_witness:
  "\<exists>files. output_env \<lparr>show_double = (\<lambda>_ _. ''1''), pow10 = id\<rparr> False False
     \<lparr>env_title = ''t'', env_freq = 25000, env_output = ARRIVAL_TIMES,
      surface = \<lparr>medium_kind = VACUUM, attenuation_unit = DB_PER_M, attenuation_value = Fin 0, medium_cp = Fin 0,
        medium_cs = Fin 0, medium_density = Fin 0, medium_depth = Fin 0, rc_samples = []\<rparr>,
      water_columns = [column 100 [sample 0 1500, sample 100 1520]],
      bottom = \<lparr>medium_kind = RIGID, attenuation_unit = DB_PER_M, attenuation_value = Fin 0, medium_cp = Fin 0,
        medium_cs = Fin 0, medium_density = Fin 0, medium_depth = Fin 100, rc_samples = []\<rparr>,
      source_number = 1, source_first_depth = Fin 10, source_last_depth = Fin 10,
      receiver_number_in_depth = 1, receiver_number_in_range = 2, receiver_first_depth = Fin 10,
      receiver_first_range = Fin 0, receiver_last_depth = Fin 10, receiver_last_range = Fin 1000,
      env_beams = \<lparr>beam_approximation = GEOMETRIC, theta_min = -90, theta_max = 90, beam_number = 0\<rparr>\<rparr> = Inr files"
  by (rule exE [OF range_independent_env_written [of _ "column 100 [sample 0 1500, sample 100 1520]"]])
    (auto simp: column_def sample_def)

end
