(* ===== verification/Sound_Speed.thy ===== *)
theory Sound_Speed
  imports Environment "HOL-Library.Multiset"
begin

text \<open>
  The sound speed profile of the ray tracing application (\<open>src/apps/iBellhop/iBellhop.cpp\<close>): measured speeds
  are merged into the first water column (\<open>handle_ssp_update\<close>, \<open>find_sample\<close>), and speeds between the
  samples are interpolated (\<open>get_ssp_value\<close>).

  The abstract value of a profile is the map from a depth to the speed and the coefficients there.
  \<open>std::sort\<close> does not say how it orders samples of the same depth; the model keeps their order, and the
  lemmas are about profiles without such samples, which is what the constructor and the updates give.
\<close>

section \<open>Updates\<close>

definition zero_eof :: "fp \<Rightarrow> fp \<Rightarrow> fp list \<Rightarrow> ssp_sample" where
  "zero_eof depth cp eofs = \<lparr>sample_depth = depth, sample_cp = cp, sample_eof = map (\<lambda>_. Fin 0) eofs\<rparr>"

text \<open>\<open>find_sample\<close> and what is done with the sample it finds or adds.\<close>

fun set_sample :: "fp \<Rightarrow> fp \<Rightarrow> ssp_sample list \<Rightarrow> ssp_sample list" where
  "set_sample depth cp [] = [zero_eof depth cp []]"
| "set_sample depth cp (s # ss) =
     (if fp_eq depth (sample_depth s) then zero_eof depth cp (sample_eof s) # ss
      else s # set_sample depth cp ss)"

fun insert_sample :: "ssp_sample \<Rightarrow> ssp_sample list \<Rightarrow> ssp_sample list" where
  "insert_sample s [] = [s]"
| "insert_sample s (t # ts) =
     (if sample_depth t < sample_depth s then t # insert_sample s ts else s # t # ts)"

definition sort_samples :: "ssp_sample list \<Rightarrow> ssp_sample list" where
  "sort_samples ss = foldr insert_sample ss []"

definition apply_updates :: "(fp \<times> fp) list \<Rightarrow> ssp_sample list \<Rightarrow> ssp_sample list" where
  "apply_updates us ss = sort_samples (foldl (\<lambda>ss (d, c). set_sample d c ss) ss us)"

section \<open>Lookup\<close>

text \<open>The speed at a depth between two samples: as many coefficients of the lower sample are read as the
  upper one has.\<close>

definition interpolate :: "fp list \<Rightarrow> fp \<Rightarrow> ssp_sample \<Rightarrow> ssp_sample \<Rightarrow> fp res" where
  "interpolate coef depth a b =
     (let n = length (sample_eof a)
      in if length (sample_eof b) < min n (length coef) then Inl Undefined_Behaviour
         else
           (let ssp_up = ssp_of coef a;
                ssp_dn = ssp_of coef (b\<lparr>sample_eof := take n (sample_eof b)\<rparr>)
            in Inr (d_add ssp_up
                 (d_div (d_mul (d_sub depth (sample_depth a)) (d_sub ssp_dn ssp_up))
                    (d_sub (sample_depth b) (sample_depth a))))))"

fun ssp_between :: "fp list \<Rightarrow> fp \<Rightarrow> ssp_sample list \<Rightarrow> fp res" where
  "ssp_between coef depth (a # b # ss) =
     (if sample_depth a \<le> depth \<and> depth \<le> sample_depth b then interpolate coef depth a b
      else ssp_between coef depth (b # ss))"
| "ssp_between coef depth _ = Inr (Fin 0)"

definition get_ssp_value :: "water_column list \<Rightarrow> fp \<Rightarrow> fp res" where
  "get_ssp_value wcs depth =
     (case wcs of [] \<Rightarrow> Inl Undefined_Behaviour | wc # _ \<Rightarrow> ssp_between (eof_coef wc) depth (ssp_samples wc))"

section \<open>The profile as a map\<close>

definition profile :: "ssp_sample list \<Rightarrow> fp \<Rightarrow> (fp \<times> fp list) option" where
  "profile ss = map_of (map (\<lambda>s. (sample_depth s, (sample_cp s, sample_eof s))) ss)"

text \<open>Strictly increasing depths, all of them numbers.\<close>

definition profile_ok :: "ssp_sample list \<Rightarrow> bool" where
  "profile_ok ss \<longleftrightarrow> sorted_wrt (\<lambda>s t. sample_depth s < sample_depth t) ss \<and> (\<forall>s \<in> set ss. sample_depth s \<noteq> NaN)"

text \<open>The depths alone: all different, all of them numbers.\<close>

definition depths_distinct :: "ssp_sample list \<Rightarrow> bool" where
  "depths_distinct ss \<longleftrightarrow> distinct (map sample_depth ss) \<and> (\<forall>s \<in> set ss. sample_depth s \<noteq> NaN)"

fun profile_update :: "(fp \<Rightarrow> (fp \<times> fp list) option) \<Rightarrow> fp \<times> fp \<Rightarrow> fp \<Rightarrow> (fp \<times> fp list) option" where
  "profile_update m (d, c) =
     m(d \<mapsto> (c, case m d of None \<Rightarrow> [] | Some (_, eofs) \<Rightarrow> map (\<lambda>_. Fin 0) eofs))"

lemma profile_Nil [simp]: "profile [] = Map.empty"
  by (simp add: profile_def)

lemma profile_Cons [simp]: "profile (s # ss) = (profile ss)(sample_depth s \<mapsto> (sample_cp s, sample_eof s))"
  by (simp add: profile_def)

lemma fp_eq_number: "a \<noteq> NaN \<Longrightarrow> fp_eq a b \<longleftrightarrow> a = b"
  by (cases a) auto

lemma depth_zero_eof [simp]: "sample_depth (zero_eof d c e) = d" "sample_cp (zero_eof d c e) = c"
  "sample_eof (zero_eof d c e) = map (\<lambda>_. Fin 0) e"
  by (simp_all add: zero_eof_def)

lemma dom_profile: "dom (profile ss) = sample_depth ` set ss"
  by (simp add: profile_def dom_map_of_conv_image_fst image_image)

lemma set_sample_depths:
  "d \<noteq> NaN \<Longrightarrow> map sample_depth (set_sample d c ss) =
     map sample_depth ss @ (if d \<in> sample_depth ` set ss then [] else [d])"
  by (induction ss) (auto simp: fp_eq_number)

lemma profile_set_sample:
  assumes "d \<noteq> NaN" "depths_distinct ss"
  shows "profile (set_sample d c ss) = profile_update (profile ss) (d, c)"
  using assms(2)
proof (induction ss)
  case (Cons s ss)
  then have "depths_distinct ss" by (simp add: depths_distinct_def)
  note IH = Cons.IH [OF this]
  show ?case
  proof (cases "d = sample_depth s")
    case True
    with assms(1) show ?thesis by (simp add: fp_eq_number fun_eq_iff)
  next
    case False
    with assms(1) IH show ?thesis by (auto simp: fp_eq_number fun_eq_iff)
  qed
qed simp

lemma set_sample_distinct:
  assumes "d \<noteq> NaN" "depths_distinct ss" shows "depths_distinct (set_sample d c ss)"
proof -
  have "\<forall>s \<in> set ss. sample_depth s \<noteq> NaN" using assms(2) by (simp add: depths_distinct_def)
  then have "NaN \<notin> set (map sample_depth (set_sample d c ss))"
    unfolding set_sample_depths [OF assms(1)] using assms(1) by auto
  moreover have "distinct (map sample_depth (set_sample d c ss))"
    unfolding set_sample_depths [OF assms(1)] using assms(2) by (auto simp: depths_distinct_def)
  ultimately show ?thesis by (metis depths_distinct_def image_eqI set_map)
qed

lemma set_samples:
  assumes "\<forall>u \<in> set us. fst u \<noteq> NaN" "depths_distinct ss"
  shows "depths_distinct (foldl (\<lambda>ss (d, c). set_sample d c ss) ss us)
     \<and> profile (foldl (\<lambda>ss (d, c). set_sample d c ss) ss us) = foldl profile_update (profile ss) us"
  using assms
proof (induction us arbitrary: ss)
  case (Cons u us)
  obtain d c where u: "u = (d, c)" by (rule prod.exhaust)
  from Cons.prems have "depths_distinct (set_sample d c ss)" "d \<noteq> NaN"
    by (simp_all add: u set_sample_distinct)
  with Cons.IH [OF _ this(1)] Cons.prems show ?case by (simp add: u profile_set_sample del: profile_update.simps)
qed simp

section \<open>Sorting\<close>

lemma mset_insert_sample [simp]: "mset (insert_sample s ts) = add_mset s (mset ts)"
  by (induction ts) auto

lemma mset_sort_samples [simp]: "mset (sort_samples ss) = mset ss"
  by (induction ss) (auto simp: sort_samples_def)

lemma set_sort_samples [simp]: "set (sort_samples ss) = set ss"
  by (metis mset_sort_samples set_mset_mset)

lemma insert_sample_sorted:
  assumes "profile_ok ts" "sample_depth s \<noteq> NaN" "sample_depth s \<notin> sample_depth ` set ts"
  shows "profile_ok (insert_sample s ts)"
  using assms
proof (induction ts)
  case (Cons t ts)
  have IH: "profile_ok (insert_sample s ts)" using Cons by (simp add: profile_ok_def)
  have set: "set (insert_sample s ts) = insert s (set ts)"
    by (metis mset_insert_sample set_mset_add_mset_insert set_mset_mset)
  show ?case
  proof (cases "sample_depth t < sample_depth s")
    case True
    with Cons.prems IH set show ?thesis by (auto simp: profile_ok_def)
  next
    case False
    then have "sample_depth s < sample_depth t"
      using Cons.prems fp_less_linear [of "sample_depth s" "sample_depth t"] by (auto simp: profile_ok_def)
    with False Cons.prems show ?thesis by (auto simp: profile_ok_def intro: fp_less_trans)
  qed
qed (simp add: profile_ok_def)

lemma sort_samples_ok:
  assumes "depths_distinct ss" shows "profile_ok (sort_samples ss)"
  using assms
proof (induction ss)
  case (Cons s ss)
  then have "profile_ok (sort_samples ss)" by (simp add: depths_distinct_def)
  moreover have "sample_depth s \<notin> sample_depth ` set (sort_samples ss)" "sample_depth s \<noteq> NaN"
    using Cons.prems by (simp_all add: depths_distinct_def)
  ultimately show ?case using insert_sample_sorted by (simp add: sort_samples_def)
qed (simp add: sort_samples_def profile_ok_def)

lemma profile_sort_samples: "depths_distinct ss \<Longrightarrow> profile (sort_samples ss) = profile ss"
proof -
  assume d: "depths_distinct ss"
  have "mset (map sample_depth (sort_samples ss)) = mset (map sample_depth ss)" by simp
  then have "distinct (map sample_depth (sort_samples ss))"
    using d by (metis depths_distinct_def mset_eq_imp_distinct_iff)
  with d show ?thesis unfolding profile_def depths_distinct_def
    by (intro map_of_inject_set [THEN iffD2]) (simp_all add: o_def)
qed

lemma profile_ok_distinct: "profile_ok ss \<Longrightarrow> depths_distinct ss"
  unfolding profile_ok_def depths_distinct_def
  by (induction ss) (auto simp: fp_less_irrefl)

text \<open>
  C18: Merging measured speeds into a profile implements the update of a map: afterwards the profile has
  strictly increasing depths again, the last speed measured at a depth counts, the coefficients there
  are zero, and everything else is as before.
\<close>

theorem ssp_update_refines_profile:
  assumes "profile_ok ss" and "\<forall>u \<in> set us. fst u \<noteq> NaN"
  shows "profile_ok (apply_updates us ss) \<and> profile (apply_updates us ss) = foldl profile_update (profile ss) us"
  using set_samples [OF assms(2) profile_ok_distinct [OF assms(1)]]
  by (simp add: apply_updates_def sort_samples_ok profile_sort_samples)

theorem ssp_update_refines_profile_witness:
  "profile (apply_updates [(Fin 20, Fin 1505), (Fin 10, Fin 1501)] [sample 0 1500, sample 20 1510]) (Fin 10)
     = Some (Fin 1501, [])"
proof -
  have "profile_ok [sample 0 1500, sample 20 1510]" by (simp add: profile_ok_def sample_def)
  from ssp_update_refines_profile [OF this, of "[(Fin 20, Fin 1505), (Fin 10, Fin 1501)]"]
  show ?thesis by (simp add: sample_def)
qed

section \<open>Interpolation\<close>

lemma ssp_between_outside:
  "(\<forall>i. Suc i < length ss \<longrightarrow> \<not> (sample_depth (ss ! i) \<le> depth \<and> depth \<le> sample_depth (ss ! Suc i)))
    \<Longrightarrow> ssp_between coef depth ss = Inr (Fin 0)"
proof (induction coef depth ss rule: ssp_between.induct)
  case (1 coef depth a b ss)
  from 1(2) [rule_format, of 0] have "\<not> (sample_depth a \<le> depth \<and> depth \<le> sample_depth b)" by simp
  moreover have "ssp_between coef depth (b # ss) = Inr (Fin 0)"
    using 1(2) by (intro 1(1) [OF calculation]) (metis Suc_less_eq length_Cons nth_Cons_Suc)
  ultimately show ?case by auto
qed simp_all

lemma ssp_between_segment:
  assumes "Suc i < length ss" "sample_depth (ss ! i) \<le> depth" "depth \<le> sample_depth (ss ! Suc i)"
  shows "\<exists>j \<le> i. ssp_between coef depth ss = interpolate coef depth (ss ! j) (ss ! Suc j)
     \<and> sample_depth (ss ! j) \<le> depth \<and> depth \<le> sample_depth (ss ! Suc j)"
  using assms
proof (induction coef depth ss arbitrary: i rule: ssp_between.induct)
  case (1 coef depth a b ss)
  show ?case
  proof (cases "sample_depth a \<le> depth \<and> depth \<le> sample_depth b")
    case True
    then show ?thesis by (intro exI [of _ 0]) simp
  next
    case False
    with 1(3,4) obtain k where k: "i = Suc k" by (cases i) auto
    with 1(2-4) 1(1) [OF False, of k] obtain j where "j \<le> k"
      "ssp_between coef depth (b # ss) = interpolate coef depth ((b # ss) ! j) ((b # ss) ! Suc j)"
      "sample_depth ((b # ss) ! j) \<le> depth" "depth \<le> sample_depth ((b # ss) ! Suc j)" by auto
    with False k show ?thesis by (intro exI [of _ "Suc j"]) auto
  qed
qed simp_all

text \<open>
  The speed at a depth is interpolated between two neighbouring samples around it, with the
  coefficients of both, wherever there are such samples, and zero everywhere else; with the same
  number of coefficients at all samples the lookup is defined.
\<close>

theorem sound_speed_lookup:
  assumes "\<forall>s \<in> set (ssp_samples wc). length (sample_eof s) = n"
  shows "(\<exists>i v. get_ssp_value (wc # wcs) depth = Inr v
       \<and> Suc i < length (ssp_samples wc)
       \<and> sample_depth (ssp_samples wc ! i) \<le> depth \<and> depth \<le> sample_depth (ssp_samples wc ! Suc i)
       \<and> v = (let up = ssp_of (eof_coef wc) (ssp_samples wc ! i); dn = ssp_of (eof_coef wc) (ssp_samples wc ! Suc i);
                  z = sample_depth (ssp_samples wc ! i)
              in d_add up (d_div (d_mul (d_sub depth z) (d_sub dn up)) (d_sub (sample_depth (ssp_samples wc ! Suc i)) z))))
     \<or> get_ssp_value (wc # wcs) depth = Inr (Fin 0)
       \<and> \<not> (\<exists>i. Suc i < length (ssp_samples wc) \<and> sample_depth (ssp_samples wc ! i) \<le> depth
            \<and> depth \<le> sample_depth (ssp_samples wc ! Suc i))"
proof (cases "\<exists>i. Suc i < length (ssp_samples wc) \<and> sample_depth (ssp_samples wc ! i) \<le> depth
            \<and> depth \<le> sample_depth (ssp_samples wc ! Suc i)")
  case False
  then show ?thesis
    using ssp_between_outside [of "ssp_samples wc" depth "eof_coef wc"] by (simp add: get_ssp_value_def)
next
  case True
  then obtain i where i: "Suc i < length (ssp_samples wc)" "sample_depth (ssp_samples wc ! i) \<le> depth"
    "depth \<le> sample_depth (ssp_samples wc ! Suc i)" by blast
  from ssp_between_segment [OF this, of "eof_coef wc"] obtain j where j: "j \<le> i"
    "ssp_between (eof_coef wc) depth (ssp_samples wc) =
      interpolate (eof_coef wc) depth (ssp_samples wc ! j) (ssp_samples wc ! Suc j)"
    "sample_depth (ssp_samples wc ! j) \<le> depth" "depth \<le> sample_depth (ssp_samples wc ! Suc j)" by blast
  have "length (sample_eof (ssp_samples wc ! j)) = n" "length (sample_eof (ssp_samples wc ! Suc j)) = n"
    using assms i(1) j(1) by simp_all
  with i(1) j show ?thesis
    by (intro disjI1 exI [of _ j]) (simp add: get_ssp_value_def interpolate_def Let_def)
qed

theorem sound_speed_lookup_witness:
  "\<exists>v. get_ssp_value [column 100 [sample 0 1500, sample 20 1510]] (Fin 10) = Inr v \<and> v = Fin 1505"
proof -
  have "\<forall>s \<in> set (ssp_samples (column 100 [sample 0 1500, sample 20 1510])). length (sample_eof s) = 0"
    by (simp add: column_def sample_def)
  from sound_speed_lookup [OF this, of "[]" "Fin 10"] show ?thesis
    by (auto simp: less_Suc_eq column_def fp_sub_def)
qed

text \<open>
  A depth measured for the first time gets a sample without coefficients. With coefficients in the
  configured profile, the next lookup just above that depth reads past the end of them.
\<close>

theorem lookup_after_update_undefined:
  "ssp_between [Fin 1] (Fin 5)
     (apply_updates [(Fin 10, Fin 1503)]
        [\<lparr>sample_depth = Fin 0, sample_cp = Fin 1500, sample_eof = [Fin 1]\<rparr>,
         \<lparr>sample_depth = Fin 20, sample_cp = Fin 1510, sample_eof = [Fin 1]\<rparr>]) = Inl Undefined_Behaviour"
  by (simp add: apply_updates_def sort_samples_def zero_eof_def interpolate_def)

end
