(* ===== verification/Bellhop.thy ===== *)
theory Bellhop
  imports Sound_Speed Marshal
begin

text \<open>
  The ray tracing application (\<open>src/apps/iBellhop\<close>): it keeps the latest report of every vehicle, merges a
  request into the configured environment, places the receivers along the predicted positions, writes
  the files of the environment (Environment.thy), runs the ray tracer on them and answers.

  Not part of the repository, and arguments of the definitions: the parsing and case conversion of strings
  (\<open>text_ops\<close>), the merging of protobuf messages (\<open>pb_ops\<close>), the functions of \<open><cmath>\<close> whose accuracy C++
  leaves open (\<open>libm\<close>), and, per request, the time, the file system and the numbers in the file that the
  ray tracer's converter writes (\<open>request_world\<close>). The five streams of a request are opened and closed
  together and are one stream here.
\<close>

section \<open>Parameters\<close>

record text_ops =
  val_string :: "string \<Rightarrow> string \<Rightarrow> string option"
  val_double :: "string \<Rightarrow> string \<Rightarrow> fp option"
  split_commas :: "string \<Rightarrow> string list"
  as_double :: "string \<Rightarrow> fp"
  to_lower :: "string \<Rightarrow> string"
  to_upper :: "string \<Rightarrow> string"
  colons_replaced :: "string \<Rightarrow> string"
  show_speed :: "fp \<Rightarrow> string"

record libm =
  m_sqrt :: "fp \<Rightarrow> fp"
  m_sin :: "fp \<Rightarrow> fp"
  m_cos :: "fp \<Rightarrow> fp"
  m_atan2 :: "fp \<Rightarrow> fp \<Rightarrow> fp"
  m_log10 :: "fp \<Rightarrow> fp"
  m_pow10 :: "fp \<Rightarrow> fp"
  m_hypot :: "fp \<Rightarrow> fp \<Rightarrow> fp"

text \<open>The environment with the fields that only this application reads.\<close>

record app_env = bellhop_env +
  contact :: string
  ownship :: string
  read_shd_file :: bool
  full_shd_matrix :: bool
  auto_receiver_ranges :: bool
  auto_receiver_ranges_delta :: int
  look_ahead_seconds :: int
  auto_source_depth :: bool

text \<open>\<open>'r\<close> is the environment of a request, a message whose fields may be unset.\<close>

record 'r pb_ops =
  request_columns :: "'r \<Rightarrow> nat"
  merge_first_column :: "water_column \<Rightarrow> 'r \<Rightarrow> water_column"
  clear_columns :: "'r \<Rightarrow> 'r"
  merge_env :: "app_env \<Rightarrow> 'r \<Rightarrow> app_env"

record app_config =
  max_number_of_receivers :: int
  output_env_dir :: string
  extrapolate_nav :: bool
  local_sound_speed_var :: "string option"

record request_world =
  moos_time :: fp
  iso_time :: string
  can_write :: "string \<Rightarrow> bool"
  canonical :: "string \<Rightarrow> string option"
  asc_numbers :: "fp list option"

section \<open>State\<close>

record node_report =
  nr_time :: fp
  nr_x :: fp
  nr_y :: fp
  nr_depth :: fp
  nr_speed :: fp
  nr_heading :: fp

text \<open>\<open>operator[]\<close> of the map makes a report of zeros.\<close>

definition node_report_zero :: node_report where
  "node_report_zero = \<lparr>nr_time = Fin 0, nr_x = Fin 0, nr_y = Fin 0, nr_depth = Fin 0, nr_speed = Fin 0,
     nr_heading = Fin 0\<rparr>"

datatype env_files = Begun | Written bellhop_files

text \<open>
  \<open>stream\<close>: the name of the files the streams are open on. \<open>env_fixed\<close>, \<open>bty_fixed\<close>: whether \<open>std::fixed\<close> is in
  force on the stream of that file.
\<close>

record app =
  initial_env :: app_env
  node_reports :: "string \<Rightarrow> node_report option"
  env_dir :: "string \<Rightarrow> env_files option"
  stream :: "string option"
  env_fixed :: bool
  bty_fixed :: bool

datatype water_column_action = MERGE_WATER_COLUMNS | MERGE_SAMPLES | OVERWRITE

record 'r app_request =
  req_env :: 'r
  req_number :: "int option"
  req_action :: water_column_action

record tl_matrix =
  tl_depths :: "fp list"
  tl_ranges :: "fp list"
  tl_values :: "fp list list"

record app_response =
  rsp_requestor :: string
  rsp_number :: "int option"
  rsp_success :: bool
  rsp_env :: app_env
  rsp_output_file :: string
  rsp_avg_tl :: "(fp \<times> fp) list"
  rsp_tl_matrix :: "tl_matrix option"

datatype app_output =
    Pub_Double string fp
  | Pub_String string string
  | Pub_Response app_response
  | Run_Bellhop string
  | Copy_Shd string

section \<open>Vehicles\<close>

definition opt_val :: "'a option \<Rightarrow> 'a \<Rightarrow> 'a" where
  "opt_val v old = (case v of None \<Rightarrow> old | Some x \<Rightarrow> x)"

definition report_of :: "app \<Rightarrow> string \<Rightarrow> node_report" where
  "report_of s name = opt_val (node_reports s name) node_report_zero"

definition update_report :: "string \<Rightarrow> (node_report \<Rightarrow> node_report) \<Rightarrow> app \<Rightarrow> app" where
  "update_report name f s = s\<lparr>node_reports := (node_reports s)(name \<mapsto> f (report_of s name))\<rparr>"

definition handle_node_report :: "text_ops \<Rightarrow> string \<Rightarrow> app \<Rightarrow> app" where
  "handle_node_report ops msg s =
     (let name = to_lower ops (opt_val (val_string ops ''NAME'' msg) '''');
          val = (\<lambda>k old. opt_val (val_double ops k msg) old);
          val2 = (\<lambda>k k' old. case val_double ops k msg of Some v \<Rightarrow> v | None \<Rightarrow> val k' old)
      in update_report name (\<lambda>nr.
           \<lparr>nr_time = val2 ''UTC_TIME'' ''TIME'' (nr_time nr), nr_x = val ''X'' (nr_x nr), nr_y = val ''Y'' (nr_y nr),
            nr_depth = val2 ''DEPTH'' ''DEP'' (nr_depth nr), nr_speed = val ''SPD'' (nr_speed nr),
            nr_heading = val ''HDG'' (nr_heading nr)\<rparr>) s)"

section \<open>Sound speeds\<close>

definition handle_ssp_update :: "text_ops \<Rightarrow> string \<Rightarrow> app \<Rightarrow> app res" where
  "handle_ssp_update ops msg s =
     (let depths = split_commas ops (opt_val (val_string ops ''depth'' msg) '''');
          speeds = split_commas ops (opt_val (val_string ops ''c'' msg) '''');
          env = initial_env s
      in if length depths \<noteq> length speeds then Inr s
         else
           (case water_columns env of
              [] \<Rightarrow> Inl Undefined_Behaviour
            | wc # wcs \<Rightarrow>
                (let us = map (\<lambda>(d, c). (as_double ops d, as_double ops c))
                       (filter (\<lambda>(d, c). c \<noteq> ''0'' \<and> c \<noteq> '''') (zip depths speeds))
                 in Inr (s\<lparr>initial_env := env\<lparr>water_columns :=
                        wc\<lparr>ssp_samples := apply_updates us (ssp_samples wc)\<rparr> # wcs\<rparr>\<rparr>))))"

fun joined :: "string list \<Rightarrow> string" where
  "joined [] = ''''"
| "joined [x] = x"
| "joined (x # xs) = x @ '','' @ joined xs"

definition handle_ssp_request :: "text_ops \<Rightarrow> string \<Rightarrow> app \<Rightarrow> app_output list res" where
  "handle_ssp_request ops msg s =
     (let depths = map (as_double ops) (split_commas ops (opt_val (val_string ops ''depth'' msg) ''''))
      in res_bind (map_res (get_ssp_value (water_columns (initial_env s))) depths) (\<lambda>speeds.
           Inr [Pub_String ''SSP_INFO_RESPONSE''
                  (msg @ '',c={'' @ joined (map (show_speed ops) speeds) @ ''}'')]))"

definition handle_nav_depth :: "app_config \<Rightarrow> fp \<Rightarrow> app \<Rightarrow> (app \<times> app_output list) res" where
  "handle_nav_depth cfg depth s =
     (let s1 = update_report (ownship (initial_env s)) (\<lambda>nr. nr\<lparr>nr_depth := depth\<rparr>) s
      in case local_sound_speed_var cfg of
           None \<Rightarrow> Inr (s1, [])
         | Some v \<Rightarrow>
             res_bind (get_ssp_value (water_columns (initial_env s1)) depth) (\<lambda>cp. Inr (s1, [Pub_Double v cp])))"

section \<open>Positions\<close>

definition app_pi :: fp where
  "app_pi = d_round (314159 / 100000)"

text \<open>A heading as an angle.\<close>

definition heading_angle :: "fp \<Rightarrow> fp" where
  "heading_angle h = d_div (d_mul (d_sub (Fin 90) h) app_pi) (Fin 180)"

text \<open>\<open>uint32\<close> to \<open>int\<close>.\<close>

definition as_int32 :: "int \<Rightarrow> int" where
  "as_int32 n = (n + 2 ^ 31) mod 2 ^ 32 - 2 ^ 31"

definition extrapolated :: "libm \<Rightarrow> fp \<Rightarrow> node_report \<Rightarrow> node_report" where
  "extrapolated m now nr =
     (let dist = d_mul (nr_speed nr) (d_sub now (nr_time nr))
      in nr\<lparr>nr_x := d_add (nr_x nr) (d_mul dist (m_cos m (heading_angle (nr_heading nr)))),
            nr_y := d_add (nr_y nr) (d_mul dist (m_sin m (heading_angle (nr_heading nr))))\<rparr>)"

definition distance :: "libm \<Rightarrow> fp \<Rightarrow> fp \<Rightarrow> fp" where
  "distance m dx dy = m_sqrt m (d_add (d_mul dx dx) (d_mul dy dy))"

text \<open>Where a vehicle expects to be: its coordinate, and the sine or cosine of its heading.\<close>

definition ahead :: "fp \<Rightarrow> fp \<Rightarrow> fp \<Rightarrow> int \<Rightarrow> fp" where
  "ahead pos speed c seconds = d_add pos (d_mul (d_mul speed c) (d_of_int seconds))"

definition future_distance :: "libm \<Rightarrow> int \<Rightarrow> node_report \<Rightarrow> node_report \<Rightarrow> fp" where
  "future_distance m seconds self other =
     (let ts = heading_angle (nr_heading self);
          tother = heading_angle (nr_heading other);
          fx = (\<lambda>nr a. ahead (nr_x nr) (nr_speed nr) (m_cos m a) seconds);
          fy = (\<lambda>nr a. ahead (nr_y nr) (nr_speed nr) (m_sin m a) seconds)
      in distance m (d_sub (fx self ts) (fx other tother)) (d_sub (fy self ts) (fy other tother)))"

definition opening_speed :: "libm \<Rightarrow> fp \<Rightarrow> node_report \<Rightarrow> node_report \<Rightarrow> fp" where
  "opening_speed m bearing self other =
     d_sub (d_mul (nr_speed other) (m_cos m (d_sub (heading_angle (nr_heading other)) bearing)))
       (d_mul (nr_speed self) (m_cos m (d_sub (heading_angle (nr_heading self)) bearing)))"

definition set_ranges :: "fp \<Rightarrow> fp \<Rightarrow> app_env \<Rightarrow> app_env res" where
  "set_ranges r future_r env =
     res_bind (to_uint32 (fp_ceil (d_div (fp_abs (d_sub future_r r)) (d_of_int (auto_receiver_ranges_delta env)))))
       (\<lambda>n. Inr (env\<lparr>receiver_number_in_range := n,
                     receiver_first_range := (if r \<le> future_r then r else future_r),
                     receiver_last_range := (if r \<le> future_r then future_r else r)\<rparr>))"

definition update_positions ::
    "libm \<Rightarrow> text_ops \<Rightarrow> app_config \<Rightarrow> fp \<Rightarrow> app \<Rightarrow> app_env \<Rightarrow> (bool \<times> app_env \<times> app_output list) res" where
  "update_positions m ops cfg now s env =
     (if \<not> auto_receiver_ranges env \<and> \<not> auto_source_depth env then Inr (True, env, [])
      else
        (case (node_reports s (contact env), node_reports s (ownship env)) of
           (Some other0, Some self) \<Rightarrow>
             (let other = (if extrapolate_nav cfg then extrapolated m now other0 else other0);
                  dx = d_sub (nr_x other) (nr_x self);
                  dy = d_sub (nr_y other) (nr_y self);
                  r = distance m dx dy;
                  future_r = future_distance m (as_int32 (look_ahead_seconds env)) self other;
                  name = to_upper ops (contact env);
                  out = [Pub_Double (name @ ''_RANGE'') r, Pub_Double (name @ ''_DEPTH'') (nr_depth other),
                         Pub_Double (name @ ''_RATE'') (opening_speed m (m_atan2 m dy dx) self other)];
                  env1 = (if auto_source_depth env then env\<lparr>source_first_depth := nr_depth other\<rparr> else env)
              in res_bind (if auto_receiver_ranges env then set_ranges r future_r env1 else Inr env1)
                   (\<lambda>env2. Inr (True, env2, out)))
         | _ \<Rightarrow> Inr (False, env, [])))"

section \<open>The files of a request\<close>

definition file_base :: "text_ops \<Rightarrow> app_config \<Rightarrow> string \<Rightarrow> string \<Rightarrow> app_env \<Rightarrow> string" where
  "file_base ops cfg requestor time env =
     output_env_dir cfg @ ''/'' @ colons_replaced ops (take 20 requestor) @ ''_'' @ contact env @ ''_to_''
     @ ownship env @ ''_'' @ time"

text \<open>
  Opening: a stream that is open already fails to open and writes nothing until it is opened again. The
  result tells whether what is written reaches the files.
\<close>

definition open_files :: "(string \<Rightarrow> bool) \<Rightarrow> string \<Rightarrow> app \<Rightarrow> app \<times> bool" where
  "open_files writable base s =
     (if stream s = None \<and> writable base
      then (s\<lparr>stream := Some base, env_dir := (env_dir s)(base \<mapsto> Begun)\<rparr>, True)
      else (s, False))"

text \<open>Where the ray tracer leaves its result, and the variable that announces it.\<close>

fun result_suffix :: "output_type \<Rightarrow> string \<times> string" where
  "result_suffix ARRIVAL_TIMES = (''.arr'', ''_ARR_FILE'')"
| "result_suffix EIGENRAYS = (''.ray'', ''_RAY_FILE'')"
| "result_suffix RAYS = (''.ray'', ''_RAY_FILE'')"
| "result_suffix COHERENT_PRESSURE = (''.shd'', ''_SHD_FILE'')"
| "result_suffix INCOHERENT_PRESSURE = (''.shd'', ''_SHD_FILE'')"
| "result_suffix SEMICOHERENT_PRESSURE = (''.shd'', ''_SHD_FILE'')"

definition run_bellhop :: "text_ops \<Rightarrow> string \<Rightarrow> app_env \<Rightarrow> string \<times> app_output list" where
  "run_bellhop ops base env =
     (case result_suffix (env_output env) of
        (ext, var) \<Rightarrow>
          (base @ ext,
           [Run_Bellhop base, Pub_String (to_upper ops (contact env) @ var) (base @ ext)]
           @ (if ext = ''.shd'' then [Copy_Shd (base @ ext)] else [])))"

text \<open>
  The result: the state, the path of the output file (empty when there is none) and what is published. An
  exception of \<open>output_env\<close> is caught, and the function returns without closing the streams.
\<close>

definition calculate_env ::
    "print_env \<Rightarrow> text_ops \<Rightarrow> app_config \<Rightarrow> request_world \<Rightarrow> string \<Rightarrow> app_env \<Rightarrow> app
      \<Rightarrow> (app \<times> string \<times> app_output list) res" where
  "calculate_env pe ops cfg w requestor env s =
     (let base = file_base ops cfg requestor (iso_time w) env
      in case open_files (can_write w) base s of
           (s1, writes) \<Rightarrow>
             if stream s1 = None then Inl Die
             else
               (case output_env pe (env_fixed s1) (bty_fixed s1) (bellhop_env.truncate env) of
                  Inl (Runtime_Error e) \<Rightarrow> Inr (s1\<lparr>env_fixed := True\<rparr>, '''', [])
                | Inl f \<Rightarrow> Inl f
                | Inr files \<Rightarrow>
                    (case run_bellhop ops base env of
                       (output_file, out) \<Rightarrow>
                         Inr (s1\<lparr>stream := None,
                                 env_dir := (if writes then (env_dir s1)(base \<mapsto> Written files) else env_dir s1),
                                 env_fixed := True,
                                 bty_fixed := bty_fixed s1 \<or> 1 < length (water_columns env)\<rparr>,
                              output_file, out))))"

section \<open>Reading the transmission loss\<close>

text \<open>
  The numbers of the file, in their order. Reading past their end leaves a variable without a value, and
  its use is undefined. \<open>read_shd\<close> stores \<open>float\<close>s and computes in \<open>double\<close>.
\<close>

fun to_format :: "(rat \<Rightarrow> fp) \<Rightarrow> fp \<Rightarrow> fp" where
  "to_format rounded (Fin x) = rounded x"
| "to_format rounded x = x"

fun read_number :: "fp list \<Rightarrow> (fp \<times> fp list) res" where
  "read_number [] = Inl Undefined_Behaviour"
| "read_number (x # xs) = Inr (x, xs)"

fun read_floats :: "nat \<Rightarrow> fp list \<Rightarrow> (fp list \<times> fp list) res" where
  "read_floats 0 xs = Inr ([], xs)"
| "read_floats (Suc n) xs =
     res_bind (read_number xs) (\<lambda>(x, xs). res_bind (read_floats n xs) (\<lambda>(ys, xs).
       Inr (to_format f_round x # ys, xs)))"

definition loss_of :: "libm \<Rightarrow> fp \<Rightarrow> fp \<Rightarrow> fp" where
  "loss_of m re im =
     to_format f_round (d_mul (Fin (-20)) (m_log10 m (m_hypot m (to_format d_round re) (to_format d_round im))))"

fun read_losses :: "libm \<Rightarrow> nat \<Rightarrow> fp list \<Rightarrow> (fp list \<times> fp list) res" where
  "read_losses m 0 xs = Inr ([], xs)"
| "read_losses m (Suc n) xs =
     res_bind (read_number xs) (\<lambda>(re, xs). res_bind (read_number xs) (\<lambda>(im, xs).
       res_bind (read_losses m n xs) (\<lambda>(ys, xs). Inr (loss_of m re im # ys, xs))))"

fun read_rows :: "libm \<Rightarrow> nat \<Rightarrow> nat \<Rightarrow> fp list \<Rightarrow> (fp list list \<times> fp list) res" where
  "read_rows m 0 n xs = Inr ([], xs)"
| "read_rows m (Suc k) n xs =
     res_bind (read_losses m n xs) (\<lambda>(row, xs). res_bind (read_rows m k n xs) (\<lambda>(rows, xs). Inr (row # rows, xs)))"

text \<open>The mean over the ranges of one depth.\<close>

definition average_loss :: "libm \<Rightarrow> int \<Rightarrow> fp list \<Rightarrow> fp" where
  "average_loss m num_ranges row =
     d_mul (Fin 10) (m_log10 m (d_div (foldl (\<lambda>acc tl. d_add acc (m_pow10 m (f_div tl (Fin 10)))) (Fin 0) row)
        (d_of_int num_ranges)))"

text \<open>The header: the frequency, two numbers, the numbers of depths and of ranges, three numbers.\<close>

definition parse_shd :: "libm \<Rightarrow> fp list \<Rightarrow> (int \<times> tl_matrix) res" where
  "parse_shd m numbers =
     (case numbers of
        freq # u1 # u2 # nd # nr # u3 # u4 # u5 # rest \<Rightarrow>
          res_bind (to_int32 nd) (\<lambda>num_depths. res_bind (to_int32 nr) (\<lambda>num_ranges.
          res_bind (read_floats (nat num_depths) rest) (\<lambda>(depths, rest).
          res_bind (read_floats (nat num_ranges) rest) (\<lambda>(ranges, rest).
          res_bind (read_rows m (nat num_depths) (nat num_ranges) rest) (\<lambda>(rows, rest).
            Inr (num_ranges, \<lparr>tl_depths = depths, tl_ranges = ranges, tl_values = rows\<rparr>))))))
      | _ \<Rightarrow> Inl Undefined_Behaviour)"

text \<open>
  The response carries the matrix as the bytes of a boost archive: \<open>TLMatrix::serialize\<close>, saving. A requestor
  gets it back with the same template, loading.
\<close>

definition save_tl_matrix :: "'b archive_ops \<Rightarrow> tl_matrix \<Rightarrow> 'b list" where
  "save_tl_matrix ar t =
     put_header ar @ put_floats ar (tl_depths t) @ put_floats ar (tl_ranges t) @ put_rows ar (tl_values t)"

definition load_tl_matrix :: "'b archive_ops \<Rightarrow> 'b list \<Rightarrow> tl_matrix option" where
  "load_tl_matrix ar bs =
     Option.bind (get_header ar bs) (\<lambda>bs.
     Option.bind (get_floats ar bs) (\<lambda>(depths, bs).
     Option.bind (get_floats ar bs) (\<lambda>(ranges, bs).
     Option.bind (get_rows ar bs) (\<lambda>(rows, bs).
       Some \<lparr>tl_depths = depths, tl_ranges = ranges, tl_values = rows\<rparr>))))"

definition read_shd :: "libm \<Rightarrow> request_world \<Rightarrow> app_env \<Rightarrow> ((fp \<times> fp) list \<times> tl_matrix option) res" where
  "read_shd m w env =
     (case asc_numbers w of
        None \<Rightarrow> Inr ([], None)
      | Some numbers \<Rightarrow>
          res_bind (parse_shd m numbers) (\<lambda>(num_ranges, t).
            Inr (zip (tl_depths t) (map (average_loss m num_ranges) (tl_values t)),
                 if full_shd_matrix env then Some t else None)))"

section \<open>Requests\<close>

text \<open>The configured environment with the request merged into it.\<close>

definition merged_env :: "'r pb_ops \<Rightarrow> app_env \<Rightarrow> 'r app_request \<Rightarrow> app_env" where
  "merged_env pb env req =
     (case req_action req of
        OVERWRITE \<Rightarrow> merge_env pb (env\<lparr>water_columns := []\<rparr>) (req_env req)
      | MERGE_SAMPLES \<Rightarrow>
          (if request_columns pb (req_env req) \<noteq> 0 \<and> water_columns env \<noteq> []
           then merge_env pb
                  (env\<lparr>water_columns := (water_columns env)[0 := merge_first_column pb (hd (water_columns env)) (req_env req)]\<rparr>)
                  (clear_columns pb (req_env req))
           else merge_env pb env (req_env req))
      | MERGE_WATER_COLUMNS \<Rightarrow> merge_env pb env (req_env req))"

definition lower_names :: "text_ops \<Rightarrow> app_env \<Rightarrow> app_env" where
  "lower_names ops env = env\<lparr>contact := to_lower ops (contact env), ownship := to_lower ops (ownship env)\<rparr>"

text \<open>The product of two \<open>uint32\<close> is one, and is compared with an \<open>int\<close> converted to that type.\<close>

definition too_many_receivers :: "app_config \<Rightarrow> app_env \<Rightarrow> bool" where
  "too_many_receivers cfg env \<longleftrightarrow>
     max_number_of_receivers cfg mod 2 ^ 32
       < (receiver_number_in_depth env * receiver_number_in_range env) mod 2 ^ 32"

definition response :: "string \<Rightarrow> 'r app_request \<Rightarrow> bool \<Rightarrow> app_env \<Rightarrow> app_response" where
  "response requestor req success env =
     \<lparr>rsp_requestor = requestor, rsp_number = req_number req, rsp_success = success, rsp_env = env,
      rsp_output_file = '''', rsp_avg_tl = [], rsp_tl_matrix = None\<rparr>"

definition handle_request ::
    "print_env \<Rightarrow> libm \<Rightarrow> text_ops \<Rightarrow> 'r pb_ops \<Rightarrow> app_config \<Rightarrow> request_world \<Rightarrow> string \<Rightarrow> 'r app_request \<Rightarrow> app
      \<Rightarrow> (app \<times> app_output list) res" where
  "handle_request pe m ops pb cfg w requestor req s =
     (let env = lower_names ops (merged_env pb (initial_env s) req)
      in if too_many_receivers cfg env then Inr (s, [Pub_Response (response requestor req False env)])
         else
           res_bind (update_positions m ops cfg (moos_time w) s env) (\<lambda>(found, env1, out1).
             if \<not> found then Inr (s, out1 @ [Pub_Response (response requestor req False env1)])
             else
               res_bind (calculate_env pe ops cfg w requestor env1 s) (\<lambda>(s1, output_file, out2).
               res_bind (if read_shd_file env1 then read_shd m w env1 else Inr ([], None)) (\<lambda>(avg, matrix).
                 Inr (s1, out1 @ out2 @
                   [Pub_Response ((response requestor req True env1)
                      \<lparr>rsp_output_file := opt_val (canonical w output_file) output_file,
                       rsp_avg_tl := avg, rsp_tl_matrix := matrix\<rparr>)])))))"

section \<open>The application\<close>

datatype 'r app_event =
    Avg_Ss_Vec string
  | Ssp_Info_Request string
  | Bellhop_Req request_world string "'r app_request"
  | Node_Report string
  | Nav_X fp fp
  | Nav_Y fp
  | Nav_Depth fp
  | Nav_Speed fp
  | Nav_Heading fp

definition update_nav :: "(node_report \<Rightarrow> node_report) \<Rightarrow> app \<Rightarrow> app" where
  "update_nav f s = update_report (ownship (initial_env s)) f s"

fun app_handle ::
    "print_env \<Rightarrow> libm \<Rightarrow> text_ops \<Rightarrow> 'r pb_ops \<Rightarrow> app_config \<Rightarrow> ('r app_event, app, app_output) handler" where
  "app_handle pe m ops pb cfg (Avg_Ss_Vec msg) s = res_bind (handle_ssp_update ops msg s) (\<lambda>s'. Inr (s', []))"
| "app_handle pe m ops pb cfg (Ssp_Info_Request msg) s = res_bind (handle_ssp_request ops msg s) (\<lambda>out. Inr (s, out))"
| "app_handle pe m ops pb cfg (Bellhop_Req w requestor req) s = handle_request pe m ops pb cfg w requestor req s"
| "app_handle pe m ops pb cfg (Node_Report msg) s = Inr (handle_node_report ops msg s, [])"
| "app_handle pe m ops pb cfg (Nav_X x t) s = Inr (update_nav (\<lambda>nr. nr\<lparr>nr_x := x, nr_time := t\<rparr>) s, [])"
| "app_handle pe m ops pb cfg (Nav_Y y) s = Inr (update_nav (\<lambda>nr. nr\<lparr>nr_y := y\<rparr>) s, [])"
| "app_handle pe m ops pb cfg (Nav_Depth d) s = handle_nav_depth cfg d s"
| "app_handle pe m ops pb cfg (Nav_Speed v) s = Inr (update_nav (\<lambda>nr. nr\<lparr>nr_speed := v\<rparr>) s, [])"
| "app_handle pe m ops pb cfg (Nav_Heading h) s = Inr (update_nav (\<lambda>nr. nr\<lparr>nr_heading := h\<rparr>) s, [])"

text \<open>
  The constructor, given the configured environment, the name of the community, whether the vehicle's
  name is configured and which water columns have a bathymetry. Without a water column it does not look
  at the profile. It publishes the water columns, those without a bathymetry with the depth of the bottom.
\<close>

definition svp_response :: "(nat \<Rightarrow> bool) \<Rightarrow> app_env \<Rightarrow> water_column list" where
  "svp_response has_bathymetry env =
     map (\<lambda>(j, wc). if has_bathymetry j then wc else wc\<lparr>bathymetry := medium_depth (bottom env)\<rparr>)
       (enumerate 0 (water_columns env))"

definition sort_first_column :: "app_env \<Rightarrow> app_env" where
  "sort_first_column env =
     (case water_columns env of
        [] \<Rightarrow> env
      | wc # wcs \<Rightarrow> env\<lparr>water_columns := wc\<lparr>ssp_samples := sort_samples (ssp_samples wc)\<rparr> # wcs\<rparr>)"

definition app_init :: "app_env \<Rightarrow> string \<Rightarrow> bool \<Rightarrow> (nat \<Rightarrow> bool) \<Rightarrow> (app \<times> water_column list) res" where
  "app_init env community has_ownship has_bathymetry =
     (let env1 = sort_first_column env;
          env2 = (if has_ownship then env1 else env1\<lparr>ownship := community\<rparr>);
          surface_sampled = (case water_columns env1 of
              [] \<Rightarrow> True
            | wc # _ \<Rightarrow> ssp_samples wc \<noteq> [] \<and> fp_eq (sample_depth (hd (ssp_samples wc))) (Fin 0))
      in if \<not> surface_sampled then Inl Die
         else Inr (\<lparr>initial_env = env2, node_reports = Map.empty, env_dir = Map.empty, stream = None,
                    env_fixed = False, bty_fixed = False\<rparr>, svp_response has_bathymetry env2))"

section \<open>Answers\<close>

lemma open_files_stream: "stream (fst (open_files writable base s)) =
    (if stream s = None then if writable base then Some base else None else stream s)"
  by (auto simp: open_files_def)

lemma open_files_closed:
  "stream s = None \<Longrightarrow> writable base
    \<Longrightarrow> open_files writable base s = (s\<lparr>stream := Some base, env_dir := (env_dir s)(base \<mapsto> Begun)\<rparr>, True)"
  by (simp add: open_files_def)

lemma open_files_open: "stream s \<noteq> None \<Longrightarrow> open_files writable base s = (s, False)"
  by (simp add: open_files_def)

lemma run_bellhop_runs: "Run_Bellhop b \<in> set (snd (run_bellhop ops base env)) \<longleftrightarrow> b = base"
  by (auto simp: run_bellhop_def split: prod.splits)

lemma run_bellhop_no_response: "Pub_Response r \<notin> set (snd (run_bellhop ops base env))"
  by (auto simp: run_bellhop_def split: prod.splits)

text \<open>What a request does to the files, from closed streams.\<close>

lemma calculate_env_closed:
  assumes "stream s = None" and "calculate_env pe ops cfg w requestor env s = Inr (s', output_file, out)"
  shows "(\<exists>files. output_env pe (env_fixed s) (bty_fixed s) (bellhop_env.truncate env) = Inr files
       \<and> (output_file, out) = run_bellhop ops (file_base ops cfg requestor (iso_time w) env) env
       \<and> stream s' = None \<and> env_dir s' = (env_dir s)(file_base ops cfg requestor (iso_time w) env \<mapsto> Written files))
     \<or> (\<exists>e. output_env pe (env_fixed s) (bty_fixed s) (bellhop_env.truncate env) = Inl (Runtime_Error e)
       \<and> output_file = '''' \<and> out = [] \<and> stream s' = Some (file_base ops cfg requestor (iso_time w) env))"
proof -
  let ?base = "file_base ops cfg requestor (iso_time w) env"
  have w: "can_write w ?base"
    using assms by (auto simp: calculate_env_def Let_def open_files_def split: if_splits)
  show ?thesis
  proof (cases "output_env pe (env_fixed s) (bty_fixed s) (bellhop_env.truncate env)")
    case (Inl f)
    with assms w show ?thesis
      by (cases f) (auto simp: calculate_env_def Let_def open_files_closed)
  next
    case (Inr files)
    obtain o1 o2 where r: "run_bellhop ops ?base env = (o1, o2)" by (rule prod.exhaust)
    from Inr assms w show ?thesis
      by (auto simp: calculate_env_def Let_def open_files_closed r)
  qed
qed

text \<open>The same from streams that an earlier request has left open: nothing reaches the new files.\<close>

lemma calculate_env_open:
  assumes "stream s \<noteq> None"
    and "output_env pe (env_fixed s) (bty_fixed s) (bellhop_env.truncate env) = Inr files"
  shows "\<exists>s'. calculate_env pe ops cfg w requestor env s =
       Inr (s', run_bellhop ops (file_base ops cfg requestor (iso_time w) env) env)
     \<and> env_dir s' = env_dir s \<and> stream s' = None"
proof -
  obtain o1 o2 where r: "run_bellhop ops (file_base ops cfg requestor (iso_time w) env) env = (o1, o2)"
    by (rule prod.exhaust)
  from assms show ?thesis by (simp add: calculate_env_def Let_def open_files_open r)
qed

text \<open>Whether the vehicles are known, when the request asks for their positions.\<close>

definition positions_known :: "app \<Rightarrow> app_env \<Rightarrow> bool" where
  "positions_known s env \<longleftrightarrow>
     (auto_receiver_ranges env \<or> auto_source_depth env \<longrightarrow>
        node_reports s (contact env) \<noteq> None \<and> node_reports s (ownship env) \<noteq> None)"

lemma update_positions_output:
  "update_positions m ops cfg now s env = Inr (found, env', out) \<Longrightarrow>
     (\<forall>x \<in> set out. \<exists>v d. x = Pub_Double v d) \<and> (\<not> found \<longrightarrow> env' = env \<and> out = [])
     \<and> (found \<longleftrightarrow> positions_known s env)"
  by (auto simp: update_positions_def positions_known_def Let_def res_bind_eq_Inr split: if_splits option.splits)

lemma request_answer:
  assumes "handle_request pe m ops pb cfg w requestor req s = Inr (s', out)" and "stream s = None"
  shows "\<exists>rsp pubs. out = pubs @ [Pub_Response rsp] \<and> (\<forall>r. Pub_Response r \<notin> set pubs)
     \<and> rsp_requestor rsp = requestor \<and> rsp_number rsp = req_number req
     \<and> (rsp_success rsp \<longleftrightarrow>
          (let env = lower_names ops (merged_env pb (initial_env s) req)
           in \<not> too_many_receivers cfg env \<and> positions_known s env))
     \<and> (\<not> rsp_success rsp \<longrightarrow> s' = s \<and> (\<forall>b. Run_Bellhop b \<notin> set out))
     \<and> (\<forall>b. Run_Bellhop b \<in> set out \<longrightarrow> stream s' = None
          \<and> (\<exists>files. env_dir s' b = Some (Written files)
               \<and> output_env pe (env_fixed s) (bty_fixed s) (bellhop_env.truncate (rsp_env rsp)) = Inr files))
     \<and> (rsp_success rsp \<and> (\<forall>b. Run_Bellhop b \<notin> set out) \<longrightarrow>
          (\<exists>e. output_env pe (env_fixed s) (bty_fixed s) (bellhop_env.truncate (rsp_env rsp)) = Inl (Runtime_Error e)))"
proof -
  let ?env = "lower_names ops (merged_env pb (initial_env s) req)"
  show ?thesis
  proof (cases "too_many_receivers cfg ?env")
    case True
    with assms show ?thesis by (auto simp: handle_request_def response_def Let_def)
  next
    case False
    with assms(1) obtain found env1 out1
      where u: "update_positions m ops cfg (moos_time w) s ?env = Inr (found, env1, out1)"
      by (auto simp: handle_request_def Let_def res_bind_eq_Inr)
    note pubs = update_positions_output [OF u]
    show ?thesis
    proof (cases found)
      case False
      with assms \<open>\<not> too_many_receivers cfg ?env\<close> u pubs show ?thesis
        by (auto simp: handle_request_def response_def)
    next
      case True
      note known = True \<open>\<not> too_many_receivers cfg ?env\<close>
      from True assms(1) \<open>\<not> too_many_receivers cfg ?env\<close> u obtain output_file out2 avg matrix
        where c: "calculate_env pe ops cfg w requestor env1 s = Inr (s', output_file, out2)"
          and out: "out = (out1 @ out2) @ [Pub_Response ((response requestor req True env1)
              \<lparr>rsp_output_file := opt_val (canonical w output_file) output_file,
               rsp_avg_tl := avg, rsp_tl_matrix := matrix\<rparr>)]"
        by (auto simp: handle_request_def Let_def res_bind_eq_Inr)
      from calculate_env_closed [OF assms(2) c] show ?thesis
      proof (elim disjE exE conjE)
        fix files
        assume o: "(output_file, out2) = run_bellhop ops (file_base ops cfg requestor (iso_time w) env1) env1"
          and f: "output_env pe (env_fixed s) (bty_fixed s) (bellhop_env.truncate env1) = Inr files"
          and s': "stream s' = None"
            "env_dir s' = (env_dir s)(file_base ops cfg requestor (iso_time w) env1 \<mapsto> Written files)"
        have o2: "out2 = snd (run_bellhop ops (file_base ops cfg requestor (iso_time w) env1) env1)"
          by (simp add: o [symmetric])
        show ?thesis
          by (intro exI conjI, rule out)
            (use f s' pubs o2 known in \<open>auto simp: out run_bellhop_runs run_bellhop_no_response response_def\<close>)
      next
        fix e
        assume f: "output_env pe (env_fixed s) (bty_fixed s) (bellhop_env.truncate env1) = Inl (Runtime_Error e)"
          "out2 = []"
        show ?thesis
          by (intro exI conjI, rule out) (use f pubs known in \<open>auto simp: out response_def\<close>)
      qed
    qed
  qed
qed


text \<open>
  After a request whose environment cannot be written, which is answered as a success, the streams are
  open. The next request is lost: it is answered as a success and the ray tracer is run, but its files do
  not exist.
\<close>

theorem failed_environment_loses_next_request:
  assumes "stream s = Some old" and "\<not> auto_receiver_ranges env" "\<not> auto_source_depth env" "\<not> read_shd_file env"
    and "env = lower_names ops (merged_env pb (initial_env s) req)" and "\<not> too_many_receivers cfg env"
    and "output_env pe (env_fixed s) (bty_fixed s) (bellhop_env.truncate env) = Inr files"
    and "base = file_base ops cfg requestor (iso_time w) env"
  shows "\<exists>s' out rsp. handle_request pe m ops pb cfg w requestor req s = Inr (s', out)
     \<and> Pub_Response rsp \<in> set out \<and> rsp_success rsp \<and> Run_Bellhop base \<in> set out \<and> env_dir s' base = env_dir s base"
proof -
  obtain o1 o2 where r: "run_bellhop ops base env = (o1, o2)" by (rule prod.exhaust)
  obtain s' where c: "calculate_env pe ops cfg w requestor env s = Inr (s', o1, o2)" "env_dir s' = env_dir s"
    using calculate_env_open [OF _ assms(7), of ops cfg w requestor] assms(1,8) r by auto
  have o2: "Run_Bellhop base \<in> set o2" using run_bellhop_runs [of base ops base env] by (simp add: r)
  have request: "handle_request pe m ops pb cfg w requestor req s =
      Inr (s', o2 @ [Pub_Response ((response requestor req True env)
        \<lparr>rsp_output_file := opt_val (canonical w o1) o1, rsp_avg_tl := [], rsp_tl_matrix := None\<rparr>)])"
    using c assms(2-4,6) by (simp add: handle_request_def Let_def assms(5) [symmetric] update_positions_def)
  show ?thesis
    by (intro exI conjI, rule request) (use o2 c(2) in \<open>auto simp: response_def\<close>)
qed

section \<open>Where the receivers are placed\<close>

lemma to_uint32_range: "to_uint32 x = Inr n \<Longrightarrow> 0 \<le> n \<and> n < 2 ^ 32"
  by (cases x) (auto split: if_splits)

lemma set_ranges_eq:
  assumes "set_ranges r f env = Inr env'"
  shows "receiver_first_range env' \<le> receiver_last_range env'
     \<and> {receiver_first_range env', receiver_last_range env'} = {r, f}
     \<and> to_uint32 (fp_ceil (d_div (fp_abs (d_sub f r)) (d_of_int (auto_receiver_ranges_delta env)))) =
         Inr (receiver_number_in_range env')
     \<and> env' = env\<lparr>receiver_number_in_range := receiver_number_in_range env',
         receiver_first_range := receiver_first_range env', receiver_last_range := receiver_last_range env'\<rparr>"
proof -
  from assms obtain n where n: "to_uint32 (fp_ceil (d_div (fp_abs (d_sub f r)) (d_of_int (auto_receiver_ranges_delta env)))) = Inr n"
    and env': "env' = env\<lparr>receiver_number_in_range := n, receiver_first_range := (if r \<le> f then r else f),
      receiver_last_range := (if r \<le> f then f else r)\<rparr>"
    by (auto simp: set_ranges_def res_bind_eq_Inr)
  have "d_add f NaN = NaN" by (cases f) simp_all
  with n have "r \<noteq> NaN" "f \<noteq> NaN" by (auto simp: fp_sub_def)
  then have "r \<le> f \<or> f \<le> r" using fp_not_less fp_less_iff by metis
  with n env' show ?thesis by auto
qed


section \<open>The limit on the receivers\<close>

text \<open>
  The product of the numbers of receivers wraps: a request for a multiple of \<open>2 ^ 32\<close> receivers passes any
  limit.
\<close>

theorem receiver_limit_wraps:
  assumes "receiver_number_in_depth env = 65536" "receiver_number_in_range env = 65536"
  shows "\<not> too_many_receivers cfg env"
  using assms by (simp add: too_many_receivers_def)

section \<open>Reading the transmission loss back\<close>

text \<open>The numbers of a file for a matrix of pressures, one row for each depth.\<close>

definition shd_numbers :: "fp list \<Rightarrow> fp list \<Rightarrow> fp list \<Rightarrow> (fp \<times> fp) list list \<Rightarrow> fp list" where
  "shd_numbers header depths ranges pressures =
     take 3 header @ [Fin (of_nat (length depths)), Fin (of_nat (length ranges))] @ drop 3 header
     @ depths @ ranges @ concat (map (\<lambda>row. concat (map (\<lambda>(re, im). [re, im]) row)) pressures)"

lemma read_floats_append: "read_floats (length xs) (xs @ ys) = Inr (map (to_format f_round) xs, ys)"
  by (induction xs) simp_all

lemma read_losses_append:
  "read_losses m (length ps) (concat (map (\<lambda>(re, im). [re, im]) ps) @ ys) =
     Inr (map (\<lambda>(re, im). loss_of m re im) ps, ys)"
  by (induction ps) (auto split: prod.splits)

lemma read_rows_append:
  "\<forall>row \<in> set rows. length row = n \<Longrightarrow>
   read_rows m (length rows) n (concat (map (\<lambda>row. concat (map (\<lambda>(re, im). [re, im]) row)) rows) @ ys) =
     Inr (map (map (\<lambda>(re, im). loss_of m re im)) rows, ys)"
proof (induction rows)
  case (Cons row rows)
  then show ?case using read_losses_append [of m row] by (simp add: append_assoc)
qed simp

lemma to_int32_of_nat: "n < 2 ^ 31 \<Longrightarrow> to_int32 (Fin (of_nat n)) = Inr (int n)"
  by (simp add: rat_trunc_def)

lemma fits_read: "fits f_round (to_format f_round x)"
proof (cases x)
  case (Fin a)
  show ?thesis
  proof (cases "f_round a")
    case (Fin b)
    then have "f_round b = Fin b" by (intro fin_round_idem [of 24 127 a]) simp_all
    with \<open>x = Fin a\<close> Fin show ?thesis by simp
  qed (use Fin in simp_all)
qed simp_all

lemma load_save_tl_matrix:
  assumes "archive ar" and "list_all (fits f_round) (tl_depths t)" "list_all (fits f_round) (tl_ranges t)"
    and "list_all (list_all (fits f_round)) (tl_values t)"
  shows "load_tl_matrix ar (save_tl_matrix ar t) = Some t"
proof -
  note get_put = archive.get_put [OF assms(1)]
  have "get_rows ar (put_rows ar (tl_values t)) = Some (tl_values t, [])"
    using archive.rows [OF assms(1,4), of "[]"] by simp
  then show ?thesis
    by (simp add: load_tl_matrix_def save_tl_matrix_def archive.header [OF assms(1)]
        archive.floats [OF assms(1,2)] archive.floats [OF assms(1,3)])
qed

text \<open>
  C20: What the converter of the ray tracer has written is read back: the depths, the ranges and the loss of
  every pressure in its row and column, and for every depth the mean over the ranges. The matrix survives
  the archive in which it goes to the requestor.
\<close>

theorem losses_read_back:
  assumes "length header = 6" and "length depths < 2 ^ 31" "length ranges < 2 ^ 31"
    and "length pressures = length depths" "\<forall>row \<in> set pressures. length row = length ranges"
    and "asc_numbers w = Some (shd_numbers header depths ranges pressures)"
  shows "read_shd m w env =
     (let losses = map (map (\<lambda>(re, im). loss_of m re im)) pressures;
          ds = map (to_format f_round) depths
      in Inr (zip ds (map (average_loss m (int (length ranges))) losses),
              if full_shd_matrix env
              then Some \<lparr>tl_depths = ds, tl_ranges = map (to_format f_round) ranges, tl_values = losses\<rparr> else None))
   \<and> (\<forall>avg t ar. read_shd m w env = Inr (avg, Some t) \<and> archive (ar :: 'b archive_ops) \<longrightarrow>
        load_tl_matrix ar (save_tl_matrix ar t) = Some t)"
proof -
  from assms(1) obtain a b c d e f where h: "header = [a, b, c, d, e, f]"
    by (auto simp: eval_nat_numeral length_Suc_conv)
  have "read_rows m (length depths) (length ranges)
      (concat (map (\<lambda>row. concat (map (\<lambda>(re, im). [re, im]) row)) pressures)) =
      Inr (map (map (\<lambda>(re, im). loss_of m re im)) pressures, [])"
    using read_rows_append [OF assms(5), of m "[]"] assms(4) by simp
  then have "parse_shd m (shd_numbers header depths ranges pressures) =
      Inr (int (length ranges), \<lparr>tl_depths = map (to_format f_round) depths, tl_ranges = map (to_format f_round) ranges,
        tl_values = map (map (\<lambda>(re, im). loss_of m re im)) pressures\<rparr>)"
    using to_int32_of_nat [OF assms(2)] to_int32_of_nat [OF assms(3)]
    by (simp add: parse_shd_def shd_numbers_def h read_floats_append del: fp_to_int.simps)
  with assms(6) have r: "read_shd m w env =
     (let losses = map (map (\<lambda>(re, im). loss_of m re im)) pressures;
          ds = map (to_format f_round) depths
      in Inr (zip ds (map (average_loss m (int (length ranges))) losses),
              if full_shd_matrix env
              then Some \<lparr>tl_depths = ds, tl_ranges = map (to_format f_round) ranges, tl_values = losses\<rparr> else None))"
    by (simp add: read_shd_def Let_def)
  have "load_tl_matrix ar (save_tl_matrix ar t) = Some t"
    if "read_shd m w env = Inr (avg, Some t)" "archive ar" for avg t and ar :: "'b archive_ops"
    using that(1) r
    by (intro load_save_tl_matrix [OF that(2)])
       (auto simp: Let_def list_all_iff fits_read loss_of_def split: if_splits)
  with r show ?thesis by blast
qed

section \<open>Concrete inputs\<close>

definition ops1 :: text_ops where
  "ops1 = \<lparr>val_string = (\<lambda>_ _. None), val_double = (\<lambda>_ _. None), split_commas = (\<lambda>s. [s]), as_double = (\<lambda>_. Fin 0),
     to_lower = (\<lambda>s. if s = ''Ship'' then ''ship'' else s), to_upper = id, colons_replaced = id, show_speed = (\<lambda>_. ''1'')\<rparr>"

definition libm1 :: libm where
  "libm1 = \<lparr>m_sqrt = id, m_sin = (\<lambda>_. Fin 0), m_cos = (\<lambda>_. Fin 1), m_atan2 = (\<lambda>_ _. Fin 0), m_log10 = id,
     m_pow10 = id, m_hypot = (\<lambda>a _. a)\<rparr>"

definition pb1 :: "unit pb_ops" where
  "pb1 = \<lparr>request_columns = (\<lambda>_. 0), merge_first_column = (\<lambda>w _. w), clear_columns = id, merge_env = (\<lambda>e _. e)\<rparr>"

definition app_cfg1 :: app_config where
  "app_cfg1 = \<lparr>max_number_of_receivers = 1000000, output_env_dir = ''/tmp'', extrapolate_nav = False,
     local_sound_speed_var = None\<rparr>"

definition world1 :: request_world where
  "world1 = \<lparr>moos_time = Fin 0, iso_time = ''t'', can_write = (\<lambda>_. True), canonical = (\<lambda>_. None), asc_numbers = None\<rparr>"

definition print1 :: print_env where
  "print1 = \<lparr>show_double = (\<lambda>_ _. ''1''), pow10 = id\<rparr>"

definition medium1 :: medium where
  "medium1 = \<lparr>medium_kind = VACUUM, attenuation_unit = DB_PER_M, attenuation_value = Fin 0, medium_cp = Fin 0,
     medium_cs = Fin 0, medium_density = Fin 0, medium_depth = Fin 0, rc_samples = []\<rparr>"

definition env1 :: app_env where
  "env1 = \<lparr>env_title = ''t'', env_freq = 25000, env_output = ARRIVAL_TIMES, surface = medium1,
     water_columns = [column 100 [sample 0 1500, sample 100 1520]], bottom = medium1,
     source_number = 1, source_first_depth = Fin 10, source_last_depth = Fin 10,
     receiver_number_in_depth = 1, receiver_number_in_range = 2, receiver_first_depth = Fin 10,
     receiver_first_range = Fin 0, receiver_last_depth = Fin 10, receiver_last_range = Fin 1000,
     env_beams = \<lparr>beam_approximation = GEOMETRIC, theta_min = -90, theta_max = 90, beam_number = 0\<rparr>,
     contact = ''target'', ownship = ''Ship'', read_shd_file = False, full_shd_matrix = True,
     auto_receiver_ranges = False, auto_receiver_ranges_delta = 1, look_ahead_seconds = 60, auto_source_depth = False\<rparr>"

definition app1 :: app where
  "app1 = \<lparr>initial_env = env1, node_reports = Map.empty, env_dir = Map.empty, stream = None, env_fixed = False,
     bty_fixed = False\<rparr>"

definition req1 :: "unit app_request" where
  "req1 = \<lparr>req_env = (), req_number = Some 3, req_action = MERGE_SAMPLES\<rparr>"

lemma app1_init: "app_init env1 ''shore'' True (\<lambda>_. True) = Inr (app1, water_columns env1)"
  by (simp add: app_init_def app1_def env1_def sort_first_column_def sort_samples_def sample_def column_def
      svp_response_def Let_def)

lemma env1_written:
  "\<exists>files. output_env print1 f b (bellhop_env.truncate (lower_names ops1 (merged_env pb1 env1 req1))) = Inr files"
proof -
  let ?e = "bellhop_env.truncate (lower_names ops1 (merged_env pb1 env1 req1))"
  let ?s = "[sample 0 1500, sample 100 1520]"
  have e: "water_columns ?e = [column 100 ?s]"
    by (simp add: bellhop_env.truncate_def lower_names_def merged_env_def pb1_def req1_def env1_def)
  let ?m = "depth_ssp_map (column 100 ?s)"
  have m: "?m = [(Fin 0, Fin 1500), (Fin 100, Fin 1520)]" by (simp del: map_column(4,5))
  from box_depth_defined [of 100] obtain i where i: "to_int32 (d_mul (Fin 100) box_factor) = Inr i" by auto
  have "map_res (\<lambda>p. to_int32 (fst p)) ?m = Inr [0, 100]" unfolding m by (simp add: rat_trunc_def)
  then show ?thesis using i by (simp add: output_env_def e Let_def rd_ssp_mat_def m del: fp_to_int.simps map_res.simps)
qed

lemma env1_answered:
  "\<exists>s' out. handle_request print1 libm1 ops1 pb1 app_cfg1 world1 requestor req1 app1 = Inr (s', out)
     \<and> Run_Bellhop (file_base ops1 app_cfg1 requestor (iso_time world1) (lower_names ops1 (merged_env pb1 env1 req1))) \<in> set out"
proof -
  let ?env = "lower_names ops1 (merged_env pb1 env1 req1)"
  let ?base = "file_base ops1 app_cfg1 requestor (iso_time world1) ?env"
  obtain files where f: "output_env print1 False False (bellhop_env.truncate ?env) = Inr files"
    using env1_written by blast
  have plain: "\<not> too_many_receivers app_cfg1 ?env" "\<not> auto_receiver_ranges ?env" "\<not> auto_source_depth ?env"
    "\<not> read_shd_file ?env"
    by (simp_all add: too_many_receivers_def app_cfg1_def lower_names_def merged_env_def pb1_def req1_def env1_def)
  obtain o1 o2 where r: "run_bellhop ops1 ?base ?env = (o1, o2)" by (rule prod.exhaust)
  have "Run_Bellhop ?base \<in> set o2" using run_bellhop_runs [of ?base ops1 ?base ?env] by (simp add: r)
  moreover have "open_files (can_write world1) ?base app1 =
      (app1\<lparr>stream := Some ?base, env_dir := (env_dir app1)(?base \<mapsto> Begun)\<rparr>, True)"
    by (rule open_files_closed) (simp_all add: app1_def world1_def)
  ultimately show ?thesis using plain f
    by (simp add: handle_request_def Let_def update_positions_def calculate_env_def r app1_def)
qed


definition report1 :: "int \<Rightarrow> int \<Rightarrow> node_report" where
  "report1 x v = node_report_zero\<lparr>nr_x := Fin (of_int x), nr_speed := Fin (of_int v)\<rparr>"


theorem losses_read_back_witness:
  "read_shd libm1 (world1\<lparr>asc_numbers := Some (shd_numbers (replicate 6 (Fin 0)) [Fin 10] [Fin 100, Fin 200]
       [[(Fin 1, Fin 0), (Fin 2, Fin 0)]])\<rparr>) env1 =
   Inr ([(Fin 10, average_loss libm1 2 [Fin (-20), Fin (-40)])],
     Some \<lparr>tl_depths = [Fin 10], tl_ranges = [Fin 100, Fin 200], tl_values = [[Fin (-20), Fin (-40)]]\<rparr>)"
proof -
  have "f_round (-20) = Fin (-20)" "f_round (-40) = Fin (-40)"
    using f_round_int [of "-20"] f_round_int [of "-40"] by simp_all
  then show ?thesis
    by (subst conjunct1 [OF losses_read_back, of "replicate 6 (Fin 0)" "[Fin 10]" "[Fin 100, Fin 200]" "[[(Fin 1, Fin 0), (Fin 2, Fin 0)]]"])
      (simp_all add: loss_of_def libm1_def env1_def)
qed

section \<open>The own vehicle\<close>

text \<open>
  The navigation data of the own vehicle is kept under its configured name, and looked up under that name
  in lower case: with a capital letter in the name, no amount of it lets a request find the vehicle.
\<close>

theorem own_navigation_not_found:
  assumes "list_all (\<lambda>e. \<exists>x t. e \<in> {Nav_X x t, Nav_Y x, Nav_Speed x, Nav_Heading x}) evs"
    and "run (app_handle pe m ops pb cfg) evs s = Inr (s', out)"
    and "node_reports s (to_lower ops (ownship (initial_env s))) = None"
    and "to_lower ops (ownship (initial_env s)) \<noteq> ownship (initial_env s)"
    and "auto_receiver_ranges env" and "ownship env = to_lower ops (ownship (initial_env s))"
  shows "update_positions m ops cfg now s' env = Inr (False, env, [])"
proof -
  have "initial_env s' = initial_env s \<and> node_reports s' (to_lower ops (ownship (initial_env s))) = None"
    using assms(1-4)
  proof (induction evs arbitrary: s out)
    case (Cons e evs)
    from Cons.prems(2) obtain s1 o1 o2 where step: "app_handle pe m ops pb cfg e s = Inr (s1, o1)"
      and rest: "run (app_handle pe m ops pb cfg) evs s1 = Inr (s', o2)"
      unfolding run_Cons_Inr by blast
    from Cons.prems(1,3,4) step have "initial_env s1 = initial_env s"
      "node_reports s1 (to_lower ops (ownship (initial_env s))) = None"
      by (auto simp: update_nav_def update_report_def)
    with Cons.IH [OF _ rest] Cons.prems(1,4) show ?case by simp
  qed simp
  with assms(5,6) show ?thesis by (auto simp: update_positions_def split: option.splits)
qed

text \<open>A step of zero metres between the receivers is a division by zero, and its conversion undefined.\<close>

theorem zero_receiver_step_undefined:
  assumes "auto_receiver_ranges_delta env = 0" shows "set_ranges r f env = Inl Undefined_Behaviour"
proof -
  have "d_div x (Fin 0) \<in> {NaN, PInf, NInf}" for x
    by (cases x) (auto simp: signed_inf_def)
  from this [of "fp_abs (d_sub f r)"] assms show ?thesis by (auto simp: set_ranges_def)
qed

section \<open>The profile of a running application\<close>

text \<open>The depths of a message of measured speeds are numbers.\<close>

fun depths_are_numbers :: "text_ops \<Rightarrow> 'r app_event \<Rightarrow> bool" where
  "depths_are_numbers ops (Avg_Ss_Vec msg) \<longleftrightarrow>
     (\<forall>d \<in> set (split_commas ops (opt_val (val_string ops ''depth'' msg) '''')). as_double ops d \<noteq> NaN)"
| "depths_are_numbers ops _ \<longleftrightarrow> True"

definition profile_inv :: "app \<Rightarrow> bool" where
  "profile_inv s \<longleftrightarrow> (\<forall>wc wcs. water_columns (initial_env s) = wc # wcs \<longrightarrow> profile_ok (ssp_samples wc))"

lemma handle_ssp_update_inv:
  assumes "depths_are_numbers ops (Avg_Ss_Vec msg)" "profile_inv s" "handle_ssp_update ops msg s = Inr s'"
  shows "profile_inv s'"
proof -
  let ?d = "split_commas ops (opt_val (val_string ops ''depth'' msg) '''')"
  let ?c = "split_commas ops (opt_val (val_string ops ''c'' msg) '''')"
  let ?us = "map (\<lambda>(d, c). (as_double ops d, as_double ops c)) (filter (\<lambda>(d, c). c \<noteq> ''0'' \<and> c \<noteq> '''') (zip ?d ?c))"
  have "\<forall>u \<in> set ?us. fst u \<noteq> NaN" using assms(1) by (auto dest: set_zip_leftD)
  then have "profile_ok (apply_updates ?us ss)" if "profile_ok ss" for ss
    using set_samples [OF _ profile_ok_distinct [OF that]] by (simp add: apply_updates_def sort_samples_ok)
  with assms(2,3) show ?thesis
    by (auto simp: handle_ssp_update_def profile_inv_def Let_def split: if_splits list.splits)
qed

lemma calculate_env_frame: "calculate_env pe ops cfg w requestor env s = Inr (s', r) \<Longrightarrow> initial_env s' = initial_env s"
  by (auto simp: calculate_env_def open_files_def Let_def split: if_splits sum.splits fault.splits prod.splits)

lemma handle_request_frame: "handle_request pe m ops pb cfg w requestor req s = Inr (s', out) \<Longrightarrow> initial_env s' = initial_env s"
  by (auto simp: handle_request_def Let_def res_bind_eq_Inr split: if_splits dest: calculate_env_frame)

lemma app_handle_inv:
  assumes "depths_are_numbers ops e" "profile_inv s" "app_handle pe m ops pb cfg e s = Inr (s', out)"
  shows "profile_inv s'"
proof (cases e)
  case (Avg_Ss_Vec msg)
  with assms handle_ssp_update_inv show ?thesis by (auto simp: res_bind_eq_Inr)
next
  case (Bellhop_Req w requestor req)
  with assms handle_request_frame show ?thesis by (fastforce simp: profile_inv_def)
qed (use assms in \<open>auto simp: profile_inv_def update_nav_def update_report_def handle_node_report_def
      handle_nav_depth_def Let_def res_bind_eq_Inr split: option.splits\<close>)

interpretation profile: component "app_handle pe m ops pb cfg" "depths_are_numbers ops" profile_inv for pe m ops pb cfg
  by unfold_locales (rule app_handle_inv)

lemma app_init_inv:
  assumes "app_init env community has_ownship has_bathymetry = Inr (s, pub)"
    and "\<forall>wc wcs. water_columns env = wc # wcs \<longrightarrow> depths_distinct (ssp_samples wc)"
  shows "profile_inv s"
  using assms sort_samples_ok
  by (auto simp: app_init_def profile_inv_def sort_first_column_def Let_def split: if_splits list.splits)

text \<open>
  C19: Whatever the application is told, requests included, its sound speed profile stays in strictly
  increasing depth, with one sample for each depth, as long as the configured depths are different and
  the measured ones are numbers.
\<close>

theorem profile_stays_ordered:
  assumes "app_init env community has_ownship has_bathymetry = Inr (s, pub)"
    and "\<forall>wc wcs. water_columns env = wc # wcs \<longrightarrow> depths_distinct (ssp_samples wc)"
    and "list_all (depths_are_numbers ops) evs" and "run (app_handle pe m ops pb cfg) evs s = Inr (s', out)"
    and "water_columns (initial_env s') = wc # wcs"
  shows "profile_ok (ssp_samples wc)"
  using profile.run_inv [OF assms(3) app_init_inv [OF assms(1,2)] assms(4)] assms(5) by (simp add: profile_inv_def)

theorem profile_stays_ordered_witness:
  "\<exists>s' out. run (app_handle print1 libm1 ops1 pb1 app_cfg1) [Avg_Ss_Vec ''depth=0,c=1'', Nav_X (Fin 1) (Fin 2)] app1 = Inr (s', out)
     \<and> profile_ok (ssp_samples (hd (water_columns (initial_env s'))))"
proof -
  let ?evs = "[Avg_Ss_Vec ''depth=0,c=1'', Nav_X (Fin 1) (Fin 2)] :: unit app_event list"
  obtain s' out wc where r: "run (app_handle print1 libm1 ops1 pb1 app_cfg1) ?evs app1 = Inr (s', out)"
    and wc: "water_columns (initial_env s') = [wc]"
    by (simp add: handle_ssp_update_def ops1_def app1_def env1_def Let_def opt_val_def update_nav_def update_report_def)
  have d: "\<forall>wc wcs. water_columns env1 = wc # wcs \<longrightarrow> depths_distinct (ssp_samples wc)"
    by (auto simp: env1_def depths_distinct_def sample_def)
  have n: "list_all (depths_are_numbers ops1) ?evs" by (simp add: ops1_def opt_val_def)
  from profile_stays_ordered [OF app1_init d n r wc] r wc show ?thesis by auto
qed

end
