(* ===== verification/Liaison.thy ===== *)
theory Liaison
  imports Logging Manager Bellhop Ordered_Map
begin

text \<open>
  What the operator sees: the post-processing of recordings and ray traces
  (\<open>src/apps/netsim_postprocess/audio_images.h\<close>, \<open>tl_plot.h\<close>) and the web page of the simulator
  (\<open>src/lib/liaison/liaison_netsim.cpp\<close>, \<open>liaison_netsim.h\<close>).

  The widgets of Wt are the operations the page calls on them: a title and a picture of a panel, an enabled
  button, the entries of a list, the calls of a painter. The size of a picture and the projection to a
  plane are parameters. The values of the spin boxes and the entry that is selected
  come with the click, as the page reads them only there. At the end the page is joined to the manager by the
  thread that posts to it.
\<close>

section \<open>Post-processing\<close>

datatype post_output =
    Command string
  | Post_Event logger_event
  | Post_Response app_response

fun audio_images :: "logger_event \<Rightarrow> post_output list" where
  "audio_images (All_Logs_Closed_For_Packet dir start i tx) =
     [Command (''octave /opt/netsim/src/octave/liaison_plot_signal.m '' @ dir @ '' '' @ start @ '' ''
        @ dec (sint i) @ '' '' @ dec tx),
      Command (''/opt/netsim/scripts/convert_eps.sh '' @ dir),
      Post_Event (All_Logs_Closed_For_Packet dir start i tx)]"
| "audio_images (Packet_Start i tx) = [Post_Event (Packet_Start i tx)]"

definition translator_name :: string where
  "translator_name = ''goby::moos::Translator''"

definition tl_plot :: "app_response \<Rightarrow> post_output list" where
  "tl_plot rsp =
     (if \<exists>a b. rsp_requestor rsp = a @ translator_name @ b
      then (if rsp_success rsp
            then [Command (''octave /opt/netsim/src/octave/liaison_create_shd.m '' @ rsp_output_file rsp)] else [])
           @ [Post_Response rsp]
      else [])"

section \<open>State of the page\<close>

type_synonym nav_map = "(int \<times> nav_update) list"

record page =
  spect_panel :: "string \<times> string"
  timeseries_panel :: "string \<times> string"
  last_nav :: nav_map
  nav_at_last_tx_start :: "int \<Rightarrow> nav_map"
  nav_at_previous_tx_start :: "int \<Rightarrow> nav_map"
  page_receive_stats :: "int \<Rightarrow> (int \<times> receive_stats) list"
  page_manager_cfg :: manager_config
  tl_tx_items :: "string list"
  tl_image_path :: string
  tl_request_enabled :: bool
  transmitter_tcp_port :: int
  page_r :: int
  page_dr :: int
  page_z :: int
  page_dz :: int
  next_request_number :: int

record spin_boxes =
  box_r :: int
  box_dr :: int
  box_z :: int
  box_dz :: int

text \<open>The values a spin box accepts, and those it starts with.\<close>

definition box_ok :: "spin_boxes \<Rightarrow> bool" where
  "box_ok b \<longleftrightarrow> 0 \<le> box_r b \<and> box_r b \<le> 100000 \<and> 1 \<le> box_dr b \<and> box_dr b \<le> 10000
     \<and> - 10000 \<le> box_z b \<and> box_z b \<le> 0 \<and> 1 \<le> box_dz b \<and> box_dz b \<le> 1000"

definition box_init :: spin_boxes where
  "box_init = \<lparr>box_r = 10000, box_dr = 10, box_z = -400, box_dz = 1\<rparr>"

definition page_init :: page where
  "page_init =
     \<lparr>spect_panel = (''Audio Spectrogram'', ''''), timeseries_panel = (''Audio Timeseries'', ''''),
      last_nav = [], nav_at_last_tx_start = (\<lambda>_. []), nav_at_previous_tx_start = (\<lambda>_. []),
      page_receive_stats = (\<lambda>_. []), page_manager_cfg = \<lparr>sim_env_pairs = [], cfg_env_bounds = []\<rparr>,
      tl_tx_items = [], tl_image_path = '''', tl_request_enabled = True, transmitter_tcp_port = 0,
      page_r = box_r box_init, page_dr = box_dr box_init, page_z = box_z box_init, page_dz = box_dz box_init, next_request_number = 131072\<rparr>"

text \<open>\<open>map[k] = v\<close>.\<close>

definition put :: "'k::linorder \<Rightarrow> 'v \<Rightarrow> ('k \<times> 'v) list \<Rightarrow> ('k \<times> 'v) list" where
  "put k v xs = mm_insert k v (erase_key k xs)"

section \<open>What the page is told\<close>

definition image_path :: "string \<Rightarrow> string \<Rightarrow> 32 word \<Rightarrow> string \<Rightarrow> string" where
  "image_path dir start i kind = dir @ ''/netsim_'' @ start @ ''_'' @ pad0 3 (dec (sint i)) @ ''_'' @ kind @ ''.png''"

definition panel_title :: "string \<Rightarrow> int \<Rightarrow> 32 word \<Rightarrow> string" where
  "panel_title kind tx i =
     ''Audio '' @ kind @ '' (Transmitter modem '' @ dec tx @ '' packet #'' @ dec (sint i) @ '')''"

fun handle_new_log :: "logger_event \<Rightarrow> page \<Rightarrow> page res" where
  "handle_new_log (All_Logs_Closed_For_Packet dir start i tx) s =
     Inr (s\<lparr>spect_panel := (panel_title ''Spectrogram'' tx i, image_path dir start i ''spectrogram''),
            timeseries_panel := (panel_title ''Timeseries'' tx i, image_path dir start i ''timeseries'')\<rparr>)"
| "handle_new_log (Packet_Start i tx) s =
     (if int (length (sim_env_pairs (page_manager_cfg s))) \<le> tx then Inr s
      else if tx < 0 then Inl Undefined_Behaviour
      else
        (let port = sim_modem_tcp_port (sim_env_pairs (page_manager_cfg s) ! nat tx)
         in Inr (s\<lparr>nav_at_previous_tx_start := (nav_at_previous_tx_start s)(port := nav_at_last_tx_start s port),
                   nav_at_last_tx_start := (nav_at_last_tx_start s)(port := last_nav s)\<rparr>)))"

definition handle_bellhop_resp :: "app_response \<Rightarrow> page \<Rightarrow> page" where
  "handle_bellhop_resp rsp s =
     s\<lparr>tl_image_path := (if rsp_success rsp then rsp_output_file rsp @ ''.png'' else tl_image_path s),
       tl_request_enabled := True, nav_at_last_tx_start := (\<lambda>_. []), nav_at_previous_tx_start := (\<lambda>_. []),
       page_receive_stats := (\<lambda>_. [])\<rparr>"

definition handle_manager_cfg :: "manager_config \<Rightarrow> page \<Rightarrow> page" where
  "handle_manager_cfg cfg s =
     s\<lparr>page_manager_cfg := cfg,
       tl_tx_items := (if tl_tx_items s \<noteq> [] then tl_tx_items s
                       else map (\<lambda>p. dec (sim_modem_tcp_port p)) (sim_env_pairs cfg))\<rparr>"

definition handle_updated_nav :: "nav_update \<Rightarrow> page \<Rightarrow> page" where
  "handle_updated_nav nav s = s\<lparr>last_nav := put (nav_modem_tcp_port nav) nav (last_nav s)\<rparr>"

definition handle_receive_stats :: "receive_stats \<Rightarrow> page \<Rightarrow> page" where
  "handle_receive_stats st s =
     s\<lparr>page_receive_stats := (page_receive_stats s)(stat_tx_modem_tcp_port st :=
         put (stat_modem_tcp_port st) st (page_receive_stats s (stat_tx_modem_tcp_port st)))\<rparr>"

section \<open>The request for a plot\<close>

record plot_request =
  plot_number :: int
  plot_contact :: string
  plot_ownship :: string
  plot_auto_source_depth :: bool
  plot_freq :: int
  plot_output :: output_type
  plot_number_in_depth :: int
  plot_number_in_range :: int
  plot_first :: "int \<times> int"
  plot_last :: "int \<times> int"
  plot_sources :: int

text \<open>Integer division of C++, by a positive number.\<close>

definition trunc_div :: "int \<Rightarrow> int \<Rightarrow> int" where
  "trunc_div a b = (if 0 \<le> a then a div b else - (- a div b))"

text \<open>\<open>std::stoi\<close> of the text that is selected: an exception when nothing is.\<close>

definition clicked :: "nat \<Rightarrow> spin_boxes \<Rightarrow> page \<Rightarrow> (page \<times> plot_request) res" where
  "clicked selected boxes s =
     (if length (tl_tx_items s) \<le> selected then Inl (Runtime_Error ''stoi'')
      else
        (let txt = tl_tx_items s ! selected
         in Inr (s\<lparr>next_request_number := next_request_number s + 1, transmitter_tcp_port := read_int txt,
                   page_r := box_r boxes, page_dr := box_dr boxes, page_z := box_z boxes, page_dz := box_dz boxes,
                   tl_request_enabled := False\<rparr>,
                 \<lparr>plot_number = next_request_number s, plot_contact = txt, plot_ownship = txt,
                  plot_auto_source_depth = True, plot_freq = 4000, plot_output = INCOHERENT_PRESSURE,
                  plot_number_in_depth = \<bar>trunc_div (box_z boxes) (box_dz boxes)\<bar>,
                  plot_number_in_range = trunc_div (box_r boxes) (box_dr boxes),
                  plot_first = (0, 0), plot_last = (\<bar>box_z boxes\<bar>, box_r boxes), plot_sources = 1\<rparr>)))"

text \<open>
  With values a spin box accepts, the receivers of a request are finitely spaced, reach to less than a step
  before the end of the plot, and are too few for their product to wrap.
\<close>

lemma clicked_receivers:
  assumes "clicked selected boxes s = Inr (s', req)" and "box_ok boxes"
  shows "plot_number_in_depth req = - box_z boxes div box_dz boxes"
    "plot_number_in_range req = box_r boxes div box_dr boxes"
    "0 \<le> plot_number_in_depth req \<and> plot_number_in_depth req \<le> 10000"
    "0 \<le> plot_number_in_range req \<and> plot_number_in_range req \<le> 100000"
    "plot_number_in_depth req * plot_number_in_range req < 2 ^ 32"
proof -
  have z: "\<bar>trunc_div (box_z boxes) (box_dz boxes)\<bar> = - box_z boxes div box_dz boxes"
    using assms(2) by (auto simp: box_ok_def trunc_div_def pos_imp_zdiv_nonneg_iff)
  have r: "trunc_div (box_r boxes) (box_dr boxes) = box_r boxes div box_dr boxes"
    using assms(2) by (simp add: box_ok_def trunc_div_def)
  show depth: "plot_number_in_depth req = - box_z boxes div box_dz boxes"
    and range: "plot_number_in_range req = box_r boxes div box_dr boxes"
    using assms(1) z r by (auto simp: clicked_def Let_def split: if_splits)
  have le: "a div b \<le> n" "0 \<le> a div b" if "0 \<le> a" "a \<le> n" "1 \<le> b" for a b n :: int
    using that zdiv_mono2 [of a 1 b] by (auto simp: pos_imp_zdiv_nonneg_iff)
  show d: "0 \<le> plot_number_in_depth req \<and> plot_number_in_depth req \<le> 10000"
    using le [of "- box_z boxes" 10000 "box_dz boxes"] assms(2) depth by (simp add: box_ok_def)
  show g: "0 \<le> plot_number_in_range req \<and> plot_number_in_range req \<le> 100000"
    using le [of "box_r boxes" 100000 "box_dr boxes"] assms(2) range by (simp add: box_ok_def)
  have "plot_number_in_depth req * plot_number_in_range req \<le> 10000 * 100000"
    using d g by (intro mult_mono) auto
  then show "plot_number_in_depth req * plot_number_in_range req < 2 ^ 32" by simp
qed

section \<open>Painting\<close>

text \<open>The numbers given to the constructor of a colour, which takes their integral parts.\<close>

datatype colour = Rgb fp fp fp

datatype pen = White | Yellow | Gray

datatype paint_op =
    Draw_Image string
  | Line int int int int
  | Label int int string
  | Marker_Shape int bool pen colour fp fp

record paint_env =
  image_size :: "string \<Rightarrow> int \<times> int"
  project :: "nav_update \<Rightarrow> nav_update \<Rightarrow> fp \<times> fp"
  page_sqrt :: "fp \<Rightarrow> fp"

function ticks :: "int \<Rightarrow> int \<Rightarrow> int list" where
  "ticks y limit = (if y < limit then y # ticks (y + 100) limit else [])"
  by pat_completeness auto
termination by (relation "measure (\<lambda>(y, limit). nat (limit - y))") auto

declare ticks.simps [simp del]

definition text_length :: int where "text_length = 50"

text \<open>The plot with its ticks, every 100 pixels, and their labels.\<close>

definition paint_image :: "paint_env \<Rightarrow> page \<Rightarrow> paint_op list" where
  "paint_image env s =
     (if tl_image_path s = '''' then []
      else
        (case image_size env (tl_image_path s) of
           (width, height) \<Rightarrow>
             [Draw_Image (tl_image_path s)]
             @ map (\<lambda>y. Line text_length y (text_length + 10) y) (ticks 1 height)
             @ map (\<lambda>x. Line x (height - 10) x height) (ticks (1 + text_length) width)
             @ map (\<lambda>y. Label 0 y (dec (- (y - 1) * page_dz s) @ '' m'')) (ticks 1 height)
             @ map (\<lambda>x. Label x height (dec ((x - (1 + text_length)) * page_dr s) @ '' m'')) (ticks (1 + text_length) width)))"

definition rx_pen :: "int \<Rightarrow> pen" where
  "rx_pen port = [White, White, Yellow, Yellow, Gray, Gray] ! (as_size_t port mod 6)"

definition shade :: "mm_statistics \<Rightarrow> fp" where
  "shade mm =
     (if Fin 255 < mse_scaled mm then Fin 255 else if mse_scaled mm < Fin 0 then Fin 0 else mse_scaled mm)"

definition brush :: "receive_stats option \<Rightarrow> colour" where
  "brush st =
     (case st of
        None \<Rightarrow> Rgb (Fin 0) (Fin 0) (Fin 0)
      | Some st \<Rightarrow>
          (case mm_stats st of
             Some mm \<Rightarrow>
               (if number_bad_frames mm < number_frames mm
                then Rgb (Fin 0) (d_sub (Fin 255) (shade mm)) (shade mm) else Rgb (Fin 255) (Fin 0) (Fin 0))
           | None \<Rightarrow> if packet_success st then Rgb (Fin 0) (Fin 255) (Fin 0) else Rgb (Fin 255) (Fin 0) (Fin 0)))"

definition marker_of :: "paint_env \<Rightarrow> page \<Rightarrow> nav_update \<Rightarrow> int \<times> nav_update \<Rightarrow> paint_op" where
  "marker_of env s tx_nav p =
     (case project env tx_nav (snd p) of
        (x, y) \<Rightarrow>
          Marker_Shape (fst p) (even (fst p)) (rx_pen (fst p))
            (brush (map_of (page_receive_stats s (transmitter_tcp_port s)) (fst p)))
            (d_add (d_div (page_sqrt env (d_add (d_mul x x) (d_mul y y))) (d_of_int (page_dr s))) (d_of_int text_length))
            (d_div (nav_depth (snd p)) (d_of_int (page_dz s))))"

definition paint_event :: "paint_env \<Rightarrow> page \<Rightarrow> page \<times> paint_op list" where
  "paint_event env s =
     (let s1 = s\<lparr>tl_image_path := ''''\<rparr>;
          tx = transmitter_tcp_port s;
          navs = nav_at_previous_tx_start s tx
      in case map_of navs tx of
           None \<Rightarrow> (s1, paint_image env s)
         | Some tx_nav \<Rightarrow>
             (s1\<lparr>nav_at_previous_tx_start := (nav_at_previous_tx_start s)(tx := []),
                 page_receive_stats := (page_receive_stats s)(tx := [])\<rparr>,
              paint_image env s @ map (marker_of env s tx_nav) (filter (\<lambda>p. fst p \<noteq> tx) navs)))"

section \<open>The page\<close>

datatype page_event =
    New_Log logger_event
  | Bellhop_Resp app_response
  | Manager_Cfg manager_config
  | Updated_Nav nav_update
  | Receive_Stat receive_stats
  | Click nat spin_boxes
  | Paint

datatype page_output = Painted "paint_op list" | Pub_Plot_Request plot_request

fun page_handle :: "paint_env \<Rightarrow> (page_event, page, page_output) handler" where
  "page_handle env (New_Log e) s = res_bind (handle_new_log e s) (\<lambda>s'. Inr (s', []))"
| "page_handle env (Bellhop_Resp rsp) s = Inr (handle_bellhop_resp rsp s, [])"
| "page_handle env (Manager_Cfg cfg) s = Inr (handle_manager_cfg cfg s, [])"
| "page_handle env (Updated_Nav nav) s = Inr (handle_updated_nav nav s, [])"
| "page_handle env (Receive_Stat st) s = Inr (handle_receive_stats st s, [])"
| "page_handle env (Click selected boxes) s =
     res_bind (clicked selected boxes s) (\<lambda>(s', req). Inr (s', [Pub_Plot_Request req]))"
| "page_handle env Paint s = (case paint_event env s of (s', ops) \<Rightarrow> Inr (s', [Painted ops]))"

section \<open>The latest positions\<close>

lemma map_of_erase_key: "map_of (erase_key k xs) = (map_of xs)(k := None)"
  by (induction xs) (auto simp: erase_key_def)

lemma map_of_put [simp]: "map_of (put k v xs) = (map_of xs)(k \<mapsto> v)"
proof -
  have "k \<notin> fst ` set (erase_key k xs)" by (auto simp: erase_key_def)
  then show ?thesis by (simp add: put_def map_of_mm_insert map_of_erase_key)
qed

lemma ordered_put: "ordered xs \<Longrightarrow> ordered (put k v xs)"
  by (simp add: put_def ordered_mm_insert ordered_filter erase_key_def)

lemma distinct_put:
  assumes "distinct (map fst xs)" shows "distinct (map fst (put k v xs))"
proof -
  have "mset (map fst (put k v xs)) = add_mset k (mset (map fst (erase_key k xs)))"
    by (simp add: put_def mset_map [symmetric] del: mset_map) simp
  moreover have "distinct (k # map fst (erase_key k xs))"
    using assms by (auto simp: erase_key_def distinct_map_filter)
  ultimately show ?thesis by (metis mset.simps(2) mset_eq_imp_distinct_iff)
qed

fun position :: "page_event \<Rightarrow> (int \<times> nav_update) list" where
  "position (Updated_Nav n) = [(nav_modem_tcp_port n, n)]"
| "position _ = []"

text \<open>What has been told about the positions, and what the page has of it.\<close>

definition positions_hist :: "page_event list \<Rightarrow> page_output list \<Rightarrow> page \<Rightarrow> bool" where
  "positions_hist es os s \<longleftrightarrow>
     map_of (last_nav s) = map_of (rev (concat (map position es)))
     \<and> ordered (last_nav s) \<and> distinct (map fst (last_nav s))"

lemma handle_new_log_frame:
  "handle_new_log e s = Inr s' \<Longrightarrow> last_nav s' = last_nav s \<and> page_manager_cfg s' = page_manager_cfg s
     \<and> transmitter_tcp_port s' = transmitter_tcp_port s"
  by (cases e) (auto simp: Let_def split: if_splits)

lemma last_nav_frame:
  assumes "page_handle env e s = Inr (s', out)" "position e = []"
  shows "last_nav s' = last_nav s"
proof (cases e)
  case (New_Log l)
  with assms show ?thesis using handle_new_log_frame by (auto simp: res_bind_eq_Inr)
next
  case Paint
  with assms show ?thesis by (auto simp: paint_event_def Let_def split: option.splits)
qed (use assms in \<open>auto simp: handle_bellhop_resp_def handle_manager_cfg_def handle_receive_stats_def
      clicked_def res_bind_eq_Inr Let_def split: if_splits\<close>)

interpretation page_positions: traced_component "page_handle env" "\<lambda>_. True" positions_hist for env
proof
  fix e es os s s' out
  assume h: "positions_hist es os s" and step: "page_handle env e s = Inr (s', out)"
  show "positions_hist (es @ [e]) (os @ out) s'"
  proof (cases "position e = []")
    case True
    with h last_nav_frame [OF step True] show ?thesis by (simp add: positions_hist_def)
  next
    case False
    then obtain n where "e = Updated_Nav n" by (cases e) auto
    with h step show ?thesis
      by (auto simp: positions_hist_def handle_updated_nav_def ordered_put distinct_put)
  qed
qed

section \<open>Two transmissions back\<close>

text \<open>The start of a packet of the modem with port \<open>p\<close>, and what leaves its two snapshots alone.\<close>

definition starts :: "manager_config \<Rightarrow> int \<Rightarrow> page_event \<Rightarrow> bool" where
  "starts cfg p e \<longleftrightarrow> (\<exists>i tx. e = New_Log (Packet_Start i tx) \<and> 0 \<le> tx \<and> tx < int (length (sim_env_pairs cfg))
     \<and> sim_modem_tcp_port (sim_env_pairs cfg ! nat tx) = p)"

fun quiet :: "manager_config \<Rightarrow> int \<Rightarrow> page_event \<Rightarrow> bool" where
  "quiet cfg p (Bellhop_Resp _) \<longleftrightarrow> False"
| "quiet cfg p Paint \<longleftrightarrow> False"
| "quiet cfg p (Manager_Cfg _) \<longleftrightarrow> False"
| "quiet cfg p e \<longleftrightarrow> \<not> starts cfg p e"

lemma starts_step:
  assumes "starts (page_manager_cfg s) p e" and "page_handle env e s = Inr (s', out)"
  shows "page_manager_cfg s' = page_manager_cfg s \<and> nav_at_last_tx_start s' p = last_nav s
     \<and> nav_at_previous_tx_start s' p = nav_at_last_tx_start s p \<and> out = []"
  using assms by (auto simp: starts_def Let_def res_bind_eq_Inr split: if_splits)

lemma quiet_step:
  assumes "quiet (page_manager_cfg s) p e" and "page_handle env e s = Inr (s', out)"
  shows "page_manager_cfg s' = page_manager_cfg s \<and> nav_at_last_tx_start s' p = nav_at_last_tx_start s p
     \<and> nav_at_previous_tx_start s' p = nav_at_previous_tx_start s p"
proof (cases e)
  case (New_Log l)
  then show ?thesis
  proof (cases l)
    case (Packet_Start i tx)
    with New_Log assms show ?thesis by (auto simp: starts_def Let_def res_bind_eq_Inr split: if_splits)
  qed (use New_Log assms in \<open>auto simp: res_bind_eq_Inr\<close>)
qed (use assms in \<open>auto simp: handle_updated_nav_def handle_receive_stats_def clicked_def res_bind_eq_Inr Let_def
      split: if_splits\<close>)

interpretation page_snapshots: component "page_handle env" "quiet cfg p"
  "\<lambda>s. page_manager_cfg s = cfg \<and> nav_at_last_tx_start s p = a \<and> nav_at_previous_tx_start s p = b" for env cfg p a b
  by unfold_locales (use quiet_step in blast)

lemma two_starts:
  assumes "run (page_handle env) (e1 # mid1 @ e2 # mid2) s = Inr (s', out)"
    and "starts (page_manager_cfg s) p e1" "starts (page_manager_cfg s) p e2"
    and "list_all (quiet (page_manager_cfg s) p) mid1" "list_all (quiet (page_manager_cfg s) p) mid2"
  shows "nav_at_previous_tx_start s' p = last_nav s"
proof -
  let ?cfg = "page_manager_cfg s"
  from assms(1) obtain s1 o1 o2 where 1: "page_handle env e1 s = Inr (s1, o1)"
    and r1: "run (page_handle env) (mid1 @ e2 # mid2) s1 = Inr (s', o2)" unfolding run_Cons_Inr by blast
  from r1 obtain s2 o3 o4 where 2: "run (page_handle env) mid1 s1 = Inr (s2, o3)"
    and r2: "run (page_handle env) (e2 # mid2) s2 = Inr (s', o4)"
    by (auto simp only: run_append split: sum.splits prod.splits)
  from r2 obtain s3 o5 o6 where 3: "page_handle env e2 s2 = Inr (s3, o5)"
    and 4: "run (page_handle env) mid2 s3 = Inr (s', o6)" unfolding run_Cons_Inr by blast
  from starts_step [OF assms(2) 1] have s1: "page_manager_cfg s1 = ?cfg" "nav_at_last_tx_start s1 p = last_nav s" by simp_all
  have s2: "page_manager_cfg s2 = ?cfg" "nav_at_last_tx_start s2 p = last_nav s"
    using page_snapshots.run_inv [OF assms(4) _ 2] s1 by auto
  from starts_step [of s2 p e2 env s3 o5] assms(3) 3 s2
  have s3: "page_manager_cfg s3 = ?cfg" "nav_at_previous_tx_start s3 p = last_nav s" by simp_all
  show ?thesis using page_snapshots.run_inv [OF assms(5) _ 4] s3 by auto
qed


definition pair1 :: "int \<Rightarrow> sim_environment_pair" where
  "pair1 p = \<lparr>sim_modem_tcp_port = p, endpoint_ip_address = ''127.0.0.1'', sim_environment_id = 1\<rparr>"

definition page_cfg1 :: manager_config where
  "page_cfg1 = \<lparr>sim_env_pairs = [pair1 62000, pair1 62001], cfg_env_bounds = []\<rparr>"

definition boxes1 :: spin_boxes where
  "boxes1 = \<lparr>box_r = 10000, box_dr = 10, box_z = -400, box_dz = 1\<rparr>"

definition paint1 :: paint_env where
  "paint1 = \<lparr>image_size = (\<lambda>_. (200, 100)), project = (\<lambda>_ _. (Fin 0, Fin 0)), page_sqrt = id\<rparr>"

definition nav_of :: "int \<Rightarrow> nav_update" where
  "nav_of p = (nav1 (Fin 42))\<lparr>nav_modem_tcp_port := p\<rparr>"

lemma read_dec [simp]: "read_int (dec n) = n"
  using read_pad_dec [of 0 n] by (simp add: pad0_def)

lemma distinct_singleton: "distinct xs \<Longrightarrow> set xs = {x} \<Longrightarrow> xs = [x]"
proof (cases xs)
  case (Cons a ys)
  assume "distinct xs" "set xs = {x}"
  with Cons have "a = x" "set ys \<subseteq> {x}" "x \<notin> set ys" by auto
  then have "set ys = {}" unfolding subset_singleton_iff by blast
  with Cons \<open>a = x\<close> show ?thesis by simp
qed simp


text \<open>A packet of a modem with a negative number, which the default of the message allows, reads before the
  first configured modem.\<close>

theorem negative_modem_undefined:
  "tx < 0 \<Longrightarrow> handle_new_log (Packet_Start i tx) s = Inl Undefined_Behaviour"
  by simp

section \<open>Ticks\<close>

text \<open>
  The ticks of the plot are the pixels from the first one on, a hundred apart, that are inside it.
\<close>

theorem ticks_complete:
  "y' \<in> set (ticks y limit) \<longleftrightarrow> y \<le> y' \<and> y' < limit \<and> 100 dvd (y' - y)"
proof (induction y limit rule: ticks.induct)
  case (1 y limit)
  show ?case
  proof (cases "y < limit")
    case True
    have "y' \<in> set (ticks y limit) \<longleftrightarrow> y' = y \<or> y + 100 \<le> y' \<and> y' < limit \<and> 100 dvd (y' - (y + 100))"
      using 1 True by (subst ticks.simps) simp
    also have "\<dots> \<longleftrightarrow> y \<le> y' \<and> y' < limit \<and> 100 dvd (y' - y)"
      using True by (auto simp: dvd_def) presburger+
    finally show ?thesis .
  next
    case False
    then show ?thesis by (subst ticks.simps) auto
  qed
qed

section \<open>The page and the manager\<close>

text \<open>
  The thread behind the page (\<open>NetsimCommsThread\<close>) asks the manager for its configuration when it starts, and
  posts to the page what the post-processing and the manager publish.
\<close>

datatype publication = By_Post post_output | By_Manager manager_output

definition comms_start :: "manager_event list" where
  "comms_start = [Config_Request]"

fun comms_post :: "publication \<Rightarrow> page_event list" where
  "comms_post (By_Post (Post_Event e)) = [New_Log e]"
| "comms_post (By_Post (Post_Response rsp)) = [Bellhop_Resp rsp]"
| "comms_post (By_Manager (Pub_Configuration cfg)) = [Manager_Cfg cfg]"
| "comms_post (By_Manager (Pub_Env_Nav_Update i nav)) = [Updated_Nav nav]"
| "comms_post (By_Manager (Pub_Receive_Stats st)) = [Receive_Stat st]"
| "comms_post _ = []"

fun posted_to_page :: "page_event \<Rightarrow> bool" where
  "posted_to_page (Click i boxes) \<longleftrightarrow> False"
| "posted_to_page Paint \<longleftrightarrow> False"
| "posted_to_page _ \<longleftrightarrow> True"

fun by_manager :: "publication \<Rightarrow> manager_output list" where
  "by_manager (By_Manager x) = [x]"
| "by_manager (By_Post x) = []"

fun published_nav :: "manager_output \<Rightarrow> (int \<times> nav_update) list" where
  "published_nav (Pub_Env_Nav_Update i nav) = [(nav_modem_tcp_port nav, nav)]"
| "published_nav _ = []"

lemma position_posted: "position ev \<noteq> [] \<Longrightarrow> posted_to_page ev"
  by (cases ev) simp_all

lemma positions_posted: "concat (map position evs) = concat (map position (filter posted_to_page evs))"
proof (induction evs)
  case (Cons ev evs)
  with position_posted [of ev] show ?case by (cases "posted_to_page ev") auto
qed simp

lemma comms_positions:
  "concat (map position (concat (map comms_post pubs))) = concat (map published_nav (concat (map by_manager pubs)))"
proof (induction pubs)
  case (Cons x pubs)
  have "concat (map position (comms_post x)) = concat (map published_nav (by_manager x))"
    by (cases x rule: comms_post.cases) simp_all
  with Cons show ?case by simp
qed simp

lemma comms_configuration:
  "Manager_Cfg c \<in> set (concat (map comms_post pubs)) \<longleftrightarrow> Pub_Configuration c \<in> set (concat (map by_manager pubs))"
proof (induction pubs)
  case (Cons x pubs)
  have "Manager_Cfg c \<in> set (comms_post x) \<longleftrightarrow> Pub_Configuration c \<in> set (by_manager x)"
    by (cases x rule: comms_post.cases) simp_all
  with Cons show ?case by simp
qed simp

text \<open>The list of transmitters, once all configurations are the same one.\<close>

definition items_hist :: "manager_config \<Rightarrow> page_event list \<Rightarrow> page_output list \<Rightarrow> page \<Rightarrow> bool" where
  "items_hist cfg es os s \<longleftrightarrow>
     tl_tx_items s = (if Manager_Cfg cfg \<in> set es then map (\<lambda>p. dec (sim_modem_tcp_port p)) (sim_env_pairs cfg) else [])"

lemma items_frame:
  assumes "page_handle env e s = Inr (s', out)" "\<forall>c. e \<noteq> Manager_Cfg c"
  shows "tl_tx_items s' = tl_tx_items s"
proof (cases e)
  case (New_Log l)
  with assms show ?thesis by (cases l) (auto simp: Let_def res_bind_eq_Inr split: if_splits)
next
  case Paint
  with assms show ?thesis by (auto simp: paint_event_def Let_def split: option.splits)
qed (use assms in \<open>auto simp: handle_bellhop_resp_def handle_updated_nav_def handle_receive_stats_def
      clicked_def res_bind_eq_Inr Let_def split: if_splits\<close>)

interpretation page_items: traced_component "page_handle env" "\<lambda>e. \<forall>c. e = Manager_Cfg c \<longrightarrow> c = cfg" "items_hist cfg"
  for env cfg
proof
  fix e es os s s' out
  assume ok: "\<forall>c. e = Manager_Cfg c \<longrightarrow> c = cfg" and h: "items_hist cfg es os s"
    and step: "page_handle env e s = Inr (s', out)"
  show "items_hist cfg (es @ [e]) (os @ out) s'"
  proof (cases "e = Manager_Cfg cfg")
    case True
    with h step show ?thesis by (auto simp: items_hist_def handle_manager_cfg_def)
  next
    case False
    with ok have "\<forall>c. e \<noteq> Manager_Cfg c" by blast
    with h items_frame [OF step this] False [symmetric] show ?thesis by (simp add: items_hist_def)
  qed
qed

lemma run_manager_configuration:
  "run (manager_handle cfg env as_int) evs s = Inr (s', out)
    \<Longrightarrow> Pub_Configuration c \<in> set out \<longleftrightarrow> c = cfg \<and> Config_Request \<in> set evs"
proof (induction evs arbitrary: s out)
  case Nil
  then show ?case by simp
next
  case (Cons ev evs)
  then obtain s1 out1 out2 where h: "manager_handle cfg env as_int ev s = Inr (s1, out1)"
    and r: "run (manager_handle cfg env as_int) evs s1 = Inr (s', out2)" and out: "out = out1 @ out2"
    by (auto simp only: run_Cons_Inr)
  have "Pub_Configuration c \<in> set out1 \<longleftrightarrow> c = cfg \<and> ev = Config_Request"
  proof (cases ev)
    case (Request req ep)
    with h show ?thesis
      by (auto simp: process_request_def res_bind_eq_Inr dest: process_navs_configuration)
  qed (use h in \<open>auto simp: handle_impulse_request_def handle_performance_request_def handle_bellhop_request_def
        split: option.splits\<close>)
  with Cons.IH [OF r] out show ?case by auto
qed

text \<open>
  C16: The page shows what the manager has checked. In any run of the manager, and any run of a page that is
  posted what the manager publishes in it (in order, between other messages, clicks and paintings): the
  position the page has of a modem is the last one published of it, and that came in a request from the
  address configured for the modem and is not outside the bounds of its environment. Once the manager has
  been asked for its configuration, which the page does when it starts, the transmitters the page offers
  are the configured modems, in order, and the button requests a plot of the selected one.
\<close>

theorem page_follows_manager:
  assumes "process_configuration cfg = Inr s"
    and "run (manager_handle cfg env as_int) evs s = Inr (s', out)"
    and "concat (map by_manager pubs) = out" and "filter posted_to_page pevs = concat (map comms_post pubs)"
    and "run (page_handle penv) pevs page_init = Inr (page, pout)"
  shows "map_of (last_nav page) = map_of (rev (concat (map published_nav out)))
     \<and> (\<forall>port nav. map_of (last_nav page) port = Some nav \<longrightarrow>
          (\<exists>req ep e b. Request req ep \<in> set evs \<and> nav \<in> set (request_nav req) \<and> nav_modem_tcp_port nav = port
             \<and> env_cfg s port = Some e \<and> endpoint_ip_address e = fst ep
             \<and> env_bounds s (sim_environment_id e) = Some b \<and> \<not> out_of_bounds b nav))
     \<and> (set comms_start \<subseteq> set evs \<longrightarrow>
          tl_tx_items page = map (\<lambda>p. dec (sim_modem_tcp_port p)) (sim_env_pairs cfg)
          \<and> (\<forall>i < length (sim_env_pairs cfg). \<forall>boxes. \<exists>page' req. clicked i boxes page = Inr (page', req)
               \<and> transmitter_tcp_port page' = sim_modem_tcp_port (sim_env_pairs cfg ! i)
               \<and> plot_ownship req = dec (sim_modem_tcp_port (sim_env_pairs cfg ! i))))"
proof -
  have "positions_hist pevs pout page"
    using page_positions.run_hist [OF _ _ assms(5), of "[]" "[]"]
    by (simp add: list_all_iff positions_hist_def page_init_def)
  then have last: "map_of (last_nav page) = map_of (rev (concat (map published_nav out)))"
    using assms(3,4) by (simp add: positions_hist_def positions_posted [of pevs] comms_positions)
  have "\<exists>req ep e b. Request req ep \<in> set evs \<and> nav \<in> set (request_nav req) \<and> nav_modem_tcp_port nav = port
             \<and> env_cfg s port = Some e \<and> endpoint_ip_address e = fst ep
             \<and> env_bounds s (sim_environment_id e) = Some b \<and> \<not> out_of_bounds b nav"
    if "map_of (last_nav page) port = Some nav" for port nav
  proof -
    from map_of_SomeD [OF that [unfolded last]] obtain x where x: "x \<in> set out" "(port, nav) \<in> set (published_nav x)"
      by auto
    then obtain i where i: "x = Pub_Env_Nav_Update i nav" and p: "port = nav_modem_tcp_port nav"
      by - (cases x, auto)
    from run_manager_published [OF assms(2) x(1) [unfolded i]] obtain ev pubs where ev: "ev \<in> set evs"
      "manager_handle cfg env as_int ev s = Inr (s, pubs)" "Pub_Env_Nav_Update i nav \<in> set pubs" by blast
    then obtain req ep where "ev = Request req ep" "process_request env s req ep = Inr pubs"
      by - (cases ev, auto simp: handle_impulse_request_def handle_performance_request_def
          handle_bellhop_request_def res_bind_eq_Inr split: option.splits)
    with published_checked [OF this(2) ev(3)] ev(1) p show ?thesis by blast
  qed
  moreover have "tl_tx_items page = map (\<lambda>p. dec (sim_modem_tcp_port p)) (sim_env_pairs cfg)"
    if "set comms_start \<subseteq> set evs"
  proof -
    have mem: "Manager_Cfg c \<in> set pevs \<longleftrightarrow> c = cfg" for c
    proof -
      have "Manager_Cfg c \<in> set pevs \<longleftrightarrow> Manager_Cfg c \<in> set (filter posted_to_page pevs)" by simp
      also have "\<dots> \<longleftrightarrow> c = cfg"
        unfolding assms(4) comms_configuration assms(3) run_manager_configuration [OF assms(2)]
        using that by (simp add: comms_start_def)
      finally show ?thesis .
    qed
    then have "items_hist cfg pevs pout page"
      using page_items.run_hist [OF _ _ assms(5), of cfg "[]" "[]"]
      by (auto simp: list_all_iff items_hist_def page_init_def)
    then show ?thesis by (simp add: items_hist_def mem)
  qed
  ultimately show ?thesis using last by (auto simp: clicked_def Let_def)
qed

theorem page_follows_manager_witness:
  "\<exists>s' out page pout page' req.
     run (manager_handle cfg1 gps1 (\<lambda>_. 62000))
       [Config_Request, Request \<lparr>request_id = 4, request_nav = [nav1 (Fin 42)], request_stats = []\<rparr> (''127.0.0.1'', 5)]
       manager1 = Inr (s', out)
     \<and> run (page_handle paint1) (concat (map (comms_post \<circ> By_Manager) out)) page_init = Inr (page, pout)
     \<and> map_of (last_nav page) 62000 = Some (nav1 (Fin 42))
     \<and> clicked 0 boxes1 page = Inr (page', req) \<and> transmitter_tcp_port page' = 62000"
proof -
  let ?evs = "[Config_Request, Request \<lparr>request_id = 4, request_nav = [nav1 (Fin 42)], request_stats = []\<rparr> (''127.0.0.1'', 5)]"
  have v: "verdict manager1 (''127.0.0.1'', 5) (nav1 (Fin 42)) = UPDATE_ACCEPTED"
    "environment_of manager1 (nav1 (Fin 42)) = 1" "nav_initialized (nav1 (Fin 42))" "nav_modem_tcp_port (nav1 (Fin 42)) = 62000"
    by (simp_all add: verdict_def environment_of_def manager1_def sim1_def bounds1_def nav1_def out_of_bounds_def)
  then obtain g where r: "run (manager_handle cfg1 gps1 (\<lambda>_. 62000)) ?evs manager1 =
      Inr (manager1, [Pub_Configuration cfg1, Pub_Env_Nav_Update 1 (nav1 (Fin 42)), g,
        Tcp_Write \<lparr>response_request_id = 4, response_status = UPDATE_ACCEPTED\<rparr> (''127.0.0.1'', 5)])"
    and g: "published_nav g = []" "comms_post (By_Manager g) = []"
    using process_navs_eq [OF manager1_inv, of "[nav1 (Fin 42)]" gps1 "(''127.0.0.1'', 5)"] writable_nav1
    by (simp add: process_request_def updates_def del: process_navs.simps split: sum.splits prod.splits)
  let ?out = "[Pub_Configuration cfg1, Pub_Env_Nav_Update 1 (nav1 (Fin 42)), g,
        Tcp_Write \<lparr>response_request_id = 4, response_status = UPDATE_ACCEPTED\<rparr> (''127.0.0.1'', 5)]"
  let ?pevs = "[Manager_Cfg cfg1, Updated_Nav (nav1 (Fin 42))]"
  obtain page pout where p: "run (page_handle paint1) ?pevs page_init = Inr (page, pout)" by simp
  have c: "concat (map by_manager (map By_Manager ?out)) = ?out" by simp
  have f: "filter posted_to_page ?pevs = concat (map comms_post (map By_Manager ?out))" using g by simp
  note follows = page_follows_manager [OF process_cfg1 r c f p]
  have "map_of (last_nav page) 62000 = Some (nav1 (Fin 42))"
    unfolding conjunct1 [OF follows] using v g by simp
  moreover have "\<exists>page' req. clicked 0 boxes1 page = Inr (page', req) \<and> transmitter_tcp_port page' = 62000"
  proof -
    have "set comms_start \<subseteq> set ?evs" by (simp add: comms_start_def)
    moreover have "0 < length (sim_env_pairs cfg1)" "sim_modem_tcp_port (sim_env_pairs cfg1 ! 0) = 62000"
      by (simp_all add: cfg1_def sim1_def)
    ultimately show ?thesis using conjunct2 [OF conjunct2 [OF follows]] by metis
  qed
  moreover have "concat (map (comms_post \<circ> By_Manager) ?out) = ?pevs" using g by simp
  ultimately show ?thesis using r p by (metis (no_types, lifting))
qed

end
