(* ===== verification/Spec2Isabelle.thy ===== *)
theory Spec2Isabelle
  imports Detector Jack Hearing Jack_Setup Core Marshal Logging Tcp Gps Manager Service Gateway Udp Tool Environment
    Sound_Speed Bellhop Liaison
begin

text \<open>
  This development is about the virtual ocean simulator netsim. Real acoustic modems are plugged into an audio
  interface; \<open>netsim_core\<close> records what one transmits, the processor threads turn it into what the others
  would hear, and \<open>netsim_core\<close> plays that to them in time. Around it are the processes that know where
  the vehicles are (\<open>netsim_manager\<close>), compute the propagation (\<open>iBellhop\<close>, in a MOOS community reached
  through the gateway plugin), simulate packets without audio (\<open>netsim_udp\<close>), measure (\<open>netsim_tool\<close>) and
  show the results (\<open>netsim_postprocess\<close>, the liaison page). Paths below are relative to \<open>src/src\<close>.

  \<^bold>\<open>Method.\<close> A class is a record of its data members, a message a record of its fields, an enumeration a
  datatype. A member function is a function from the state to \<open>fault + (state \<times> outputs)\<close> (type \<open>res\<close> of
  Prelude.thy), where a fault is an exception, the end of the process, undefined behaviour or a loop that does
  not end. A class with callbacks has a datatype of events and a handler; \<open>run\<close> runs a handler over any
  sequence of events. The locales \<open>traced_component\<close>, \<open>component\<close> and \<open>total_component\<close> lift what one event
  keeps to every run. Floating-point numbers are those of IEEE 754 with their rounding (Ieee.thy), \<open>uint32\<close>
  counters are words or integers modulo \<open>2 ^ 32\<close>, and conversions out of range are faults. An \<open>int\<close> that only
  counts (passes, request numbers) is unbounded. There is no fuel: every loop is a recursion that ends, and
  where the code can wait for ever the fault is \<open>Hang\<close>.

  \<^bold>\<open>Libraries\<close> are parameters: a record of operations, with the documented behaviour, where a proof needs it, as
  a locale: \<open>circular_buffer\<close> (boost), \<open>archive\<close> (boost serialization), \<open>wire_codec\<close> (protobuf and base 64),
  \<open>moos_translator\<close> (goby). Each locale is interpreted on an instance that shows its laws to be satisfiable. The
  containers of the standard library are modelled: \<open>std::map\<close> and \<open>std::multimap\<close> in order of their keys in
  Ordered_Map.thy (locale \<open>delay_queue\<close>), strings and numbers as text in Text.thy.

  \<^bold>\<open>The audio path\<close> (\<open>apps/netsim_core\<close>, \<open>lib/core\<close>, \<open>lib/messages/groups.h\<close>).
  \<^item> Audio.thy: \<open>AudioBuffer\<close>, \<open>TaggedAudioBuffer\<close>, the configuration, and the publish/subscribe groups with
    their keys (\<open>common.h\<close>, \<open>core_config.proto\<close>, \<open>groups.h\<close>).
  \<^item> Detector.thy: \<open>DetectorThread\<close> (\<open>detector.h\<close>): prebuffer, threshold, end of a packet after silence.
    Packet_Stream.thy is its abstract specification; the lemmas show the refinement, and that what is
    published is a sequence of packets of contiguous audio.
  \<^item> Jack.thy: \<open>JackThread\<close> (\<open>jack_thread.h\<close>): the real-time callback, playback of packets at their time, and
    the recording queue between callback and loop. Its events are the critical sections of the three threads
    in any interleaving. The abstract view is the stream of samples still to be played; the lemmas relate
    one period to that stream and show that no interleaving faults. The bounds (\<open>B\<close> frames per period, \<open>H\<close>
    seconds until a packet starts, \<open>C\<close> seconds of calibration) are those for which \<open>uint32\<close> frame numbers
    cannot overflow.
  \<^item> Hearing.thy: the two joined: the messages of a packet from the detector to the port of a receiver, over any
    number of periods.
  \<^item> Jack_Setup.thy: the constructor of \<open>JackThread\<close>, call by call, against any answers of the sound server, and
    interleaved with the callback that runs from the activation on.
  \<^item> Core.thy: \<open>main\<close> and the launch of the threads with its busy waits, every subscription, the bridge between
    instances (\<open>netsim_core_main.cpp\<close>, \<open>bridge.h\<close>, \<open>processor.h\<close>, the echo processor under \<open>test\<close>), and the
    route of a buffer from a detector to the JACK threads of all other modems.
  \<^item> Marshal.thy: how a buffer crosses between processes (\<open>lib/core/boost_serialization.h\<close>).
  \<^item> Logging.thy: \<open>LoggerThread\<close> (\<open>logger.h\<close>): the files of a packet and the announcements of their life;
    the abstract view is the set of open packets.

  \<^bold>\<open>The positions and requests\<close>.
  \<^item> Messages.thy: the messages of \<open>lib/messages/netsim.proto\<close>.
  \<^item> Tcp.thy: sessions, server and client (\<open>lib/tcp\<close>): a line protocol over a stream that arrives in pieces.
  \<^item> Gps.thy, Manager.thy: \<open>apps/netsim_manager/manager.cpp\<close>: validation of the configuration, checks on a
    position, the GPS sentence, and the routing of requests to an environment.
  \<^item> Service.thy: the manager behind its TCP server: a client among others, from the bytes of its requests to
    the bytes of its answers.
  \<^item> Gateway.thy: the gateway plugin (\<open>lib/moos_translator_plugin\<close>), both directions.
  \<^item> Udp.thy: \<open>NetSimUDP\<close> (\<open>apps/netsim_udp/main.cpp\<close>): packets wait for an impulse response, are dropped by
    chance, and are sent when due. The lemmas account for every packet.
  \<^item> Tool.thy: \<open>NetSimTool\<close> (\<open>apps/netsim_tool/main.cpp\<close>): the scan of a grid of ranges and depths; the
    number of passes until it quits is explicit.

  \<^bold>\<open>The propagation\<close> (\<open>lib/acousticstoolbox\<close>, \<open>apps/iBellhop\<close>).
  \<^item> Environment.thy: \<open>Environment::output_env\<close>, the files of the ray tracer, character by character.
  \<^item> Sound_Speed.thy: updates of and lookups in the sound speed profile (\<open>handle_ssp_update\<close>, \<open>get_ssp_value\<close>);
    the abstract view is a map from depths.
  \<^item> Bellhop.thy: \<open>CiBellhop\<close>: the merging of a request, the placing of source and receivers, the files of a
    request, the reading of the result, and all callbacks.

  \<^bold>\<open>What the operator sees\<close>: Liaison.thy: the two threads of \<open>apps/netsim_postprocess\<close> and the page of
  \<open>lib/liaison\<close>: button, subscriptions and painting, and what reaches the page from the manager. The theorems
  of this theory follow a request from the button through the ray tracing application and the
  post-processing back to the page, and a packet from \<open>netsim_udp\<close> through the manager and the gateways to the
  ray tracer of its environment.

  \<^bold>\<open>What the theorems show\<close>. Refinement of an abstract specification: the detector, the playback, the logger, the
  TCP server, the delay queue, the sound speed profile. Invariants and absence of faults under stated
  bounds: the JACK thread, the manager, the packet simulation, the sound speed profile. Functional
  behaviour on every branch, errors included: requests to the manager, impulse responses, ray tracing requests.
  Composition: a packet from the detector of one modem to the port of another, a client of the manager
  from bytes to bytes, a position from a client to the page, a plot from the button to the page.
  Round trips: the TCP protocol, the marshalling of audio, the losses of the ray tracer. Termination and
  liveness: the launch of the threads, the scan of the tool, the request for a plot. Theorems whose name
  ends in \<open>undefined\<close>, or that the text calls a loss, show what the code does where it does not do what it
  means to.

  \<^bold>\<open>Not modelled\<close>: log output; \<open>main\<close> of the programs other than \<open>netsim_core\<close>, the C functions in
  \<open>jack_thread.cpp\<close> that call the methods of a thread, and the functions that load and unload a plugin, each of
  which is one call of a library; \<open>protobuf2bellhop_env.cpp\<close>, which no \<open>CMakeLists.txt\<close> builds and which names a
  class without its namespace: it would call \<open>output_env\<close> on a file; \<open>get_sample\<close> and \<open>current_env\<close> of
  \<open>CiBellhop\<close>, which nothing calls; the layout of the widgets in the constructor of the page; the programs under
  \<open>test\<close> except the echo processor, and the scripts. Data races on variables outside a critical section
  (the pointers of the ports, the ready counters) have no meaning in C++ and none here: each access is one step.
\<close>

section \<open>From the button to the plot\<close>



section \<open>The size of a plot\<close>

text \<open>
  With values that the spin boxes accept, the check of the ray tracing application on the number of
  receivers does what it means to on a request for a plot: the product does not wrap, and the request is
  refused exactly if its grid has more points than the limit.
\<close>

theorem plot_request_within_limit:
  assumes "clicked selected boxes page = Inr (page', req)" and "box_ok boxes"
    and "receiver_number_in_depth env = plot_number_in_depth req"
    and "receiver_number_in_range env = plot_number_in_range req"
    and "0 \<le> max_number_of_receivers cfg" "max_number_of_receivers cfg < 2 ^ 31"
  shows "too_many_receivers cfg env \<longleftrightarrow>
     max_number_of_receivers cfg < (- box_z boxes div box_dz boxes) * (box_r boxes div box_dr boxes)"
proof -
  note c = clicked_receivers [OF assms(1,2)]
  have "0 \<le> plot_number_in_depth req * plot_number_in_range req" using c(3,4) by simp
  then have "(plot_number_in_depth req * plot_number_in_range req) mod 2 ^ 32 =
      plot_number_in_depth req * plot_number_in_range req" using c(5) by (rule mod_pos_pos_trivial)
  moreover have "max_number_of_receivers cfg mod 2 ^ 32 = max_number_of_receivers cfg"
    using assms(5,6) by (intro mod_pos_pos_trivial) simp_all
  ultimately show ?thesis by (simp only: too_many_receivers_def assms(3,4) c(1,2))
qed

theorem plot_request_within_limit_witness:
  "\<exists>page' req. clicked 0 box_init (handle_manager_cfg page_cfg1 page_init) = Inr (page', req)
     \<and> plot_number_in_depth req = 400 \<and> plot_number_in_range req = 1000
     \<and> too_many_receivers (app_cfg1\<lparr>max_number_of_receivers := 399999\<rparr>)
          (env1\<lparr>receiver_number_in_depth := 400, receiver_number_in_range := 1000\<rparr>)"
proof -
  obtain page' req where c: "clicked 0 box_init (handle_manager_cfg page_cfg1 page_init) = Inr (page', req)"
    by (simp add: handle_manager_cfg_def clicked_def page_init_def page_cfg1_def Let_def)
  have b: "box_ok box_init" by (simp add: box_ok_def box_init_def)
  note n = clicked_receivers(1,2) [OF c b]
  from plot_request_within_limit [OF c b, of "env1\<lparr>receiver_number_in_depth := 400, receiver_number_in_range := 1000\<rparr>"
      "app_cfg1\<lparr>max_number_of_receivers := 399999\<rparr>"] c n
  show ?thesis by (simp add: box_init_def)
qed

section \<open>From a packet to the ray tracer\<close>

text \<open>
  What a gateway posts for the outputs of the packet simulation: its requests go to the manager, which
  publishes them for the environment of their source, and from there to every gateway.
\<close>

fun to_manager :: "(string \<Rightarrow> int) \<Rightarrow> manager \<Rightarrow> 'e udp_output \<Rightarrow> manager_output list" where
  "to_manager as_int m (Impulse_Req r) = handle_impulse_request as_int m r"
| "to_manager as_int m (Performance_Req r) = handle_performance_request as_int m r"
| "to_manager as_int m (Udp_Out io) = []"

definition posted :: "'t translator \<Rightarrow> (string \<Rightarrow> int) \<Rightarrow> manager \<Rightarrow> int \<Rightarrow> 'e udp_output list \<Rightarrow> moos_msg list" where
  "posted tr as_int m port out = concat (map (gateway_handle tr port) (concat (map (to_manager as_int m) out)))"

definition impulse_texts :: "moos_msg list \<Rightarrow> string list" where
  "impulse_texts msgs = map snd (filter (\<lambda>p. fst p = imp_req_var) msgs)"

lemma impulse_texts_append [simp]: "impulse_texts (xs @ ys) = impulse_texts xs @ impulse_texts ys"
  by (simp add: impulse_texts_def)

lemma impulse_texts_Nil [simp]: "impulse_texts [] = []"
  by (simp add: impulse_texts_def)

lemma posted_impulses:
  assumes "moos_translator tr show_pb show_response"
  shows "impulse_texts (posted tr as_int m port out) =
     map (\<lambda>r. show_pb (Impulse_Payload r))
       (filter (\<lambda>r. map_option sim_environment_id (env_cfg m (as_int (ireq_source r))) = Some (environment_id_of_port port))
         (concat (map impulse_reqs out)))"
proof (induction out)
  case (Cons x out)
  note gateway = moos_translator.posted_impulse_requests [OF assms, folded impulse_texts_def]
  have "impulse_texts (concat (map (gateway_handle tr port) (to_manager as_int m x))) =
      map (\<lambda>r. show_pb (Impulse_Payload r))
        (filter (\<lambda>r. map_option sim_environment_id (env_cfg m (as_int (ireq_source r))) = Some (environment_id_of_port port))
          (impulse_reqs x))"
    by (cases x) (auto simp: handle_impulse_request_def handle_performance_request_def gateway
        split: option.splits)
  with Cons show ?case by (simp add: posted_def)
qed (simp add: posted_def)

text \<open>
  C36: A packet of a known modem is queued for each of its destinations, and for each of them, in order, one
  request for the impulse response between the two is posted: in the MOOS community of the environment
  of its sender, and in no other community.
\<close>

theorem packet_asks_its_environment:
  assumes "moos_translator tr show_pb show_response" and "udp_inv api cfg s"
    and "endpoint_to_id s (serialize_endpoint api e) = Some src_id"
  shows "\<exists>s' out reqs. udp_received api cfg clk e bytes s = Inr (s', out)
     \<and> map (\<lambda>r. (ireq_source r, ireq_receiver r)) reqs =
         map (\<lambda>d. (port_text s src_id, port_text s d)) (destinations api cfg s src_id (parse_tx api bytes))
     \<and> (\<forall>port. impulse_texts (posted tr as_int m port out) =
          (if map_option sim_environment_id (env_cfg m (as_int (port_text s src_id))) = Some (environment_id_of_port port)
           then map (\<lambda>r. show_pb (Impulse_Payload r)) reqs else []))
     \<and> (\<forall>a d. equal_range d (forward_buffer s' a) = equal_range d (forward_buffer s a) @
          (if a = src_id
           then map (\<lambda>_. parse_tx api bytes) (filter (\<lambda>i. i = d) (destinations api cfg s src_id (parse_tx api bytes)))
           else []))"
proof -
  let ?msg = "parse_tx api bytes"
  let ?ds = "destinations api cfg s src_id ?msg"
  have src: "src_id \<in> modem_ids s" and o: "\<forall>src. ordered (forward_buffer s src)"
    using assms(2,3) by (auto simp: udp_inv_def maps_inv_def buffers_inv_def ran_def)
  have "set ?ds \<subseteq> modem_ids s" by (auto simp: destinations_def modem_ids_def)
  from forward_to_eq [OF src this o, of cfg clk ?msg api] obtain s' out
    where f: "forward_to cfg clk src_id ?ds ?msg s = Inr (s', out)"
      and q: "\<forall>a d. equal_range d (forward_buffer s' a) = equal_range d (forward_buffer s a) @
          (if a = src_id then map (\<lambda>_. ?msg) (filter (\<lambda>i. i = d) ?ds) else [])"
      and r: "map (\<lambda>r. (ireq_source r, ireq_receiver r)) (concat (map impulse_reqs out)) =
          map (\<lambda>d. (port_text s src_id, port_text s d)) ?ds" by blast
  have u: "udp_received api cfg clk e bytes s = Inr (s', out)"
    using f assms(3) by (simp add: udp_received_def)
  let ?reqs = "concat (map impulse_reqs out)"
  have "map ireq_source ?reqs = map (\<lambda>d. port_text s src_id) ?ds"
    using arg_cong [OF r, of "map fst"] by (simp add: comp_def)
  then have "\<forall>x \<in> set ?reqs. ireq_source x = port_text s src_id"
    by (metis (no_types, lifting) imageE image_eqI list.set_map)
  then have only: "filter (\<lambda>x. map_option sim_environment_id (env_cfg m (as_int (ireq_source x))) = Some (environment_id_of_port port)) ?reqs =
      (if map_option sim_environment_id (env_cfg m (as_int (port_text s src_id))) = Some (environment_id_of_port port)
       then ?reqs else [])" for port
    by (auto simp: filter_empty_conv intro!: filter_True)
  have "\<forall>port. impulse_texts (posted tr as_int m port out) =
          (if map_option sim_environment_id (env_cfg m (as_int (port_text s src_id))) = Some (environment_id_of_port port)
           then map (\<lambda>r. show_pb (Impulse_Payload r)) ?reqs else [])"
    unfolding posted_impulses [OF assms(1)] only
    by (simp only: if_distrib [of "map (\<lambda>r. show_pb (Impulse_Payload r))"] list.map simp_thms)
  with u r q show ?thesis by blast
qed

theorem packet_asks_its_environment_witness:
  "\<exists>s' out. udp_received api1 udp_cfg1 clock1 2 ''hello'' udp1 = Inr (s', out)
     \<and> length (impulse_texts (posted name_translator (\<lambda>_. 62000) manager1 9001 out)) = 2
     \<and> impulse_texts (posted name_translator (\<lambda>_. 62000) manager1 9002 out) = []"
proof -
  have e: "endpoint_to_id udp1 (serialize_endpoint api1 2) = Some 2"
    by (simp add: udp1_def api1_def eval_nat_numeral)
  have d: "destinations api1 udp_cfg1 udp1 2 (parse_tx api1 ''hello'') = [1, 3]"
    by (simp add: destinations_def api1_def udp_cfg1_def udp1_def)
  have m: "map_option sim_environment_id (env_cfg manager1 62000) = Some 1"
    "environment_id_of_port 9001 = 1" "environment_id_of_port 9002 = 2"
    by (simp_all add: manager1_def sim1_def environment_id_of_port_def)
  from packet_asks_its_environment [OF name_translator.moos_translator_axioms udp_inv_1 e,
      of clock1 "''hello''" "\<lambda>_. 62000" manager1]
  obtain s' out reqs where u: "udp_received api1 udp_cfg1 clock1 2 ''hello'' udp1 = Inr (s', out)"
    and r: "map (\<lambda>r. (ireq_source r, ireq_receiver r)) reqs = map (\<lambda>d. (port_text udp1 2, port_text udp1 d)) [1, 3]"
    and p: "\<forall>port. impulse_texts (posted name_translator (\<lambda>_. 62000) manager1 port out) =
          (if map_option sim_environment_id (env_cfg manager1 62000) = Some (environment_id_of_port port)
           then map (\<lambda>r. full_name_of (Impulse_Payload r)) reqs else [])"
    unfolding d by blast
  have "length reqs = 2" using arg_cong [OF r, of length] by simp
  with u p m show ?thesis by simp
qed

end
